(* ===== verification/Relay_Prelude.thy ===== *)
theory Relay_Prelude
  imports Main "HOL-Library.Word" "HOL-Library.Char_ord" "HOL-Library.List_Lexorder"
begin

text \<open>
  Shared vocabulary of the development: the machine integer types of the C++ code, byte
  buffers and the in-place write \<open>store\<close> that models \<open>memcpy\<close> and the \<open>put_*\<close> helpers,
  and finite maps with ordered keys (\<open>std::map\<close>, \<open>std::unordered_map\<close>) as sorted
  association lists behind the interface \<open>finite_map\<close>.
\<close>

unbundle bit_operations_syntax

section \<open>Machine integers\<close>

type_synonym byte = "8 word"
type_synonym u16 = "16 word"
type_synonym u32 = "32 word"
type_synonym u64 = "64 word"

named_theorems wire_simps \<open>equations that evaluate field reads of serialised data\<close>
named_theorems const_defs \<open>definitions of the constants of the source\<close>

lemma unat_ucast_up [simp]:
  "LENGTH('a) \<le> LENGTH('b) \<Longrightarrow> unat (ucast (w :: 'a::len word) :: 'b::len word) = unat w"
  by (simp add: unsigned_ucast_eq take_bit_nat_eq_self_iff)
    (meson lt2p_lem order_less_le_trans power_increasing_iff one_less_numeral_iff semiring_norm(76) unsigned_less)

lemma unat_ucast_add:
  fixes a :: "'a::len word" and b :: "'b::len word"
  assumes "LENGTH('a) < LENGTH('c)" "LENGTH('b) < LENGTH('c)"
  shows "unat (ucast a + ucast b :: 'c::len word) = unat a + unat b"
proof -
  have "unat a < 2 ^ (LENGTH('c) - 1)" "unat b < 2 ^ (LENGTH('c) - 1)"
    using assms by (auto intro!: less_le_trans [OF unsigned_less] power_increasing)
  moreover have "(2::nat) ^ LENGTH('c) = 2 * 2 ^ (LENGTH('c) - 1)"
    by (simp flip: power_Suc)
  ultimately have "unat a + unat b < 2 ^ LENGTH('c)" by linarith
  with assms show ?thesis by (simp add: unat_word_ariths)
qed

lemma unat_less_2p: "unat w < 2 ^ LENGTH('a)" for w :: "'a::len word"
  by (rule unsigned_less)

lemma word_eq_unat: "a = b \<longleftrightarrow> unat a = unat b" for a b :: "'a::len word"
  by (simp add: word_unat_eq_iff)

lemmas word_to_nat = word_eq_unat word_le_nat_alt word_less_nat_alt

section \<open>Bits as arithmetic\<close>

lemma low_bits: "unat (w AND 0x3F :: u32) = unat w mod 64"
proof -
  have "(0x3F :: u32) = mask 6" by (simp add: mask_eq_exp_minus_1)
  then have "w AND 0x3F = take_bit 6 w" by (simp only: take_bit_eq_mask)
  then show ?thesis by (simp add: unsigned_take_bit_eq take_bit_eq_mod unat_mod_distrib)
qed

lemma or_plus:
  fixes v w :: u32
  assumes "unat w < 2 ^ n" "n < 32" "v = push_bit n u"
  shows "v OR w = v + w"
proof (rule disjunctive_add [symmetric])
  fix k
  have "w = take_bit n w" using assms(1) by (simp add: word_eq_unat unsigned_take_bit_eq take_bit_nat_eq_self)
  then have "bit w k \<Longrightarrow> k < n" by (metis bit_take_bit_iff)
  then show "\<not> bit v k \<or> \<not> bit w k" unfolding assms(3) by (auto simp: bit_push_bit_iff)
qed

lemma unat_drop_bit: "unat (drop_bit n w) = unat w div 2 ^ n" for w :: u32
  using unat_less_2p [of w] by (simp only: unsigned_drop_bit_eq) (simp add: drop_bit_eq_div take_bit_eq_mod)

section \<open>Byte buffers\<close>

text \<open>
  \<open>store buf off src\<close> is the buffer after the bytes \<open>src\<close> are copied to offset \<open>off\<close>.
  Every caller keeps \<open>off + length src \<le> length buf\<close>; the lemmas carry that hypothesis.
\<close>

definition store :: "'a list \<Rightarrow> nat \<Rightarrow> 'a list \<Rightarrow> 'a list" where
  "store buf off src = take off buf @ src @ drop (off + length src) buf"

lemma length_store [simp]:
  "off + length src \<le> length buf \<Longrightarrow> length (store buf off src) = length buf"
  by (simp add: store_def)

lemma nth_store:
  assumes "off + length src \<le> length buf" "i < length buf"
  shows "store buf off src ! i = (if off \<le> i \<and> i < off + length src then src ! (i - off) else buf ! i)"
proof -
  have len: "length (take off buf) = off" using assms by simp
  show ?thesis
  proof (cases "i < off")
    case True
    with len show ?thesis by (simp add: store_def nth_append)
  next
    case False
    with len assms show ?thesis by (auto simp: store_def nth_append)
  qed
qed

lemma store_append_left:
  "off + length src \<le> length xs \<Longrightarrow> store (xs @ ys) off src = store xs off src @ ys"
  by (simp add: store_def)

lemma store_append_right:
  "length xs \<le> off \<Longrightarrow> store (xs @ ys) off src = xs @ store ys (off - length xs) src"
  by (simp add: store_def)

lemma store_front: "store buf 0 src = src @ drop (length src) buf"
  by (simp add: store_def)

lemmas store_fields = store_append_right store_front

lemma store_whole: "length src = length buf \<Longrightarrow> store buf 0 src = src"
  by (simp add: store_def)

text \<open>\<open>std::vector::resize\<close>: cut, or filled up with zero bytes.\<close>

definition resize :: "nat \<Rightarrow> byte list \<Rightarrow> byte list" where
  "resize n v = take n v @ replicate (n - length v) 0"

lemma length_resize [simp]: "length (resize n v) = n"
  by (simp add: resize_def)

section \<open>Finite maps\<close>

text \<open>
  The interface the components use of a map: lookup, insertion, removal, and the list of
  the entries. The laws are those of \<open>std::map\<close> and \<open>std::unordered_map\<close>: one entry per key, an insertion or a
  removal changes no other key, and \<open>size()\<close> counts the keys.
\<close>

locale finite_map =
  fixes empty :: 'm
    and get :: "'m \<Rightarrow> 'k \<Rightarrow> 'v option"
    and put :: "'k \<Rightarrow> 'v \<Rightarrow> 'm \<Rightarrow> 'm"
    and del :: "'k \<Rightarrow> 'm \<Rightarrow> 'm"
    and entries :: "'m \<Rightarrow> ('k \<times> 'v) list"
    and invar :: "'m \<Rightarrow> bool"
  assumes invar_empty: "invar empty"
    and invar_put: "invar m \<Longrightarrow> invar (put k v m)"
    and invar_del: "invar m \<Longrightarrow> invar (del k m)"
    and entries_empty: "entries empty = []"
    and distinct_entries: "invar m \<Longrightarrow> distinct (map fst (entries m))"
    and get_entries: "invar m \<Longrightarrow> get m = map_of (entries m)"
    and get_put: "invar m \<Longrightarrow> get (put k v m) = (get m)(k \<mapsto> v)"
    and get_del: "invar m \<Longrightarrow> get (del k m) = (get m)(k := None)"
begin

lemma get_empty: "get empty = Map.empty"
  using get_entries [OF invar_empty] by (simp add: entries_empty)

lemma set_entries: "invar m \<Longrightarrow> set (entries m) = {(k, v). get m k = Some v}"
  by (auto simp: get_entries distinct_entries)

lemma distinct_entries': "invar m \<Longrightarrow> distinct (entries m)"
  using distinct_entries distinct_map by blast

text \<open>Sums over a map: the basis of every conservation law about counters kept per key.\<close>

lemma sum_entries: "invar m \<Longrightarrow> (\<Sum>kv\<leftarrow>entries m. (f kv :: 'c::comm_monoid_add)) = (\<Sum>kv\<in>set (entries m). f kv)"
  by (simp add: sum_list_distinct_conv_sum_set distinct_entries')

lemma finite_graph: "invar m \<Longrightarrow> finite {(k, v). get m k = Some v}"
  by (simp flip: set_entries)

lemma set_put:
  "invar m \<Longrightarrow> set (entries (put k v m)) = insert (k, v) (set (entries m) - {(k, w) | w. get m k = Some w})"
  by (auto simp: set_entries invar_put get_put split: if_splits)

lemma set_del:
  "invar m \<Longrightarrow> set (entries (del k m)) = set (entries m) - {(k, w) | w. get m k = Some w}"
  by (auto simp: set_entries invar_del get_del split: if_splits)

lemma sum_put_new:
  fixes f :: "'k \<times> 'v \<Rightarrow> 'c::comm_monoid_add"
  assumes "invar m" "get m k = None"
  shows "(\<Sum>kv\<leftarrow>entries (put k v m). f kv) = (\<Sum>kv\<leftarrow>entries m. f kv) + f (k, v)"
proof -
  have "(k, v) \<notin> set (entries m)" using assms by (simp add: set_entries)
  moreover have "set (entries (put k v m)) = insert (k, v) (set (entries m))"
    using assms by (simp add: set_put)
  ultimately show ?thesis
    using assms by (simp add: sum_entries invar_put add.commute)
qed

lemma sum_put_old:
  fixes f :: "'k \<times> 'v \<Rightarrow> 'c::comm_monoid_add"
  assumes "invar m" "get m k = Some w"
  shows "(\<Sum>kv\<leftarrow>entries (put k v m). f kv) + f (k, w) = (\<Sum>kv\<leftarrow>entries m. f kv) + f (k, v)"
proof -
  let ?S = "set (entries m) - {(k, w)}"
  have in_S: "(k, w) \<in> set (entries m)" using assms by (simp add: set_entries)
  have set_eq: "set (entries (put k v m)) = insert (k, v) ?S"
    using assms by (simp add: set_put)
  have notin: "(k, v) \<notin> ?S" using assms by (auto simp: set_entries)
  have old: "(\<Sum>kv\<in>set (entries m). f kv) = f (k, w) + (\<Sum>kv\<in>?S. f kv)"
    by (rule sum.remove) (simp_all add: in_S)
  have new: "(\<Sum>kv\<in>set (entries (put k v m)). f kv) = f (k, v) + (\<Sum>kv\<in>?S. f kv)"
    unfolding set_eq using notin by simp
  show ?thesis
    using assms old new by (simp add: sum_entries invar_put ac_simps)
qed

lemma length_put:
  assumes "invar m"
  shows "length (entries (put k v m)) = (if get m k = None then Suc (length (entries m)) else length (entries m))"
proof (cases "get m k")
  case None
  then show ?thesis
    using sum_put_new [OF assms None, of "\<lambda>_. 1::nat"] by (simp add: sum_list_triv)
next
  case (Some w)
  then show ?thesis
    using sum_put_old [OF assms Some, of "\<lambda>_. 1::nat"] by (simp add: sum_list_triv)
qed

lemma length_del:
  assumes "invar m"
  shows "length (entries (del k m)) = (if get m k = None then length (entries m) else length (entries m) - 1)"
proof -
  have len: "length (entries n) = card (set (entries n))" if "invar n" for n
    using that by (simp add: distinct_card distinct_entries')
  show ?thesis
  proof (cases "get m k")
    case None
    then show ?thesis using assms by (simp add: len invar_del set_del)
  next
    case (Some w)
    then have "(k, w) \<in> set (entries m)" using assms by (simp add: set_entries)
    with Some show ?thesis using assms by (simp add: len invar_del set_del)
  qed
qed

lemma entries_nonempty: "invar m \<Longrightarrow> get m k = Some v \<Longrightarrow> 0 < length (entries m)"
  by (auto simp: get_entries)

end

subsection \<open>Sorted association lists\<close>

type_synonym ('k, 'v) smap = "('k \<times> 'v) list"

definition smap_get :: "('k, 'v) smap \<Rightarrow> 'k \<Rightarrow> 'v option" where
  "smap_get m = map_of m"

fun smap_put :: "'k::linorder \<Rightarrow> 'v \<Rightarrow> ('k, 'v) smap \<Rightarrow> ('k, 'v) smap" where
  "smap_put k v [] = [(k, v)]"
| "smap_put k v ((a, b) # m) =
     (if k < a then (k, v) # (a, b) # m else if k = a then (k, v) # m else (a, b) # smap_put k v m)"

fun smap_del :: "'k::linorder \<Rightarrow> ('k, 'v) smap \<Rightarrow> ('k, 'v) smap" where
  "smap_del k [] = []"
| "smap_del k ((a, b) # m) = (if k = a then m else (a, b) # smap_del k m)"

definition smap_inv :: "('k::linorder, 'v) smap \<Rightarrow> bool" where
  "smap_inv m \<longleftrightarrow> sorted_wrt (<) (map fst m)"

lemma fst_set_smap_put: "fst ` set (smap_put k v m) = insert k (fst ` set m)"
  by (induction k v m rule: smap_put.induct) auto

lemma fst_set_smap_del: "fst ` set (smap_del k m) \<subseteq> fst ` set m"
  by (induction k m rule: smap_del.induct) auto

lemma smap_inv_put: "smap_inv m \<Longrightarrow> smap_inv (smap_put k v m)"
proof (induction k v m rule: smap_put.induct)
  case (2 k v a b m)
  then show ?case
    using fst_set_smap_put [of k v m] by (auto simp: smap_inv_def simp flip: image_iff)
qed (simp add: smap_inv_def)

lemma smap_inv_del: "smap_inv m \<Longrightarrow> smap_inv (smap_del k m)"
proof (induction k m rule: smap_del.induct)
  case (2 k a b m)
  then show ?case
    using fst_set_smap_del [of k m] by (auto simp: smap_inv_def subset_iff) force
qed simp

lemma map_of_smap_put: "smap_inv m \<Longrightarrow> map_of (smap_put k v m) = (map_of m)(k \<mapsto> v)"
  by (induction k v m rule: smap_put.induct) (auto simp: smap_inv_def fun_eq_iff)

lemma smap_inv_distinct: "smap_inv m \<Longrightarrow> distinct (map fst m)"
  by (simp add: smap_inv_def strict_sorted_iff)

lemma map_of_smap_del: "smap_inv m \<Longrightarrow> map_of (smap_del k m) = (map_of m)(k := None)"
proof (induction k m rule: smap_del.induct)
  case (2 k a b m)
  then have "k = a \<Longrightarrow> map_of m k = None"
    by (auto simp: smap_inv_def map_of_eq_None_iff)
  with 2 show ?case by (auto simp: smap_inv_def fun_eq_iff)
qed (simp add: fun_eq_iff)

lemma smap_put_put: "smap_put k v (smap_put k u m) = smap_put k v m"
  by (induction k u m rule: smap_put.induct) auto

lemma smap_put_same: "smap_inv m \<Longrightarrow> smap_get m k = Some v \<Longrightarrow> smap_put k v m = m"
  by (induction k v m rule: smap_put.induct)
    (auto simp: smap_inv_def smap_get_def split: if_splits dest!: map_of_SomeD)

interpretation sm: finite_map "[]" smap_get smap_put smap_del "\<lambda>m. m" "smap_inv :: ('k::linorder, 'v) smap \<Rightarrow> bool"
  by unfold_locales
    (auto simp: smap_get_def smap_inv_put smap_inv_del map_of_smap_put map_of_smap_del smap_inv_distinct,
     simp add: smap_inv_def)

declare sm.invar_empty [simp] sm.invar_put [simp] sm.invar_del [simp]
declare sm.get_empty [simp] sm.get_put [simp] sm.get_del [simp]

end
