(* ===== verification/Step_Systems.thy ===== *)
theory Step_Systems
  imports Relay_Prelude
begin

text \<open>
  Contracts the stateful components share. A component processes events one at a time;
  \<open>step_system\<close> is the contract that every event keeps the component's invariant, and gives
  that every run does. \<open>partial_step_system\<close> is the same for components with a loop that the
  type does not bound (the step returns an option): under the invariant every step
  returns, so every run does.
\<close>

fun run :: "('s \<Rightarrow> 'e \<Rightarrow> 's) \<Rightarrow> 's \<Rightarrow> 'e list \<Rightarrow> 's" where
  "run step s [] = s"
| "run step s (e # es) = run step (step s e) es"

lemma run_append: "run step s (xs @ ys) = run step (run step s xs) ys"
  by (induction xs arbitrary: s) auto

fun run_opt :: "('s \<Rightarrow> 'e \<Rightarrow> 's option) \<Rightarrow> 's \<Rightarrow> 'e list \<Rightarrow> 's option" where
  "run_opt step s [] = Some s"
| "run_opt step s (e # es) = (case step s e of None \<Rightarrow> None | Some t \<Rightarrow> run_opt step t es)"

lemma run_opt_append:
  "run_opt step s (xs @ ys) = (case run_opt step s xs of None \<Rightarrow> None | Some t \<Rightarrow> run_opt step t ys)"
  by (induction xs arbitrary: s) (auto split: option.splits)

locale step_system =
  fixes step :: "'s \<Rightarrow> 'e \<Rightarrow> 's"
    and ok :: "'e \<Rightarrow> bool"
    and inv :: "'s \<Rightarrow> bool"
  assumes step_inv: "inv s \<Longrightarrow> ok e \<Longrightarrow> inv (step s e)"
begin

lemma run_inv: "inv s \<Longrightarrow> list_all ok es \<Longrightarrow> inv (run step s es)"
  by (induction es arbitrary: s) (auto simp: step_inv)

end

locale partial_step_system =
  fixes step :: "'s \<Rightarrow> 'e \<Rightarrow> 's option"
    and ok :: "'e \<Rightarrow> bool"
    and inv :: "'s \<Rightarrow> bool"
  assumes step_returns: "inv s \<Longrightarrow> ok e \<Longrightarrow> \<exists>t. step s e = Some t"
    and step_inv: "inv s \<Longrightarrow> ok e \<Longrightarrow> step s e = Some t \<Longrightarrow> inv t"
begin

lemma run_returns: "inv s \<Longrightarrow> list_all ok es \<Longrightarrow> \<exists>t. run_opt step s es = Some t \<and> inv t"
proof (induction es arbitrary: s)
  case (Cons e es)
  then obtain t where "step s e = Some t" "inv t"
    using step_returns step_inv by fastforce
  with Cons show ?case by auto
qed simp

lemma run_inv: "inv s \<Longrightarrow> list_all ok es \<Longrightarrow> run_opt step s es = Some t \<Longrightarrow> inv t"
  using run_returns by fastforce

text \<open>The total step of a partial system whose invariant holds.\<close>

lemma the_step: "inv s \<Longrightarrow> ok e \<Longrightarrow> step s e = Some (the (step s e)) \<and> inv (the (step s e))"
  using step_returns step_inv by fastforce

end

sublocale partial_step_system \<subseteq> total: step_system "\<lambda>s e. the (step s e)" ok inv
  by unfold_locales (use the_step in blast)

end
