(* ===== verification/Sequence_Tracker.thy ===== *)
theory Sequence_Tracker
  imports Step_Systems
begin

text \<open>
  Per-source sequence gap detection: tools/receiver/include/ipcrelay/sequence_tracker.hpp and
  tools/receiver/lib/sequence_tracker.cpp. \<open>observe_source\<close> is the body of
  \<open>SequenceTracker::observe\<close> on the state of the source it looks up (\<open>sources_[source_id]\<close>
  inserts the default state when the source is new).
\<close>

record SourceSequenceState =
  sq_seen :: bool
  sq_last_sequence :: u64
  sq_gap_events :: u64
  sq_missing :: u64
  sq_out_of_order :: u64

definition default_SourceSequenceState :: SourceSequenceState where
  "default_SourceSequenceState =
     \<lparr>sq_seen = False, sq_last_sequence = 0, sq_gap_events = 0, sq_missing = 0, sq_out_of_order = 0\<rparr>"

datatype Outcome = First | InOrder | Gap | OutOfOrder

type_synonym tracker = "(u32, SourceSequenceState) smap"

definition observe_source :: "u64 \<Rightarrow> SourceSequenceState \<Rightarrow> Outcome \<times> u64 \<times> SourceSequenceState" where
  "observe_source seq s =
     (if \<not> sq_seen s then (First, 0, s\<lparr>sq_seen := True, sq_last_sequence := seq\<rparr>)
      else let expected = sq_last_sequence s + 1 in
      if seq = expected then (InOrder, 0, s\<lparr>sq_last_sequence := seq\<rparr>)
      else if seq > expected then
        let missing = seq - expected in
        (Gap, missing, s\<lparr>sq_missing := sq_missing s + missing, sq_gap_events := sq_gap_events s + 1,
                        sq_last_sequence := seq\<rparr>)
      else let s = s\<lparr>sq_out_of_order := sq_out_of_order s + 1\<rparr> in
      if seq + 1000 < sq_last_sequence s \<or> seq = 0
      then (OutOfOrder, 0, s\<lparr>sq_last_sequence := seq\<rparr>)
      else (OutOfOrder, 0, s))"

definition tracked :: "tracker \<Rightarrow> u32 \<Rightarrow> SourceSequenceState" where
  "tracked t src = (case smap_get t src of None \<Rightarrow> default_SourceSequenceState | Some s \<Rightarrow> s)"

definition observe :: "tracker \<Rightarrow> u32 \<Rightarrow> u64 \<Rightarrow> Outcome \<times> u64 \<times> tracker" where
  "observe t src seq =
     (let (outcome, missing, s) = observe_source seq (tracked t src)
      in (outcome, missing, smap_put src s t))"

section \<open>One observation\<close>

definition restarts :: "u64 \<Rightarrow> SourceSequenceState \<Rightarrow> bool" where
  "restarts seq s \<longleftrightarrow> fst (observe_source seq s) = OutOfOrder \<and> (seq + 1000 < sq_last_sequence s \<or> seq = 0)"

lemma observe_source_cases:
  obtains (first) "\<not> sq_seen s"
      "observe_source seq s = (First, 0, s\<lparr>sq_seen := True, sq_last_sequence := seq\<rparr>)"
  | (in_order) "sq_seen s" "seq = sq_last_sequence s + 1"
      "observe_source seq s = (InOrder, 0, s\<lparr>sq_last_sequence := seq\<rparr>)"
  | (gap) "sq_seen s" "sq_last_sequence s + 1 < seq"
      "observe_source seq s =
         (Gap, seq - (sq_last_sequence s + 1),
          s\<lparr>sq_missing := sq_missing s + (seq - (sq_last_sequence s + 1)),
            sq_gap_events := sq_gap_events s + 1, sq_last_sequence := seq\<rparr>)"
  | (restart) "sq_seen s" "seq < sq_last_sequence s + 1" "seq + 1000 < sq_last_sequence s \<or> seq = 0"
      "observe_source seq s =
         (OutOfOrder, 0, s\<lparr>sq_out_of_order := sq_out_of_order s + 1, sq_last_sequence := seq\<rparr>)"
  | (late) "sq_seen s" "seq < sq_last_sequence s + 1" "\<not> (seq + 1000 < sq_last_sequence s \<or> seq = 0)"
      "observe_source seq s = (OutOfOrder, 0, s\<lparr>sq_out_of_order := sq_out_of_order s + 1\<rparr>)"
  by (atomize_elim, auto simp: observe_source_def Let_def word_gt_0)

text \<open>The run of a tracker over the messages of all sources, and its projection to one source.\<close>

fun observe_step :: "tracker \<Rightarrow> u32 \<times> u64 \<Rightarrow> tracker" where
  "observe_step t (src, seq) = snd (snd (observe t src seq))"

fun source_step :: "SourceSequenceState \<Rightarrow> u64 \<Rightarrow> SourceSequenceState" where
  "source_step s seq = snd (snd (observe_source seq s))"

interpretation trk: step_system observe_step "\<lambda>_. True" smap_inv
  by unfold_locales (auto simp: observe_def split: prod.splits)

lemma tracked_observe:
  "smap_inv t \<Longrightarrow> tracked (snd (snd (observe t src seq))) src' =
     (if src' = src then source_step (tracked t src) seq else tracked t src')"
  by (auto simp: observe_def tracked_def split: prod.splits)

lemma observe_result: "fst (observe t src seq) = fst (observe_source seq (tracked t src))"
  "fst (snd (observe t src seq)) = fst (snd (observe_source seq (tracked t src)))"
  by (auto simp: observe_def split: prod.splits)

lemma tracked_run:
  "smap_inv t \<Longrightarrow>
   tracked (run observe_step t ms) src = run source_step (tracked t src) (map snd (filter (\<lambda>m. fst m = src) ms))"
proof (induction ms arbitrary: t)
  case (Cons m ms)
  obtain s q where m: "m = (s, q)" by (cases m)
  have "smap_inv (observe_step t m)" using Cons.prems by (rule trk.step_inv) simp
  from Cons.IH [OF this] show ?case
    using Cons.prems by (auto simp: m tracked_observe simp del: source_step.simps)
qed simp

section \<open>Strictly increasing sequences\<close>

lemma Suc_word_le: "a < q \<Longrightarrow> q \<noteq> a + 1 \<Longrightarrow> a + 1 < q" for a q :: u64
  by (metis inc_le order_le_less)

lemma source_step_forward:
  assumes "sq_seen s" "sq_last_sequence s < q"
  shows "sq_seen (source_step s q)" "sq_last_sequence (source_step s q) = q"
    "sq_out_of_order (source_step s q) = sq_out_of_order s"
    "sq_missing (source_step s q) = sq_missing s + (q - (sq_last_sequence s + 1))"
proof -
  consider "q = sq_last_sequence s + 1" | "sq_last_sequence s + 1 < q"
    using assms(2) Suc_word_le by blast
  then have "sq_seen (source_step s q) \<and> sq_last_sequence (source_step s q) = q \<and>
      sq_out_of_order (source_step s q) = sq_out_of_order s \<and>
      sq_missing (source_step s q) = sq_missing s + (q - (sq_last_sequence s + 1))"
    using assms by cases (auto simp: observe_source_def Let_def)
  then show "sq_seen (source_step s q)" "sq_last_sequence (source_step s q) = q"
    "sq_out_of_order (source_step s q) = sq_out_of_order s"
    "sq_missing (source_step s q) = sq_missing s + (q - (sq_last_sequence s + 1))"
    by blast+
qed

lemma run_increasing:
  assumes "sq_seen s" "sorted_wrt (<) (sq_last_sequence s # qs)"
  shows "sq_last_sequence (run source_step s qs) = last (sq_last_sequence s # qs) \<and>
    sq_out_of_order (run source_step s qs) = sq_out_of_order s \<and>
    sq_missing (run source_step s qs) =
      sq_missing s + (last (sq_last_sequence s # qs) - sq_last_sequence s - of_nat (length qs))"
  using assms
proof (induction qs arbitrary: s)
  case (Cons q qs)
  have step: "sq_seen s" "sq_last_sequence s < q" using Cons.prems by auto
  note fwd = source_step_forward [OF step]
  have "sorted_wrt (<) (sq_last_sequence (source_step s q) # qs)"
    using Cons.prems fwd(2) by simp
  from Cons.IH [OF fwd(1) this] show ?case
    using fwd by (simp del: source_step.simps)
qed simp

lemma sorted_words_span:
  fixes q :: u64
  assumes "sorted_wrt (<) (q # qs)"
  shows "unat q + length qs \<le> unat (last (q # qs)) \<and>
    unat ` set (q # qs) \<subseteq> {unat q..unat (last (q # qs))} \<and>
    card (unat ` set (q # qs)) = Suc (length qs)"
  using assms
proof (induction qs arbitrary: q)
  case (Cons r qs)
  have r: "unat q < unat r" using Cons.prems by (simp add: word_less_nat_alt)
  have "sorted_wrt (<) (r # qs)" using Cons.prems by simp
  note IH = Cons.IH [OF this]
  have "unat q \<notin> unat ` set (r # qs)" using IH r by (auto simp: subset_iff)
  then have "card (unat ` set (q # r # qs)) = Suc (length (r # qs))"
    using IH by simp
  moreover have "unat ` set (q # r # qs) \<subseteq> {unat q..unat (last (q # r # qs))}"
    using IH r by (auto simp: subset_iff)
  ultimately show ?case using IH r by simp
qed simp

section \<open>Properties of the sequence tracker\<close>

text \<open>C10: For a source whose messages are observed in increasing order, interleaved with any messages of
  other sources, the missing counter is exactly the number of sequence numbers between the
  first and the last observed one that were never seen, and nothing is counted out of order.\<close>

theorem missing_counts_never_seen:
  assumes "map snd (filter (\<lambda>m. fst m = src) ms) = q # qs" "sorted_wrt (<) (q # qs)"
  shows "unat (sq_missing (tracked (run observe_step [] ms) src)) =
      card ({unat q..unat (last (q # qs))} - unat ` set (q # qs)) \<and>
    sq_out_of_order (tracked (run observe_step [] ms) src) = 0 \<and>
    sq_last_sequence (tracked (run observe_step [] ms) src) = last (q # qs)"
proof -
  let ?s = "default_SourceSequenceState\<lparr>sq_seen := True, sq_last_sequence := q\<rparr>"
  let ?l = "last (q # qs)"
  have first: "source_step default_SourceSequenceState q = ?s"
    by (simp add: observe_source_def default_SourceSequenceState_def)
  have run: "tracked (run observe_step [] ms) src = run source_step ?s qs"
    using tracked_run [of "[]" ms src] assms(1) first
    by (simp add: tracked_def del: source_step.simps)
  have s: "sq_seen ?s" "sorted_wrt (<) (sq_last_sequence ?s # qs)"
    "sq_missing ?s = 0" "sq_out_of_order ?s = 0" "sq_last_sequence ?s = q"
    using assms(2) by (simp_all add: default_SourceSequenceState_def)
  note r = run_increasing [OF s(1,2), unfolded s(3-5)]
  have span: "unat q + length qs \<le> unat ?l" "unat ` set (q # qs) \<subseteq> {unat q..unat ?l}"
    "card (unat ` set (q # qs)) = Suc (length qs)"
    using sorted_words_span [OF assms(2)] by blast+
  have "unat (?l - q - of_nat (length qs)) = unat ?l - unat q - length qs"
  proof -
    have len: "unat (of_nat (length qs) :: u64) = length qs"
      using span(1) unat_less_2p [of ?l] by (simp add: unat_of_nat del: last.simps)
    have "unat (?l - q) = unat ?l - unat q"
      using span(1) by (simp add: unat_sub_if' del: last.simps)
    then show ?thesis using span(1) len by (simp add: unat_sub_if' del: last.simps)
  qed
  moreover have "card ({unat q..unat ?l} - unat ` set (q # qs)) = Suc (unat ?l) - unat q - Suc (length qs)"
    using span(2,3) by (subst card_Diff_subset) (auto simp del: last.simps)
  ultimately show ?thesis using r by (simp add: run del: last.simps)
qed

theorem missing_counts_never_seen_witness:
  "unat (sq_missing (tracked (run observe_step [] [(1, 0), (2, 7), (1, 1), (1, 5), (2, 8), (1, 6)]) 1)) =
     card ({0..6} - {0, 1, 5, 6 :: nat})"
  using missing_counts_never_seen [of 1 "[(1, 0), (2, 7), (1, 1), (1, 5), (2, 8), (1, 6)]" 0 "[1, 5, 6]"]
  by simp

text \<open>The restart rule of docs/wire_protocol.md. A sequence number that is not ahead of the last one
  is counted out of order and nothing else changes, except that after a backwards jump of
  more than 1000, or to 0, the tracker resynchronises to it.\<close>

theorem backwards_restart_rule:
  assumes "sq_seen s" "seq \<le> sq_last_sequence s" "sq_last_sequence s \<noteq> - 1" "unat seq + 1000 < 2 ^ 64"
  shows "observe_source seq s =
    (OutOfOrder, 0,
     s\<lparr>sq_out_of_order := sq_out_of_order s + 1,
       sq_last_sequence :=
         (if 1000 < unat (sq_last_sequence s) - unat seq \<or> seq = 0 then seq else sq_last_sequence s)\<rparr>)"
proof -
  have "unat (sq_last_sequence s + 1) = unat (sq_last_sequence s) + 1"
    using assms(3) by (metis Suc_eq_plus1 add.commute unatSuc add_eq_0_iff)
  then have behind: "seq < sq_last_sequence s + 1"
    using assms(2) by (simp add: word_less_nat_alt word_le_nat_alt)
  have "unat (seq + 1000) = unat seq + 1000"
    using assms(4) by (simp add: unat_word_ariths)
  then have jump: "seq + 1000 < sq_last_sequence s \<longleftrightarrow> 1000 < unat (sq_last_sequence s) - unat seq"
    by (auto simp: word_less_nat_alt)
  show ?thesis
    using assms(1) behind by (auto simp: observe_source_def Let_def jump)
qed

theorem backwards_restart_rule_witness:
  "sq_last_sequence (snd (snd (observe_source 5
       (default_SourceSequenceState\<lparr>sq_seen := True, sq_last_sequence := 2000\<rparr>)))) = 5"
  by (subst backwards_restart_rule) (simp_all add: default_SourceSequenceState_def word_le_nat_alt)

text \<open>At the end of the sequence space the rule breaks: \<open>expected\<close> wraps to 0, so a duplicate of
  the last possible sequence number is reported as a gap of \<open>2 ^ 64 - 1\<close> messages.\<close>

lemma duplicate_at_wrap_is_gap:
  assumes "sq_seen s" "sq_last_sequence s = - 1"
  shows "fst (observe_source (- 1) s) = Gap \<and> fst (snd (observe_source (- 1) s)) = - 1"
  using assms by (simp add: observe_source_def Let_def word_gt_0)

end
