(* ===== verification/Config.thy ===== *)
theory Config
  imports Relay_Prelude
begin

text \<open>
  The INI-style configuration parser and its value parsers: include/ipcrelay/common/config.hpp
  and src/common/config.cpp, with \<open>parse_log_level\<close> of src/common/log.cpp and
  \<open>resolve_interface_ipv4\<close> of src/common/net_util.cpp. A \<open>std::string\<close> is a list of
  characters; a function that returns \<open>false\<close> and sets \<open>error\<close> returns \<open>Inl error\<close>. The
  C library functions \<open>strtoll\<close> and \<open>strtoull\<close> with base 0 are modelled; \<open>inet_pton\<close>,
  \<open>getifaddrs\<close> and the file system are parameters.
\<close>

section \<open>Strings\<close>

definition is_space :: "char \<Rightarrow> bool" where
  "is_space c \<longleftrightarrow> c = CHR '' '' \<or> c \<in> {CHR 0x09, CHR 0x0A, CHR 0x0B, CHR 0x0C, CHR 0x0D}"

definition to_lower_char :: "char \<Rightarrow> char" where
  "to_lower_char c = (if CHR ''A'' \<le> c \<and> c \<le> CHR ''Z'' then char_of (of_char c + (32 :: nat)) else c)"

definition to_lower :: "string \<Rightarrow> string" where
  "to_lower s = map to_lower_char s"

definition trim :: "string \<Rightarrow> string" where
  "trim s = rev (dropWhile is_space (rev (dropWhile is_space s)))"

definition find_char :: "char \<Rightarrow> string \<Rightarrow> nat option" where
  "find_char c s = (if c \<in> set s then Some (length (takeWhile (\<lambda>x. x \<noteq> c) s)) else None)"

text \<open>\<open>std::to_string\<close> of an integer.\<close>

fun dec_digits :: "nat \<Rightarrow> string" where
  "dec_digits n = (if n < 10 then [char_of (48 + n)] else dec_digits (n div 10) @ [char_of (48 + n mod 10)])"

declare dec_digits.simps [simp del]

definition to_string :: "int \<Rightarrow> string" where
  "to_string n = (if n < 0 then ''-'' @ dec_digits (nat (- n)) else dec_digits (nat n))"

section \<open>Configuration data\<close>

record ConfigEntry =
  ce_key :: string
  ce_value :: string
  ce_line :: nat

record ConfigSection =
  cs_name :: string
  cs_line :: nat
  cs_entries :: "ConfigEntry list"

type_synonym ConfigFile = "ConfigSection list"

definition empty_section :: ConfigSection where
  "empty_section = \<lparr>cs_name = '''', cs_line = 0, cs_entries = []\<rparr>"

definition find_entry :: "ConfigSection \<Rightarrow> string \<Rightarrow> ConfigEntry option" where
  "find_entry sec key = List.find (\<lambda>e. ce_key e = key) (rev (cs_entries sec))"

definition get_value :: "ConfigSection \<Rightarrow> string \<Rightarrow> string option" where
  "get_value sec key = map_option ce_value (find_entry sec key)"

definition named :: "ConfigFile \<Rightarrow> string \<Rightarrow> ConfigSection list" where
  "named f name = filter (\<lambda>s. cs_name s = name) f"

definition global :: "ConfigFile \<Rightarrow> ConfigSection" where
  "global f = hd f"

section \<open>Parsing a configuration\<close>

fun strip_comment_from :: "bool \<Rightarrow> string \<Rightarrow> string" where
  "strip_comment_from quoted [] = []"
| "strip_comment_from quoted (c # cs) =
     (let quoted = (if c = CHR 0x22 then \<not> quoted else quoted) in
      if \<not> quoted \<and> (c = CHR ''#'' \<or> c = CHR '';'') then [] else c # strip_comment_from quoted cs)"

definition strip_comment :: "string \<Rightarrow> string" where
  "strip_comment line = strip_comment_from False line"

definition unquote :: "string \<Rightarrow> string" where
  "unquote v = (if 2 \<le> length v \<and> hd v = CHR 0x22 \<and> last v = CHR 0x22 then take (length v - 2) (drop 1 v) else v)"

text \<open>\<open>std::getline\<close>: the lines of a text; nothing follows the last newline of it.\<close>

fun text_lines :: "string \<Rightarrow> string \<Rightarrow> string list" where
  "text_lines line [] = (if line = [] then [] else [line])"
| "text_lines line (c # cs) = (if c = CHR 0x0A then line # text_lines [] cs else text_lines (line @ [c]) cs)"

definition line_error :: "nat \<Rightarrow> string \<Rightarrow> string" where
  "line_error n what = ''line '' @ to_string (int n) @ '': '' @ what"

definition add_entry :: "ConfigEntry \<Rightarrow> ConfigSection \<Rightarrow> ConfigSection" where
  "add_entry e s = s\<lparr>cs_entries := cs_entries s @ [e]\<rparr>"

definition parse_line :: "nat \<Rightarrow> string \<Rightarrow> ConfigFile \<Rightarrow> string + ConfigFile" where
  "parse_line lineno line out =
     (let s = trim (strip_comment line) in
      if s = [] then Inr out
      else if hd s = CHR ''['' then
        if last s \<noteq> CHR '']'' then Inl (line_error lineno ''unterminated section header'')
        else let name = trim (take (length s - 2) (drop 1 s)) in
        if name = [] then Inl (line_error lineno ''empty section name'')
        else Inr (out @ [\<lparr>cs_name = name, cs_line = lineno, cs_entries = []\<rparr>])
      else
        (case find_char (CHR ''='') s of
           None \<Rightarrow> Inl (line_error lineno ''expected key = value'')
         | Some eq \<Rightarrow>
             let key = trim (take eq s); val = unquote (trim (drop (eq + 1) s)) in
             if key = [] then Inl (line_error lineno ''empty key'')
             else Inr (butlast out @ [add_entry \<lparr>ce_key = key, ce_value = val, ce_line = lineno\<rparr> (last out)])))"

fun parse_lines :: "nat \<Rightarrow> string list \<Rightarrow> ConfigFile \<Rightarrow> string + ConfigFile" where
  "parse_lines lineno [] out = Inr out"
| "parse_lines lineno (line # ls) out =
     (case parse_line (lineno + 1) line out of Inl e \<Rightarrow> Inl e | Inr out' \<Rightarrow> parse_lines (lineno + 1) ls out')"

definition parse_config_text :: "string \<Rightarrow> string + ConfigFile" where
  "parse_config_text txt = parse_lines 0 (text_lines [] txt) [empty_section]"

text \<open>The file system is the parameter \<open>read_file\<close>.\<close>

definition load_config_file :: "(string \<Rightarrow> string option) \<Rightarrow> string \<Rightarrow> string + ConfigFile" where
  "load_config_file read_file path =
     (case read_file path of
        None \<Rightarrow> Inl (''cannot open config file '' @ [CHR 0x27] @ path @ [CHR 0x27])
      | Some txt \<Rightarrow>
          (case parse_config_text txt of Inl e \<Rightarrow> Inl (path @ '': '' @ e) | Inr f \<Rightarrow> Inr f))"

section \<open>Overrides\<close>

definition quoted_in :: "string \<Rightarrow> string \<Rightarrow> string \<Rightarrow> string" where
  "quoted_in a s b = a @ [CHR 0x27] @ s @ [CHR 0x27] @ b"

text \<open>The last section of a name: the loop over \<open>rbegin()\<close> to \<open>rend()\<close>.\<close>

fun last_named :: "string \<Rightarrow> ConfigFile \<Rightarrow> nat option" where
  "last_named sec [] = None"
| "last_named sec (s # f) =
     (case last_named sec f of Some i \<Rightarrow> Some (Suc i) | None \<Rightarrow> if cs_name s = sec then Some 0 else None)"

definition apply_override :: "ConfigFile \<Rightarrow> string \<Rightarrow> string + ConfigFile" where
  "apply_override cfg assignment =
     (case find_char (CHR ''='') assignment of
        None \<Rightarrow> Inl (quoted_in ''override '' assignment '' must be key=value'')
      | Some eq \<Rightarrow>
          let key = trim (take eq assignment); val = unquote (trim (drop (eq + 1) assignment)) in
          if key = [] then Inl (quoted_in ''override '' assignment '' has an empty key'')
          else
            let cfg = (if cfg = [] then [empty_section] else cfg) in
            (case find_char (CHR ''.'') key of
               None \<Rightarrow> Inr (cfg[0 := add_entry \<lparr>ce_key = key, ce_value = val, ce_line = 0\<rparr> (cfg ! 0)])
             | Some dot \<Rightarrow>
                 let sec = take dot key; key = drop (dot + 1) key in
                 (case last_named sec cfg of
                    None \<Rightarrow> Inl (quoted_in ''override refers to section '' sec '' which does not exist'')
                  | Some i \<Rightarrow> Inr (cfg[i := add_entry \<lparr>ce_key = key, ce_value = val, ce_line = 0\<rparr> (cfg ! i)]))))"

section \<open>Values\<close>

definition parse_bool :: "string \<Rightarrow> string + bool" where
  "parse_bool s =
     (let v = to_lower (trim s) in
      if v = ''1'' \<or> v = ''true'' \<or> v = ''yes'' \<or> v = ''on'' then Inr True
      else if v = ''0'' \<or> v = ''false'' \<or> v = ''no'' \<or> v = ''off'' then Inr False
      else Inl (quoted_in '''' s '' is not a boolean (use true/false)''))"

text \<open>
  \<open>strtoll\<close> and \<open>strtoull\<close> with base 0 on a NUL-terminated string: white space, a sign, a
  prefix that selects the base, the longest run of digits. \<open>scan_integer\<close> gives the sign, the
  magnitude and the rest; \<open>None\<close> when there is no number (\<open>end == v\<close>).
\<close>

definition c_str :: "string \<Rightarrow> string" where
  "c_str s = takeWhile (\<lambda>c. c \<noteq> CHR 0x00) s"

definition digit_value :: "char \<Rightarrow> nat option" where
  "digit_value c =
     (if CHR ''0'' \<le> c \<and> c \<le> CHR ''9'' then Some (of_char c - 48)
      else if CHR ''a'' \<le> c \<and> c \<le> CHR ''z'' then Some (of_char c - 97 + 10)
      else if CHR ''A'' \<le> c \<and> c \<le> CHR ''Z'' then Some (of_char c - 65 + 10)
      else None)"

definition is_digit :: "nat \<Rightarrow> char \<Rightarrow> bool" where
  "is_digit base c = (case digit_value c of None \<Rightarrow> False | Some d \<Rightarrow> d < base)"

definition digits_value :: "nat \<Rightarrow> string \<Rightarrow> nat" where
  "digits_value base ds = foldl (\<lambda>v c. v * base + the (digit_value c)) 0 ds"

definition scan_magnitude :: "string \<Rightarrow> (nat \<times> string) option" where
  "scan_magnitude s =
     (let (base, body) =
        (if 3 \<le> length s \<and> s ! 0 = CHR ''0'' \<and> (s ! 1 = CHR ''x'' \<or> s ! 1 = CHR ''X'') \<and> is_digit 16 (s ! 2)
         then (16, drop 2 s) else if s \<noteq> [] \<and> hd s = CHR ''0'' then (8, s) else (10, s));
          ds = takeWhile (is_digit base) body
      in if ds = [] then None else Some (digits_value base ds, dropWhile (is_digit base) body))"

definition scan_integer :: "string \<Rightarrow> (bool \<times> nat \<times> string) option" where
  "scan_integer s =
     (let s = dropWhile is_space s;
          neg = (s \<noteq> [] \<and> hd s = CHR ''-'');
          s = (if s \<noteq> [] \<and> (hd s = CHR ''-'' \<or> hd s = CHR ''+'') then tl s else s)
      in map_option (\<lambda>(m, rest). (neg, m, rest)) (scan_magnitude s))"

definition parse_i64 :: "string \<Rightarrow> string + int" where
  "parse_i64 s =
     (let v = trim s in
      if v = [] then Inl ''empty integer''
      else (case scan_integer (c_str v) of
              None \<Rightarrow> Inl (quoted_in '''' s '' is not an integer'')
            | Some (neg, m, rest) \<Rightarrow>
                let r = (if neg then - int m else int m) in
                if r < - (2 ^ 63) \<or> 2 ^ 63 \<le> r \<or> rest \<noteq> [] then Inl (quoted_in '''' s '' is not an integer'')
                else Inr r))"

definition parse_u64 :: "string \<Rightarrow> string + u64" where
  "parse_u64 s =
     (let v = trim s in
      if v = [] \<or> hd v = CHR ''-'' then Inl (quoted_in '''' s '' is not an unsigned integer'')
      else (case scan_integer (c_str v) of
              None \<Rightarrow> Inl (quoted_in '''' s '' is not an unsigned integer'')
            | Some (neg, m, rest) \<Rightarrow>
                if 2 ^ 64 \<le> m \<or> rest \<noteq> [] then Inl (quoted_in '''' s '' is not an unsigned integer'')
                else Inr (if neg then - of_nat m else of_nat m)))"

definition parse_u32 :: "string \<Rightarrow> string + u32" where
  "parse_u32 s =
     (case parse_u64 s of
        Inl e \<Rightarrow> Inl e
      | Inr v \<Rightarrow> if v > 0xFFFFFFFF then Inl (quoted_in '''' s '' exceeds 32 bits'') else Inr (ucast v))"

definition parse_u16 :: "string \<Rightarrow> string + u16" where
  "parse_u16 s =
     (case parse_u64 s of
        Inl e \<Rightarrow> Inl e
      | Inr v \<Rightarrow> if v > 0xFFFF then Inl (quoted_in '''' s '' exceeds 16 bits'') else Inr (ucast v))"

text \<open>\<open>pton\<close> stands for \<open>inet_pton(AF_INET, ...)\<close> followed by \<open>ntohl\<close>.\<close>

definition parse_ipv4 :: "(string \<Rightarrow> u32 option) \<Rightarrow> string \<Rightarrow> string + u32" where
  "parse_ipv4 pton s =
     (case pton (c_str (trim s)) of None \<Rightarrow> Inl (quoted_in '''' s '' is not an IPv4 address'') | Some a \<Rightarrow> Inr a)"

definition is_multicast_ipv4 :: "u32 \<Rightarrow> bool" where
  "is_multicast_ipv4 a \<longleftrightarrow> a AND 0xF0000000 = 0xE0000000"

datatype LogLevel = LogError | LogWarn | LogInfo | LogDebug

definition parse_log_level :: "string \<Rightarrow> LogLevel option" where
  "parse_log_level txt =
     (let t = to_lower txt in
      if t = ''error'' then Some LogError
      else if t = ''warn'' \<or> t = ''warning'' then Some LogWarn
      else if t = ''info'' then Some LogInfo
      else if t = ''debug'' then Some LogDebug
      else None)"

text \<open>
  \<open>ifs\<close> stands for \<open>getifaddrs\<close>: the error text, or the list of interfaces with their name and,
  when the address is IPv4, the address.
\<close>

fun find_interface :: "string \<Rightarrow> (string \<times> u32 option) list \<Rightarrow> bool \<Rightarrow> bool \<times> u32 option" where
  "find_interface s [] name_seen = (name_seen, None)"
| "find_interface s ((name, addr) # ifs) name_seen =
     (if s \<noteq> name then find_interface s ifs name_seen
      else (case addr of None \<Rightarrow> find_interface s ifs True | Some a \<Rightarrow> (True, Some a)))"

definition resolve_interface_ipv4 ::
  "(string \<Rightarrow> u32 option) \<Rightarrow> (string + (string \<times> u32 option) list) \<Rightarrow> string \<Rightarrow> string + u32"
where
  "resolve_interface_ipv4 pton ifs spec =
     (let s = trim spec in
      if s = [] \<or> s = ''any'' \<or> s = ''0.0.0.0'' \<or> s = ''default'' then Inr 0
      else (case parse_ipv4 pton s of
              Inr a \<Rightarrow> Inr a
            | Inl _ \<Rightarrow>
                (case ifs of
                   Inl e \<Rightarrow> Inl (''getifaddrs failed: '' @ e)
                 | Inr l \<Rightarrow>
                     (case find_interface s l False of
                        (_, Some a) \<Rightarrow> Inr a
                      | (name_seen, None) \<Rightarrow>
                          Inl (if name_seen then quoted_in ''interface '' s '' has no IPv4 address''
                               else quoted_in '''' s '' is neither an IPv4 address nor a known interface name'')))))"

section \<open>Lemmas on strings\<close>

lemma is_space_simps [simp]:
  "is_space (CHR '' '')" "\<not> is_space (CHR 0x22)" "\<not> is_space (CHR ''['')" "\<not> is_space (CHR '']'')"
  "\<not> is_space (CHR ''='')" "\<not> is_space (CHR ''-'')"
  by (simp_all add: is_space_def)

lemma trim_id: "s = [] \<or> \<not> is_space (hd s) \<and> \<not> is_space (last s) \<Longrightarrow> trim s = s"
proof -
  assume *: "s = [] \<or> \<not> is_space (hd s) \<and> \<not> is_space (last s)"
  have "dropWhile is_space s = s" using * by (auto simp: dropWhile_eq_self_iff)
  moreover have "dropWhile is_space (rev s) = rev s" using * by (auto simp: dropWhile_eq_self_iff hd_rev)
  ultimately show ?thesis by (simp add: trim_def)
qed

lemma trim_ends:
  assumes "trim s = s" "s \<noteq> []"
  shows "\<not> is_space (hd s)" "\<not> is_space (last s)"
proof -
  have "s = [] \<or> \<not> is_space (last s)"
    using assms(1) hd_dropWhile [of is_space "rev (dropWhile is_space s)"] unfolding trim_def
    by (metis last_rev hd_rev dropWhile_eq_Nil_conv list.set_sel(1) rev.simps(1))
  with assms(2) show "\<not> is_space (last s)" by simp
  have "length (dropWhile is_space (rev (dropWhile is_space s))) \<le> length (dropWhile is_space s)"
    by (metis length_dropWhile_le length_rev)
  moreover have "length (trim s) = length s" using assms(1) by simp
  ultimately have "length s \<le> length (dropWhile is_space s)" by (simp add: trim_def)
  then have "dropWhile is_space s = s"
    by (metis append_Nil le_antisym length_0_conv length_append length_dropWhile_le add_cancel_left_left takeWhile_dropWhile_id)
  with assms(2) show "\<not> is_space (hd s)" by (simp add: dropWhile_eq_self_iff)
qed

lemma trim_append_space:
  assumes "trim s = s" "s \<noteq> []"
  shows "trim (s @ '' '') = s"
proof -
  have "dropWhile is_space (s @ '' '') = s @ '' ''"
    using trim_ends [OF assms] assms(2) by (simp add: dropWhile_eq_self_iff)
  moreover have "dropWhile is_space (rev s) = rev s"
    using trim_ends [OF assms] by (simp add: dropWhile_eq_self_iff hd_rev)
  ultimately show ?thesis by (simp add: trim_def)
qed

lemma trim_space_Cons: "trim (CHR '' '' # s) = trim s"
  by (simp add: trim_def)

lemma find_char_append: "c \<notin> set xs \<Longrightarrow> find_char c (xs @ c # ys) = Some (length xs)"
  by (simp add: find_char_def takeWhile_append2) (simp add: takeWhile_append takeWhile_eq_all_conv)

section \<open>Rendering and parsing back\<close>

text \<open>A configuration as text: every value in double quotes, one assignment or header per line.\<close>

definition render_entry :: "ConfigEntry \<Rightarrow> string" where
  "render_entry e = ce_key e @ '' = '' @ [CHR 0x22] @ ce_value e @ [CHR 0x22]"

definition render_header :: "ConfigSection \<Rightarrow> string" where
  "render_header s = ''['' @ cs_name s @ '']''"

definition render_lines :: "ConfigFile \<Rightarrow> string list" where
  "render_lines f =
     map render_entry (cs_entries (hd f)) @
     concat (map (\<lambda>s. render_header s # map render_entry (cs_entries s)) (tl f))"

definition render_config :: "ConfigFile \<Rightarrow> string" where
  "render_config f = concat (map (\<lambda>l. l @ [CHR 0x0A]) (render_lines f))"

definition plain :: "string \<Rightarrow> bool" where
  "plain s \<longleftrightarrow> s \<noteq> [] \<and> trim s = s \<and> (\<forall>c\<in>set s. c \<notin> {CHR ''#'', CHR '';'', CHR 0x22, CHR 0x0A})"

definition entry_plain :: "ConfigEntry \<Rightarrow> bool" where
  "entry_plain e \<longleftrightarrow> plain (ce_key e) \<and> CHR ''='' \<notin> set (ce_key e) \<and> hd (ce_key e) \<noteq> CHR ''['' \<and>
     CHR 0x22 \<notin> set (ce_value e) \<and> CHR 0x0A \<notin> set (ce_value e)"

definition config_plain :: "ConfigFile \<Rightarrow> bool" where
  "config_plain f \<longleftrightarrow> f \<noteq> [] \<and> cs_name (hd f) = [] \<and> (\<forall>s\<in>set (tl f). plain (cs_name s)) \<and>
     (\<forall>s\<in>set f. \<forall>e\<in>set (cs_entries s). entry_plain e)"

text \<open>What a configuration says, without the line numbers.\<close>

definition entry_content :: "ConfigEntry \<Rightarrow> string \<times> string" where
  "entry_content e = (ce_key e, ce_value e)"

definition section_content :: "ConfigSection \<Rightarrow> string \<times> (string \<times> string) list" where
  "section_content s = (cs_name s, map entry_content (cs_entries s))"

lemma strip_comment_plain:
  "\<forall>c\<in>set xs. c \<notin> {CHR ''#'', CHR '';'', CHR 0x22} \<Longrightarrow>
     strip_comment_from False (xs @ ys) = xs @ strip_comment_from False ys"
  by (induction xs) (auto simp: Let_def)

lemma strip_comment_quoted:
  "CHR 0x22 \<notin> set xs \<Longrightarrow> strip_comment_from True (xs @ ys) = xs @ strip_comment_from True ys"
  by (induction xs) (auto simp: Let_def)

lemma parse_line_entry:
  assumes "entry_plain e"
  shows "parse_line n (render_entry e) out =
    Inr (butlast out @ [add_entry \<lparr>ce_key = ce_key e, ce_value = ce_value e, ce_line = n\<rparr> (last out)])"
proof -
  let ?k = "ce_key e" and ?v = "CHR 0x22 # ce_value e @ [CHR 0x22]"
  have k: "?k \<noteq> []" "trim ?k = ?k" "hd ?k \<noteq> CHR ''[''" "CHR ''='' \<notin> set ?k"
    "\<forall>c\<in>set ?k. c \<notin> {CHR ''#'', CHR '';'', CHR 0x22}"
    and v: "CHR 0x22 \<notin> set (ce_value e)"
    using assms by (auto simp: entry_plain_def plain_def)
  have strip: "strip_comment (render_entry e) = render_entry e"
    using k(5) v by (simp add: strip_comment_def render_entry_def strip_comment_plain strip_comment_quoted)
  have trim: "trim (render_entry e) = render_entry e"
    using trim_ends(1) [OF k(2,1)] k(1) by (intro trim_id) (simp add: render_entry_def)
  have hd: "hd (render_entry e) = hd ?k" using k(1) by (simp add: render_entry_def)
  have eq: "find_char (CHR ''='') (render_entry e) = Some (length ?k + 1)"
    using find_char_append [of "CHR ''=''" "?k @ '' ''" "CHR '' '' # ?v"] k(4) by (simp add: render_entry_def)
  have key: "trim (take (length ?k + 1) (render_entry e)) = ?k"
    using trim_append_space [OF k(2,1)] by (simp add: render_entry_def)
  have "trim (drop (length ?k + 1 + 1) (render_entry e)) = ?v"
    by (simp add: render_entry_def trim_space_Cons) (rule trim_id, simp)
  then have val: "unquote (trim (drop (length ?k + 1 + 1) (render_entry e))) = ce_value e"
    by (simp add: unquote_def)
  have "render_entry e \<noteq> []" by (simp add: render_entry_def)
  then show ?thesis
    unfolding parse_line_def Let_def strip trim hd eq option.case key val using k(1,3) by simp
qed

lemma parse_line_header:
  assumes "plain (cs_name s)"
  shows "parse_line n (render_header s) out = Inr (out @ [\<lparr>cs_name = cs_name s, cs_line = n, cs_entries = []\<rparr>])"
proof -
  have n: "cs_name s \<noteq> []" "trim (cs_name s) = cs_name s" "\<forall>c\<in>set (cs_name s). c \<notin> {CHR ''#'', CHR '';'', CHR 0x22}"
    using assms by (auto simp: plain_def)
  have "strip_comment (render_header s) = render_header s"
    using n(3) by (simp add: strip_comment_def render_header_def strip_comment_plain)
  moreover have "trim (render_header s) = render_header s"
    by (rule trim_id) (simp add: render_header_def)
  ultimately show ?thesis
    using n by (simp add: parse_line_def Let_def render_header_def)
qed

lemma parse_entry_lines:
  "out \<noteq> [] \<Longrightarrow> \<forall>e\<in>set es. entry_plain e \<Longrightarrow>
   \<exists>s. parse_lines n (map render_entry es @ rest) out = parse_lines (n + length es) rest (butlast out @ [s]) \<and>
     section_content s = (cs_name (last out), map entry_content (cs_entries (last out) @ es))"
proof (induction es arbitrary: n out)
  case Nil
  then show ?case by (intro exI [of _ "last out"]) (simp add: section_content_def)
next
  case (Cons e es)
  let ?s = "add_entry \<lparr>ce_key = ce_key e, ce_value = ce_value e, ce_line = Suc n\<rparr> (last out)"
  obtain s where s: "parse_lines (Suc n) (map render_entry es @ rest) (butlast out @ [?s]) =
      parse_lines (Suc n + length es) rest (butlast out @ [s])"
    "section_content s = (cs_name ?s, map entry_content (cs_entries ?s @ es))"
    using Cons.IH [of "butlast out @ [?s]" "Suc n"] Cons.prems(2) by auto
  with Cons.prems show ?case
    by (intro exI [of _ s]) (simp add: parse_line_entry add_entry_def entry_content_def)
qed

lemma parse_section_lines:
  "\<forall>s\<in>set f. plain (cs_name s) \<and> (\<forall>e\<in>set (cs_entries s). entry_plain e) \<Longrightarrow> out \<noteq> [] \<Longrightarrow>
   \<exists>g. parse_lines n (concat (map (\<lambda>s. render_header s # map render_entry (cs_entries s)) f)) out = Inr g \<and>
     map section_content g = map section_content out @ map section_content f"
proof (induction f arbitrary: n out)
  case (Cons s f)
  let ?rest = "concat (map (\<lambda>s. render_header s # map render_entry (cs_entries s)) f)"
  let ?out = "out @ [\<lparr>cs_name = cs_name s, cs_line = Suc n, cs_entries = []\<rparr>]"
  obtain s' where s': "parse_lines (Suc n) (map render_entry (cs_entries s) @ ?rest) ?out =
      parse_lines (Suc n + length (cs_entries s)) ?rest (out @ [s'])" "section_content s' = section_content s"
    using parse_entry_lines [of ?out "cs_entries s" "Suc n" ?rest] Cons.prems(1) by (auto simp: section_content_def)
  obtain g where "parse_lines (Suc n + length (cs_entries s)) ?rest (out @ [s']) = Inr g"
      "map section_content g = map section_content (out @ [s']) @ map section_content f"
    using Cons.IH [of "out @ [s']" "Suc n + length (cs_entries s)"] Cons.prems(1) by auto
  with s' Cons.prems(1) show ?case by (simp add: parse_line_header)
qed simp

lemma text_lines_render:
  "\<forall>l\<in>set ls. CHR 0x0A \<notin> set l \<Longrightarrow> text_lines [] (concat (map (\<lambda>l. l @ [CHR 0x0A]) ls)) = ls"
proof (induction ls)
  case (Cons l ls)
  have "CHR 0x0A \<notin> set xs \<Longrightarrow> text_lines acc (xs @ CHR 0x0A # ys) = (acc @ xs) # text_lines [] ys" for acc xs ys
    by (induction xs arbitrary: acc) auto
  from this [of l "[]"] Cons show ?case by simp
qed simp

lemma render_lines_no_newline:
  assumes "config_plain f"
  shows "\<forall>l\<in>set (render_lines f). CHR 0x0A \<notin> set l"
proof -
  have "CHR 0x0A \<notin> set (render_entry e)" if "entry_plain e" for e
    using that by (auto simp: entry_plain_def plain_def render_entry_def)
  moreover have "CHR 0x0A \<notin> set (render_header s)" if "plain (cs_name s)" for s
    using that by (auto simp: plain_def render_header_def)
  moreover have "\<forall>s\<in>set (tl f). plain (cs_name s) \<and> (\<forall>e\<in>set (cs_entries s). entry_plain e)"
    "\<forall>e\<in>set (cs_entries (hd f)). entry_plain e"
    using assms by (auto simp: config_plain_def list.set_sel(2))
  ultimately show ?thesis
    unfolding render_lines_def by auto
qed

section \<open>Decimal numbers\<close>

lemma is_digit_dec: "d < 10 \<Longrightarrow> is_digit 10 (char_of (48 + d)) \<and> the (digit_value (char_of (48 + d))) = d"
  by (simp add: is_digit_def digit_value_def less_eq_char_def)

lemma dec_digits_digits: "\<forall>c\<in>set (dec_digits n). is_digit 10 c"
proof (induction n rule: dec_digits.induct)
  case (1 n)
  then show ?case
    by (subst dec_digits.simps) (use is_digit_dec [of n] is_digit_dec [of "n mod 10"] in \<open>auto split: if_splits\<close>)
qed

lemma digits_value_snoc: "digits_value b (ds @ [c]) = digits_value b ds * b + the (digit_value c)"
  by (simp add: digits_value_def)

lemma digits_value_dec: "digits_value 10 (dec_digits n) = n"
proof (induction n rule: dec_digits.induct)
  case (1 n)
  show ?case
  proof (cases "n < 10")
    case True
    then show ?thesis by (subst dec_digits.simps) (simp add: digits_value_def is_digit_dec)
  next
    case False
    with 1 show ?thesis by (subst dec_digits.simps) (simp add: digits_value_snoc is_digit_dec)
  qed
qed

lemma dec_digits_hd: "dec_digits n \<noteq> [] \<and> (hd (dec_digits n) = CHR ''0'' \<longrightarrow> n = 0)"
proof (induction n rule: dec_digits.induct)
  case (1 n)
  show ?case
  proof (cases "n < 10")
    case True
    then have "(of_char (char_of (48 + n) :: char) :: nat) = of_char CHR ''0'' \<Longrightarrow> n = 0" by simp
    then have "char_of (48 + n) = CHR ''0'' \<Longrightarrow> n = 0" by metis
    with True show ?thesis by (subst (1 2) dec_digits.simps) simp
  next
    case False
    with 1 show ?thesis by (subst (1 2) dec_digits.simps) auto
  qed
qed

lemma is_digit_not: "is_digit b c \<Longrightarrow> \<not> is_space c \<and> c \<noteq> CHR ''-'' \<and> c \<noteq> CHR ''+'' \<and> c \<noteq> CHR 0x00"
  by (auto simp: is_digit_def digit_value_def is_space_def less_eq_char_def split: if_splits)

lemma scan_magnitude_dec: "scan_magnitude (dec_digits n) = Some (n, [])"
proof -
  have all: "takeWhile (is_digit 10) (dec_digits n) = dec_digits n" "dropWhile (is_digit 10) (dec_digits n) = []"
    using dec_digits_digits [of n] by (simp_all add: takeWhile_eq_all_conv dropWhile_eq_Nil_conv)
  show ?thesis
  proof (cases "n = 0")
    case True
    have "dec_digits 0 = ''0''" by (subst dec_digits.simps) (simp add: char_of_def bit_0)
    with True show ?thesis by (simp add: scan_magnitude_def is_digit_def digit_value_def digits_value_def less_eq_char_def)
  next
    case False
    then have "hd (dec_digits n) \<noteq> CHR ''0''" "dec_digits n \<noteq> []" using dec_digits_hd [of n] by auto
    then show ?thesis
      by (simp add: scan_magnitude_def Let_def hd_conv_nth digits_value_dec all)
  qed
qed

lemma dec_digits_clean:
  "trim (dec_digits n) = dec_digits n" "c_str (dec_digits n) = dec_digits n" "hd (dec_digits n) \<noteq> CHR ''-''"
  "\<not> is_space (hd (dec_digits n))" "hd (dec_digits n) \<noteq> CHR ''+''" "dec_digits n \<noteq> []"
proof -
  have d: "is_digit 10 c" if "c \<in> set (dec_digits n)" for c using dec_digits_digits that by blast
  show ne: "dec_digits n \<noteq> []" using dec_digits_hd by blast
  then have hl: "is_digit 10 (hd (dec_digits n))" "is_digit 10 (last (dec_digits n))" by (simp_all add: d)
  then show "hd (dec_digits n) \<noteq> CHR ''-''" "\<not> is_space (hd (dec_digits n))" "hd (dec_digits n) \<noteq> CHR ''+''"
    using is_digit_not by blast+
  show "trim (dec_digits n) = dec_digits n" using hl is_digit_not by (intro trim_id) blast
  show "c_str (dec_digits n) = dec_digits n" unfolding c_str_def takeWhile_eq_all_conv using d is_digit_not by blast
qed

lemma scan_integer_dec:
  "scan_integer (dec_digits n) = Some (False, n, [])" "scan_integer (CHR ''-'' # dec_digits n) = Some (True, n, [])"
  using dec_digits_clean [of n]
  by (simp_all add: scan_integer_def scan_magnitude_dec dropWhile_eq_self_iff [THEN iffD2])

lemma parse_u64_dec:
  "parse_u64 (dec_digits n) =
     (if n < 2 ^ 64 then Inr (of_nat n) else Inl (quoted_in '''' (dec_digits n) '' is not an unsigned integer''))"
  by (simp add: parse_u64_def dec_digits_clean scan_integer_dec)

section \<open>Properties of the configuration parser\<close>

text \<open>C20: Round trip. The text of a configuration, written with quoted values, parses without error to the same
  sections and entries in the same order, repeated sections and keys included.\<close>

theorem parse_render_config:
  assumes "config_plain f"
  shows "\<exists>g. parse_config_text (render_config f) = Inr g \<and> map section_content g = map section_content f"
proof -
  obtain s ss where f: "f = s # ss" using assms by (cases f) (auto simp: config_plain_def)
  have f_ok: "cs_name s = []" "\<forall>e\<in>set (cs_entries s). entry_plain e"
    "\<forall>s\<in>set ss. plain (cs_name s) \<and> (\<forall>e\<in>set (cs_entries s). entry_plain e)"
    using assms by (auto simp: config_plain_def f)
  let ?rest = "concat (map (\<lambda>s. render_header s # map render_entry (cs_entries s)) ss)"
  obtain s' where s': "parse_lines 0 (map render_entry (cs_entries s) @ ?rest) [empty_section] =
      parse_lines (length (cs_entries s)) ?rest [s']" "section_content s' = section_content s"
    using parse_entry_lines [of "[empty_section]" "cs_entries s" 0 ?rest] f_ok
    by (auto simp: section_content_def empty_section_def)
  moreover obtain g where "parse_lines (length (cs_entries s)) ?rest [s'] = Inr g"
      "map section_content g = map section_content [s'] @ map section_content ss"
    using parse_section_lines [OF f_ok(3), of "[s']" "length (cs_entries s)"] by auto
  moreover have "text_lines [] (render_config f) = map render_entry (cs_entries s) @ ?rest"
    using text_lines_render [OF render_lines_no_newline [OF assms]] by (simp add: render_config_def render_lines_def f)
  ultimately show ?thesis by (simp add: parse_config_text_def f)
qed

text \<open>C21: Unsigned values are read exactly and bounded by their type: the decimal text of \<open>n\<close> is
  accepted by the 64, 32 and 16 bit parsers if and only if \<open>n\<close> fits, and then gives \<open>n\<close>.\<close>

theorem parse_unsigned_decimal:
  "(case parse_u64 (dec_digits n) of Inl _ \<Rightarrow> 2 ^ 64 \<le> n | Inr v \<Rightarrow> unat v = n) \<and>
   (case parse_u32 (dec_digits n) of Inl _ \<Rightarrow> 2 ^ 32 \<le> n | Inr v \<Rightarrow> unat v = n) \<and>
   (case parse_u16 (dec_digits n) of Inl _ \<Rightarrow> 2 ^ 16 \<le> n | Inr v \<Rightarrow> unat v = n)"
  by (simp add: parse_u32_def parse_u16_def parse_u64_dec word_less_nat_alt unat_of_nat unsigned_ucast_eq take_bit_eq_mod)

text \<open>Signed values round trip: the decimal text of every 64 bit integer, with its sign, is parsed
  to that integer, and no other decimal text is accepted.\<close>

theorem parse_i64_to_string:
  "(case parse_i64 (to_string i) of Inl _ \<Rightarrow> i < - (2 ^ 63) \<or> 2 ^ 63 \<le> i | Inr v \<Rightarrow> v = i \<and> - (2 ^ 63) \<le> i \<and> i < 2 ^ 63)"
proof (cases "i < 0")
  case True
  let ?d = "dec_digits (nat (- i))"
  have "trim (CHR ''-'' # ?d) = CHR ''-'' # ?d"
    using dec_digits_clean [of "nat (- i)"] trim_ends(2) [of ?d] by (intro trim_id) simp
  moreover have "c_str (CHR ''-'' # ?d) = CHR ''-'' # ?d"
    using dec_digits_clean(2) [of "nat (- i)"] by (simp add: c_str_def)
  ultimately show ?thesis
    using True by (simp add: to_string_def parse_i64_def Let_def scan_integer_dec) arith
next
  case False
  then show ?thesis
    by (simp add: to_string_def parse_i64_def Let_def dec_digits_clean scan_integer_dec) arith
qed

lemma last_named_Some:
  "last_named sec f = Some i \<Longrightarrow>
     i < length f \<and> cs_name (f ! i) = sec \<and> (\<forall>j. i < j \<longrightarrow> j < length f \<longrightarrow> cs_name (f ! j) \<noteq> sec)"
proof (induction f arbitrary: i)
  case (Cons s f)
  have none: "last_named sec f = None \<Longrightarrow> j < length f \<Longrightarrow> cs_name (f ! j) \<noteq> sec" for j
    by (induction f arbitrary: j) (auto split: option.splits if_splits simp: nth_Cons split: nat.splits)
  show ?case
  proof (cases "last_named sec f")
    case None
    with Cons.prems none show ?thesis by (auto split: if_splits simp: nth_Cons split: nat.splits)
  next
    case (Some k)
    with Cons show ?thesis by (auto simp: nth_Cons split: nat.splits)
  qed
qed simp

lemma find_entry_add:
  "find_entry (add_entry e s) k = (if k = ce_key e then Some e else find_entry s k)"
  by (auto simp: find_entry_def add_entry_def)

text \<open>Command-line overrides win. \<open>section.key=value\<close> changes the last section of that name and no
  other, makes a lookup of the key there give the new value, whatever the file assigned to
  it, and leaves every other key as it was.\<close>

theorem override_takes_precedence:
  assumes "last_named sec cfg = Some i" "CHR ''.'' \<notin> set sec" "CHR ''='' \<notin> set (sec @ key)"
    "trim (sec @ CHR ''.'' # key) = sec @ CHR ''.'' # key" "trim val = val" "unquote val = val"
  shows "\<exists>g. apply_override cfg (sec @ CHR ''.'' # key @ CHR ''='' # val) = Inr g \<and>
    cs_name (g ! i) = sec \<and> (\<forall>j. i < j \<longrightarrow> j < length g \<longrightarrow> cs_name (g ! j) \<noteq> sec) \<and>
    get_value (g ! i) key = Some val \<and> (\<forall>k. k \<noteq> key \<longrightarrow> find_entry (g ! i) k = find_entry (cfg ! i) k) \<and>
    length g = length cfg \<and> (\<forall>j. j \<noteq> i \<longrightarrow> g ! j = cfg ! j)"
proof -
  let ?k = "sec @ CHR ''.'' # key"
  let ?g = "cfg[i := add_entry \<lparr>ce_key = key, ce_value = val, ce_line = 0\<rparr> (cfg ! i)]"
  have eq: "find_char (CHR ''='') (?k @ CHR ''='' # val) = Some (length ?k)"
    using assms(3) by (intro find_char_append) simp
  have dot: "find_char (CHR ''.'') ?k = Some (length sec)"
    using assms(2) by (rule find_char_append)
  note i = last_named_Some [OF assms(1)]
  have "apply_override cfg (?k @ CHR ''='' # val) = Inr ?g"
    unfolding apply_override_def eq using i assms(1,4-6) dot by (auto simp: Let_def)
  then show ?thesis
    using i by (intro exI [of _ ?g]) (auto simp: get_value_def find_entry_add, simp add: add_entry_def)
qed

section \<open>Concrete runs\<close>

definition sample_file :: ConfigFile where
  "sample_file =
     [\<lparr>cs_name = '''', cs_line = 0, cs_entries = [\<lparr>ce_key = ''multicast_ttl'', ce_value = ''# 3;'', ce_line = 0\<rparr>]\<rparr>,
      \<lparr>cs_name = ''source'', cs_line = 0, cs_entries = [\<lparr>ce_key = ''id'', ce_value = ''7'', ce_line = 0\<rparr>]\<rparr>,
      \<lparr>cs_name = ''source'', cs_line = 0, cs_entries = []\<rparr>]"

theorem parse_render_config_witness:
  "\<exists>g. parse_config_text (render_config sample_file) = Inr g \<and> map section_content g = map section_content sample_file"
proof (rule parse_render_config)
  show "config_plain sample_file"
    by (simp add: sample_file_def config_plain_def plain_def entry_plain_def trim_def is_space_def)
qed

theorem override_takes_precedence_witness:
  "\<exists>g. apply_override sample_file ''source.id=9'' = Inr g \<and> get_value (g ! 2) ''id'' = Some ''9'' \<and> g ! 1 = sample_file ! 1"
  using override_takes_precedence [of "''source''" sample_file 2 "''id''" "''9''"]
  by (auto simp: sample_file_def trim_def is_space_def unquote_def numeral_2_eq_2)

end
