(* ===== verification/Byteorder.thy ===== *)
theory Byteorder
  imports Relay_Prelude
begin

text \<open>
  Little-endian serialisation (include/ipcrelay/common/byteorder.hpp). A \<open>put_*\<close> helper
  writes its bytes at a pointer; here it returns the bytes it writes, and the callers place
  them with \<open>store\<close>. A \<open>get_*\<close> helper reads at a pointer \<open>p + off\<close>; here it takes the buffer
  \<open>p\<close> and the offset \<open>off\<close>. The interface \<open>codec\<close> states what the serialisers of the wire
  header, the capture file and the telemetry records rely on.
\<close>

definition put_u8 :: "byte \<Rightarrow> byte list" where
  "put_u8 v = [v]"

definition put_u16le :: "u16 \<Rightarrow> byte list" where
  "put_u16le v = [ucast (v AND 0xFF), ucast (drop_bit 8 v AND 0xFF)]"

definition put_u32le :: "u32 \<Rightarrow> byte list" where
  "put_u32le v =
     [ucast (v AND 0xFF), ucast (drop_bit 8 v AND 0xFF),
      ucast (drop_bit 16 v AND 0xFF), ucast (drop_bit 24 v AND 0xFF)]"

definition put_u64le :: "u64 \<Rightarrow> byte list" where
  "put_u64le v = map (\<lambda>i. ucast (drop_bit (8 * i) v AND 0xFF)) [0..<8]"

definition get_u8 :: "byte list \<Rightarrow> nat \<Rightarrow> byte" where
  "get_u8 p off = p ! off"

definition get_u16le :: "byte list \<Rightarrow> nat \<Rightarrow> u16" where
  "get_u16le p off = ucast (p ! off) OR push_bit 8 (ucast (p ! (off + 1)))"

definition get_u32le :: "byte list \<Rightarrow> nat \<Rightarrow> u32" where
  "get_u32le p off =
     ucast (p ! off) OR push_bit 8 (ucast (p ! (off + 1))) OR
     push_bit 16 (ucast (p ! (off + 2))) OR push_bit 24 (ucast (p ! (off + 3)))"

definition get_u64le :: "byte list \<Rightarrow> nat \<Rightarrow> u64" where
  "get_u64le p off = foldl (\<lambda>v i. push_bit 8 v OR ucast (p ! (off + i))) 0 (rev [0..<8])"

section \<open>The codec interface\<close>

text \<open>
  A fixed-width codec: \<open>width\<close> bytes per value, a read that looks at those bytes only, and
  the two round trips. A client composes headers out of codecs without looking at bits.
\<close>

locale codec =
  fixes enc :: "'v \<Rightarrow> byte list"
    and dec :: "byte list \<Rightarrow> nat \<Rightarrow> 'v"
    and width :: nat
  assumes length_enc: "length (enc v) = width"
    and dec_local: "off + width \<le> length p \<Longrightarrow> dec p off = dec (take width (drop off p)) 0"
    and dec_enc: "dec (enc v) 0 = v"
    and enc_dec: "length p = width \<Longrightarrow> enc (dec p 0) = p"
begin

lemma dec_front: "dec (enc v @ r) 0 = v"
  using dec_local [of 0 "enc v @ r"] by (simp add: length_enc dec_enc)

lemma dec_skip: "length q \<le> off \<Longrightarrow> off - length q + width \<le> length r \<Longrightarrow> dec (q @ r) off = dec r (off - length q)"
  using dec_local [of off "q @ r"] dec_local [of "off - length q" r] by simp

lemma dec_at: "length q = off \<Longrightarrow> dec (q @ enc v @ r) off = v"
  using dec_skip [of q off "enc v @ r"] by (simp add: length_enc dec_front)

lemma dec_store: "off + width \<le> length p \<Longrightarrow> dec (store p off (enc v)) off = v"
  by (simp add: store_def dec_at)

lemma dec_store_other:
  assumes "off + width \<le> off' \<or> off' + length src \<le> off" "off' + length src \<le> length p" "off + width \<le> length p"
  shows "dec (store p off' src) off = dec p off"
proof -
  have "take width (drop off (store p off' src)) = take width (drop off p)"
    by (rule nth_equalityI) (use assms in \<open>auto simp: nth_store\<close>)
  with assms show ?thesis
    by (simp add: dec_local [of off])
qed

lemma enc_dec_at: "off + width \<le> length p \<Longrightarrow> enc (dec p off) = take width (drop off p)"
  by (simp add: dec_local [of off p] enc_dec)

lemma dec_append: "off + width \<le> length p \<Longrightarrow> dec (p @ r) off = dec p off"
  by (simp add: dec_local [of off "p @ r"] dec_local [of off p])

end

section \<open>The helpers are codecs\<close>

lemma list_of_length_2: "length p = 2 \<Longrightarrow> p = [p ! 0, p ! 1]"
  by (auto simp: numeral_eq_Suc length_Suc_conv)

lemma list_of_length_4: "length p = 4 \<Longrightarrow> p = [p ! 0, p ! 1, p ! 2, p ! 3]"
  by (auto simp: numeral_eq_Suc length_Suc_conv)

lemma list_of_length_8:
  "length p = 8 \<Longrightarrow> p = [p ! 0, p ! 1, p ! 2, p ! 3, p ! 4, p ! 5, p ! 6, p ! 7]"
  by (auto simp: numeral_eq_Suc length_Suc_conv)

lemma mask_byte: "(0xFF :: 'a::len word) = mask 8"
  by (simp add: mask_eq_exp_minus_1)

lemma ucast_mask_byte: "(ucast (x AND 0xFF) :: byte) = ucast x" for x :: "'a::len word"
  unfolding mask_byte by (rule bit_word_eqI) (auto simp: bit_simps dest: bit_imp_le_length)

lemma bit_byte_of: "bit (ucast (drop_bit k v AND 0xFF) :: byte) n \<longleftrightarrow> n < 8 \<and> bit v (k + n)"
  for v :: "'a::len word"
  unfolding ucast_mask_byte by (auto simp: bit_simps dest: bit_imp_le_length)

lemma bit_byte_of_0: "bit (ucast (v AND 0xFF) :: byte) n \<longleftrightarrow> n < 8 \<and> bit v n"
  for v :: "'a::len word"
  using bit_byte_of [of 0 v n] by simp

lemma put_u64le_explicit:
  "put_u64le v =
     [ucast (v AND 0xFF), ucast (drop_bit 8 v AND 0xFF), ucast (drop_bit 16 v AND 0xFF),
      ucast (drop_bit 24 v AND 0xFF), ucast (drop_bit 32 v AND 0xFF), ucast (drop_bit 40 v AND 0xFF),
      ucast (drop_bit 48 v AND 0xFF), ucast (drop_bit 56 v AND 0xFF)]"
  by (simp add: put_u64le_def upt_rec)

lemma bit_get_u16le:
  "bit (get_u16le p off) n \<longleftrightarrow>
     (if n < 8 then bit (p ! off) n else n < 16 \<and> bit (p ! (off + 1)) (n - 8))"
  by (auto simp: get_u16le_def bit_simps dest: bit_imp_le_length)

lemma bit_get_u32le:
  "bit (get_u32le p off) n \<longleftrightarrow>
     (if n < 8 then bit (p ! off) n else if n < 16 then bit (p ! (off + 1)) (n - 8)
      else if n < 24 then bit (p ! (off + 2)) (n - 16) else n < 32 \<and> bit (p ! (off + 3)) (n - 24))"
  by (auto simp: get_u32le_def bit_simps dest: bit_imp_le_length)

lemma get_u64le_explicit:
  "get_u64le p off =
     push_bit 56 (ucast (p ! (off + 7))) OR push_bit 48 (ucast (p ! (off + 6))) OR
     push_bit 40 (ucast (p ! (off + 5))) OR push_bit 32 (ucast (p ! (off + 4))) OR
     push_bit 24 (ucast (p ! (off + 3))) OR push_bit 16 (ucast (p ! (off + 2))) OR
     push_bit 8 (ucast (p ! (off + 1))) OR ucast (p ! off)"
proof -
  have "rev [0..<8] = [7, 6, 5, 4, 3, 2, 1, 0 :: nat]"
    by (simp add: upt_rec)
  then show ?thesis
    by (simp only: get_u64le_def foldl.simps) (simp add: ac_simps)
qed

lemma bit_get_u64le:
  "bit (get_u64le p off) n \<longleftrightarrow>
     (if n < 8 then bit (p ! off) n else if n < 16 then bit (p ! (off + 1)) (n - 8)
      else if n < 24 then bit (p ! (off + 2)) (n - 16) else if n < 32 then bit (p ! (off + 3)) (n - 24)
      else if n < 40 then bit (p ! (off + 4)) (n - 32) else if n < 48 then bit (p ! (off + 5)) (n - 40)
      else if n < 56 then bit (p ! (off + 6)) (n - 48) else n < 64 \<and> bit (p ! (off + 7)) (n - 56))"
  by (auto simp: get_u64le_explicit bit_simps dest: bit_imp_le_length)

lemmas put_le_defs = put_u16le_def put_u32le_def put_u64le_explicit
lemmas bit_put_simps = bit_byte_of bit_byte_of_0 bit_drop_bit_eq comp_def
lemmas bit_get_simps = bit_get_u16le bit_get_u32le bit_get_u64le

interpretation u8: codec put_u8 get_u8 1
  by unfold_locales (auto simp: put_u8_def get_u8_def length_Suc_conv)

interpretation u16: codec put_u16le get_u16le 2
proof
  show "put_u16le (get_u16le p 0) = p" if "length p = 2" for p
    by (subst (2) list_of_length_2 [OF that])
      (auto simp: put_le_defs intro!: bit_word_eqI, auto simp: bit_put_simps bit_get_simps)
  show "get_u16le (put_u16le v) 0 = v" for v
    by (rule bit_word_eqI) (auto simp: put_le_defs bit_put_simps bit_get_simps)
qed (simp_all add: put_le_defs get_u16le_def)

interpretation u32: codec put_u32le get_u32le 4
proof
  show "put_u32le (get_u32le p 0) = p" if "length p = 4" for p
    by (subst (2) list_of_length_4 [OF that])
      (auto simp: put_le_defs intro!: bit_word_eqI, auto simp: bit_put_simps bit_get_simps numeral_2_eq_2)
  show "get_u32le (put_u32le v) 0 = v" for v
    by (rule bit_word_eqI) (auto simp: put_le_defs bit_put_simps bit_get_simps)
qed (simp_all add: put_le_defs get_u32le_def)

interpretation u64: codec put_u64le get_u64le 8
proof
  show "put_u64le (get_u64le p 0) = p" if "length p = 8" for p
    by (subst (2) list_of_length_8 [OF that])
      (auto simp: put_le_defs intro!: bit_word_eqI, auto simp: bit_put_simps bit_get_simps numeral_2_eq_2)
  show "get_u64le (put_u64le v) 0 = v" for v
    by (rule bit_word_eqI) (auto simp: put_le_defs bit_put_simps bit_get_simps)
qed (simp_all add: put_le_defs get_u64le_explicit)

text \<open>The rules by which \<open>simp\<close> reads a field of a header built by appending encoded fields.\<close>

lemmas put_lengths [simp] = u8.length_enc u16.length_enc u32.length_enc u64.length_enc

lemmas put_get_front = u8.dec_enc u16.dec_enc u32.dec_enc u64.dec_enc
  u8.dec_front u16.dec_front u32.dec_front u64.dec_front

lemmas get_skip = u8.dec_skip u16.dec_skip u32.dec_skip u64.dec_skip

declare put_get_front [wire_simps] get_skip [wire_simps]

end
