(* ===== verification/Wire_Protocol.thy ===== *)
theory Wire_Protocol
  imports Byteorder
begin

text \<open>
  The UDP transport header: include/ipcrelay/common/wire_protocol.hpp and
  src/common/wire_protocol.cpp. The encoder writes the fields at their offsets; the parser
  validates a datagram in the order of the source and returns, as the C++ does through its
  reference parameters, the error code, the header as far as it was filled, and the payload
  (\<open>None\<close> for the null pointer). A \<open>std::size_t\<close> that is the length of a buffer is a \<open>nat\<close>;
  where the code computes with one it is a \<open>u64\<close>.
\<close>

section \<open>Constants and the header record\<close>

definition kMagic :: u32 where [const_defs]: "kMagic = 0x42554D5A"
definition kVersion :: u16 where [const_defs]: "kVersion = 1"
definition kHeaderSize :: nat where [const_defs]: "kHeaderSize = 44"
definition kFlagFragmented :: u16 where [const_defs]: "kFlagFragmented = 0x0001"
definition kFlagMultipart :: u16 where [const_defs]: "kFlagMultipart = 0x0002"
definition kMaxUdpPayload :: nat where [const_defs]: "kMaxUdpPayload = 65507"
definition kMaxMessageLength :: u64 where [const_defs]: "kMaxMessageLength = 0xFFFFFFFF"

record Header =
  version :: u16
  flags :: u16
  source_id :: u32
  message_length :: u32
  sequence :: u64
  timestamp_ns :: u64
  fragment_offset :: u32
  fragment_index :: u16
  fragment_count :: u16
  fragment_length :: u16

definition default_Header :: Header where
  "default_Header =
     \<lparr>version = kVersion, flags = 0, source_id = 0, message_length = 0, sequence = 0,
      timestamp_ns = 0, fragment_offset = 0, fragment_index = 0, fragment_count = 1,
      fragment_length = 0\<rparr>"

datatype ParseError =
    NoError
  | Truncated
  | BadMagic
  | BadVersion
  | BadFragmentCount
  | BadFragmentIndex
  | LengthMismatch
  | RangeError
  | FlagMismatch

fun error_to_string :: "ParseError \<Rightarrow> string" where
  "error_to_string NoError = ''ok''"
| "error_to_string Truncated = ''truncated''"
| "error_to_string BadMagic = ''bad_magic''"
| "error_to_string BadVersion = ''bad_version''"
| "error_to_string BadFragmentCount = ''bad_fragment_count''"
| "error_to_string BadFragmentIndex = ''bad_fragment_index''"
| "error_to_string LengthMismatch = ''length_mismatch''"
| "error_to_string RangeError = ''range_error''"
| "error_to_string FlagMismatch = ''flag_mismatch''"

section \<open>Encoding, parsing, fragment count\<close>

definition encode_header :: "Header \<Rightarrow> byte list \<Rightarrow> byte list" where
  "encode_header h out =
     (let out = store out 0 (put_u32le kMagic);
          out = store out 4 (put_u16le (version h));
          out = store out 6 (put_u16le (flags h));
          out = store out 8 (put_u32le (source_id h));
          out = store out 12 (put_u32le (message_length h));
          out = store out 16 (put_u64le (sequence h));
          out = store out 24 (put_u64le (timestamp_ns h));
          out = store out 32 (put_u32le (fragment_offset h));
          out = store out 36 (put_u16le (fragment_index h));
          out = store out 38 (put_u16le (fragment_count h));
          out = store out 40 (put_u16le (fragment_length h));
          out = store out 42 (put_u16le 0)
      in out)"

definition parse_datagram :: "byte list \<Rightarrow> Header \<Rightarrow> ParseError \<times> Header \<times> byte list option" where
  "parse_datagram data h0 =
     (if length data < kHeaderSize then (Truncated, h0, None)
      else if get_u32le data 0 \<noteq> kMagic then (BadMagic, h0, None)
      else let h = h0\<lparr>version := get_u16le data 4\<rparr> in
      if version h \<noteq> kVersion then (BadVersion, h, None)
      else let h = h\<lparr>flags := get_u16le data 6,
                    source_id := get_u32le data 8,
                    message_length := get_u32le data 12,
                    sequence := get_u64le data 16,
                    timestamp_ns := get_u64le data 24,
                    fragment_offset := get_u32le data 32,
                    fragment_index := get_u16le data 36,
                    fragment_count := get_u16le data 38,
                    fragment_length := get_u16le data 40\<rparr> in
      if fragment_count h = 0 then (BadFragmentCount, h, None)
      else if fragment_index h \<ge> fragment_count h then (BadFragmentIndex, h, None)
      else if length data \<noteq> kHeaderSize + unat (fragment_length h) then (LengthMismatch, h, None)
      else let end_pos = (ucast (fragment_offset h) :: u64) + ucast (fragment_length h) in
      if end_pos > ucast (message_length h) then (RangeError, h, None)
      else if fragment_count h = 1 then
        if fragment_offset h \<noteq> 0 \<or> ucast (fragment_length h) \<noteq> message_length h then (RangeError, h, None)
        else if flags h AND kFlagFragmented \<noteq> 0 then (FlagMismatch, h, None)
        else (NoError, h, Some (drop kHeaderSize data))
      else
        if flags h AND kFlagFragmented = 0 then (FlagMismatch, h, None)
        else if (ucast (fragment_index h) :: u32) + 1 = ucast (fragment_count h) then
          if end_pos \<noteq> ucast (message_length h) then (RangeError, h, None)
          else (NoError, h, Some (drop kHeaderSize data))
        else if fragment_length h = 0 then (RangeError, h, None)
        else (NoError, h, Some (drop kHeaderSize data)))"

definition fragment_count_for :: "u64 \<Rightarrow> u64 \<Rightarrow> u64" where
  "fragment_count_for message_len fragment_payload =
     (if fragment_payload = 0 then 0
      else if message_len = 0 then 1
      else (message_len + fragment_payload - 1) div fragment_payload)"

section \<open>The encoded header\<close>

definition header_bytes :: "Header \<Rightarrow> byte list" where
  "header_bytes h =
     put_u32le kMagic @ put_u16le (version h) @ put_u16le (flags h) @ put_u32le (source_id h) @
     put_u32le (message_length h) @ put_u64le (sequence h) @ put_u64le (timestamp_ns h) @
     put_u32le (fragment_offset h) @ put_u16le (fragment_index h) @ put_u16le (fragment_count h) @
     put_u16le (fragment_length h) @ put_u16le 0"

lemma encode_header_eq:
  assumes "length out = kHeaderSize"
  shows "encode_header h out = header_bytes h"
  using assms unfolding encode_header_def header_bytes_def Let_def
  by (simp add: store_fields const_defs)

lemma length_header_bytes [simp]: "length (header_bytes h) = kHeaderSize"
  by (simp add: header_bytes_def kHeaderSize_def)

lemma read_header_bytes [wire_simps]:
  "get_u32le (header_bytes h @ p) 0 = kMagic"
  "get_u16le (header_bytes h @ p) 4 = version h"
  "get_u16le (header_bytes h @ p) 6 = flags h"
  "get_u32le (header_bytes h @ p) 8 = source_id h"
  "get_u32le (header_bytes h @ p) 12 = message_length h"
  "get_u64le (header_bytes h @ p) 16 = sequence h"
  "get_u64le (header_bytes h @ p) 24 = timestamp_ns h"
  "get_u32le (header_bytes h @ p) 32 = fragment_offset h"
  "get_u16le (header_bytes h @ p) 36 = fragment_index h"
  "get_u16le (header_bytes h @ p) 38 = fragment_count h"
  "get_u16le (header_bytes h @ p) 40 = fragment_length h"
  by (simp_all add: header_bytes_def wire_simps)

section \<open>The validation rules\<close>

text \<open>
  The header a datagram of at least 44 bytes carries, and the rules of
  docs/wire_protocol.md (section "Receiver validation rules") over it, in natural numbers.
\<close>

definition header_at :: "byte list \<Rightarrow> Header" where
  "header_at d =
     \<lparr>version = get_u16le d 4, flags = get_u16le d 6, source_id = get_u32le d 8,
      message_length = get_u32le d 12, sequence = get_u64le d 16, timestamp_ns = get_u64le d 24,
      fragment_offset = get_u32le d 32, fragment_index = get_u16le d 36,
      fragment_count = get_u16le d 38, fragment_length = get_u16le d 40\<rparr>"

definition frag_end :: "Header \<Rightarrow> nat" where
  "frag_end h = unat (fragment_offset h) + unat (fragment_length h)"

definition range_rule :: "Header \<Rightarrow> bool" where
  "range_rule h \<longleftrightarrow>
     frag_end h \<le> unat (message_length h) \<and>
     (fragment_count h = 1 \<longrightarrow> fragment_offset h = 0 \<and> unat (fragment_length h) = unat (message_length h)) \<and>
     (1 < fragment_count h \<longrightarrow> Suc (unat (fragment_index h)) = unat (fragment_count h) \<longrightarrow>
        frag_end h = unat (message_length h)) \<and>
     (1 < fragment_count h \<longrightarrow> Suc (unat (fragment_index h)) < unat (fragment_count h) \<longrightarrow>
        0 < unat (fragment_length h))"

definition flag_rule :: "Header \<Rightarrow> bool" where
  "flag_rule h \<longleftrightarrow> (bit (flags h) 0 \<longleftrightarrow> 1 < unat (fragment_count h))"

definition header_ok :: "Header \<Rightarrow> bool" where
  "header_ok h \<longleftrightarrow>
     version h = kVersion \<and> fragment_count h \<noteq> 0 \<and> fragment_index h < fragment_count h \<and>
     range_rule h \<and> flag_rule h"

definition datagram_ok :: "byte list \<Rightarrow> bool" where
  "datagram_ok d \<longleftrightarrow>
     kHeaderSize \<le> length d \<and> get_u32le d 0 = kMagic \<and> header_ok (header_at d) \<and>
     length d = kHeaderSize + unat (fragment_length (header_at d))"

text \<open>The rule each error code of the parser names.\<close>

fun breaks_rule :: "ParseError \<Rightarrow> byte list \<Rightarrow> bool" where
  "breaks_rule NoError d = False"
| "breaks_rule Truncated d = (length d < kHeaderSize)"
| "breaks_rule BadMagic d = (get_u32le d 0 \<noteq> kMagic)"
| "breaks_rule BadVersion d = (version (header_at d) \<noteq> kVersion)"
| "breaks_rule BadFragmentCount d = (fragment_count (header_at d) = 0)"
| "breaks_rule BadFragmentIndex d = (fragment_count (header_at d) \<le> fragment_index (header_at d))"
| "breaks_rule LengthMismatch d = (length d \<noteq> kHeaderSize + unat (fragment_length (header_at d)))"
| "breaks_rule RangeError d = (\<not> range_rule (header_at d))"
| "breaks_rule FlagMismatch d = (\<not> flag_rule (header_at d))"

lemma unat_end_pos:
  "unat ((ucast (fragment_offset h) :: u64) + ucast (fragment_length h)) = frag_end h"
  unfolding frag_end_def by (rule unat_ucast_add) simp_all

lemma unat_index_Suc: "unat ((ucast (fragment_index h) :: u32) + 1) = Suc (unat (fragment_index h))"
  using unat_ucast_add [where 'c = 32, of "fragment_index h" "1 :: 16 word"] by simp

lemma flag_bit: "flags h AND kFlagFragmented = 0 \<longleftrightarrow> \<not> bit (flags h) 0"
  by (simp add: kFlagFragmented_def and_one_eq bit_0 flip: even_iff_mod_2_eq_zero)

text \<open>The parser with its machine arithmetic read as natural numbers.\<close>

definition parse_checks :: "nat \<Rightarrow> Header \<Rightarrow> ParseError" where
  "parse_checks len h =
     (if fragment_count h = 0 then BadFragmentCount
      else if fragment_count h \<le> fragment_index h then BadFragmentIndex
      else if len \<noteq> kHeaderSize + unat (fragment_length h) then LengthMismatch
      else if unat (message_length h) < frag_end h then RangeError
      else if fragment_count h = 1 then
        if fragment_offset h \<noteq> 0 \<or> unat (fragment_length h) \<noteq> unat (message_length h) then RangeError
        else if bit (flags h) 0 then FlagMismatch
        else NoError
      else
        if \<not> bit (flags h) 0 then FlagMismatch
        else if Suc (unat (fragment_index h)) = unat (fragment_count h) then
          if frag_end h \<noteq> unat (message_length h) then RangeError else NoError
        else if fragment_length h = 0 then RangeError
        else NoError)"

lemma parse_datagram_checks:
  "parse_datagram d h0 =
     (if length d < kHeaderSize then (Truncated, h0, None)
      else if get_u32le d 0 \<noteq> kMagic then (BadMagic, h0, None)
      else if version (header_at d) \<noteq> kVersion then (BadVersion, h0\<lparr>version := version (header_at d)\<rparr>, None)
      else let e = parse_checks (length d) (header_at d) in
        (e, header_at d, if e = NoError then Some (drop kHeaderSize d) else None))"
proof -
  have hdr: "h0\<lparr>version := get_u16le d 4, flags := get_u16le d 6, source_id := get_u32le d 8,
       message_length := get_u32le d 12, sequence := get_u64le d 16, timestamp_ns := get_u64le d 24,
       fragment_offset := get_u32le d 32, fragment_index := get_u16le d 36,
       fragment_count := get_u16le d 38, fragment_length := get_u16le d 40\<rparr> = header_at d"
    by (simp add: header_at_def)
  have end_gt: "(ucast (message_length h) :: u64) < ucast (fragment_offset h) + ucast (fragment_length h)
      \<longleftrightarrow> unat (message_length h) < frag_end h" for h
    by (simp add: word_less_nat_alt unat_end_pos)
  have end_eq: "(ucast (fragment_offset h) :: u64) + ucast (fragment_length h) = ucast (message_length h)
      \<longleftrightarrow> frag_end h = unat (message_length h)" for h
    by (simp add: word_eq_unat unat_end_pos)
  have last: "(ucast (fragment_index h) :: u32) + 1 = ucast (fragment_count h)
      \<longleftrightarrow> Suc (unat (fragment_index h)) = unat (fragment_count h)" for h
    by (simp add: word_eq_unat [of "ucast (fragment_index h) + 1"] unat_index_Suc)
  have len_eq: "(ucast (fragment_length h) :: u32) = message_length h
      \<longleftrightarrow> unat (fragment_length h) = unat (message_length h)" for h
    by (simp add: word_eq_unat [of "ucast (fragment_length h)"])
  have ver: "version (header_at d) = get_u16le d 4"
    by (simp add: header_at_def)
  show ?thesis
    unfolding parse_datagram_def Let_def hdr end_gt end_eq last len_eq flag_bit ver
    by (simp add: parse_checks_def hdr ver end_gt end_eq last len_eq flag_bit)
qed

lemma parse_checks_ok:
  "parse_checks len h = NoError \<longleftrightarrow>
     fragment_count h \<noteq> 0 \<and> fragment_index h < fragment_count h \<and> range_rule h \<and> flag_rule h \<and>
     len = kHeaderSize + unat (fragment_length h)"
proof -
  have one: "fragment_count h \<noteq> 0 \<Longrightarrow> fragment_count h \<noteq> 1 \<Longrightarrow> 1 < fragment_count h"
    by (auto simp: word_to_nat)
  show ?thesis
    using one by (auto simp: parse_checks_def range_rule_def flag_rule_def word_to_nat frag_end_def)
qed

lemma parse_datagram_header:
  "fst (parse_datagram d h0) \<notin> {Truncated, BadMagic, BadVersion} \<Longrightarrow>
     fst (snd (parse_datagram d h0)) = header_at d"
  by (auto simp: parse_datagram_checks Let_def split: if_splits)

lemma parse_datagram_accepts: "fst (parse_datagram d h0) = NoError \<longleftrightarrow> datagram_ok d"
  by (auto simp: parse_datagram_checks Let_def parse_checks_ok datagram_ok_def header_ok_def)

lemma parse_datagram_accepted:
  "datagram_ok d \<Longrightarrow> parse_datagram d h0 = (NoError, header_at d, Some (drop kHeaderSize d))"
  by (auto simp: parse_datagram_checks Let_def parse_checks_ok datagram_ok_def header_ok_def)

lemma parse_datagram_SomeD:
  "parse_datagram d h0 = (NoError, h, p) \<Longrightarrow> datagram_ok d \<and> h = header_at d \<and> p = Some (drop kHeaderSize d)"
  using parse_datagram_accepts [of d h0] parse_datagram_accepted [of d h0] by simp

lemma header_at_header_bytes [simp]: "header_at (header_bytes h @ p) = h"
  by (simp add: header_at_def wire_simps)

lemma datagram_ok_built:
  "header_ok h \<Longrightarrow> length p = unat (fragment_length h) \<Longrightarrow> datagram_ok (header_bytes h @ p)"
  by (simp add: datagram_ok_def wire_simps)

lemma take_header_bytes:
  assumes "kHeaderSize \<le> length d" "get_u32le d 0 = kMagic"
  shows "take 42 (header_bytes (header_at d)) = take 42 d"
proof -
  have split: "take n (drop k d) = take m (drop k d) @ take (n - m) (drop (k + m) d)" if "m \<le> n" for m n k
    using take_add [of m "n - m" "drop k d"] that by (simp add: add.commute)
  have cut: "take 42 d = take 4 (drop 0 d) @ take 2 (drop 4 d) @ take 2 (drop 6 d) @ take 4 (drop 8 d) @
      take 4 (drop 12 d) @ take 8 (drop 16 d) @ take 8 (drop 24 d) @ take 4 (drop 32 d) @
      take 2 (drop 36 d) @ take 2 (drop 38 d) @ take 2 (drop 40 d)"
    using split [of 4 42 0] split [of 2 38 4] split [of 2 36 6] split [of 4 34 8] split [of 4 30 12]
      split [of 8 26 16] split [of 8 18 24] split [of 4 10 32] split [of 2 6 36] split [of 2 4 38]
    by simp
  show ?thesis
    using assms unfolding cut
    by (simp add: header_bytes_def header_at_def kHeaderSize_def u16.enc_dec_at u32.enc_dec_at u64.enc_dec_at
        flip: assms(2))
qed

lemma breaks_rule_checks:
  "kHeaderSize \<le> length d \<Longrightarrow> parse_checks (length d) (header_at d) = e \<Longrightarrow> e \<noteq> NoError \<Longrightarrow> breaks_rule e d"
  by (auto simp: parse_checks_def range_rule_def flag_rule_def word_to_nat split: if_splits)

section \<open>Fragment counts\<close>

lemma parse_error_breaks_rule:
  "fst (parse_datagram d h0) \<noteq> NoError \<Longrightarrow> breaks_rule (fst (parse_datagram d h0)) d"
proof (cases "kHeaderSize \<le> length d")
  case True
  then show "fst (parse_datagram d h0) \<noteq> NoError \<Longrightarrow> ?thesis"
    using breaks_rule_checks [of d] by (auto simp: parse_datagram_checks Let_def)
qed (simp add: parse_datagram_checks)

lemma fragment_count_for_nat:
  assumes "0 < unat c" "unat m + unat c \<le> 2 ^ 64"
  shows "unat (fragment_count_for m c) = (if m = 0 then 1 else (unat m + unat c - 1) div unat c)"
proof (cases "m = 0")
  case True
  with assms show ?thesis by (auto simp: fragment_count_for_def)
next
  case False
  then have m: "0 < unat m" by (simp add: unat_gt_0)
  have "unat (m + c - 1) = unat ((m - 1) + c)" by (simp add: algebra_simps)
  also have "\<dots> = unat (m - 1) + unat c"
    using m assms(2) False by (simp add: unat_word_ariths(1) unat_minus_one)
  also have "\<dots> = unat m + unat c - 1"
    using m False by (simp add: unat_minus_one)
  finally have "unat (m + c - 1) = unat m + unat c - 1" .
  with False assms(1) show ?thesis
    by (auto simp: fragment_count_for_def unat_div)
qed

lemma ceil_div_bounds:
  fixes m c :: nat
  assumes "0 < c" "0 < m"
  shows "((m + c - 1) div c - 1) * c < m" "m \<le> (m + c - 1) div c * c" "0 < (m + c - 1) div c"
proof -
  let ?q = "(m + c - 1) div c"
  have dm: "?q * c + (m + c - 1) mod c = m + c - 1" by simp
  have md: "(m + c - 1) mod c < c" using assms by simp
  show "m \<le> ?q * c" using dm md by linarith
  with assms show q: "0 < ?q" by (cases "?q = 0") auto
  have "(?q - 1) * c = ?q * c - c" by (simp add: diff_mult_distrib)
  moreover have "c \<le> ?q * c" using q by simp
  ultimately show "(?q - 1) * c < m" using dm assms by linarith
qed

section \<open>Properties of the wire protocol\<close>

text \<open>C7: The parser accepts exactly the datagrams that satisfy every validation rule of
  docs/wire_protocol.md, and then returns the header read at the documented offsets and the
  bytes after the header as the payload.\<close>

theorem parse_datagram_spec:
  "parse_datagram d h0 = (NoError, h, Some p) \<longleftrightarrow>
     datagram_ok d \<and> h = header_at d \<and> p = drop kHeaderSize d"
  using parse_datagram_SomeD [of d h0 h "Some p"] parse_datagram_accepted [of d h0] by auto

text \<open>A rejected datagram breaks the rule that the reported error code names.\<close>

theorem parse_error_names_broken_rule:
  "fst (parse_datagram d h0) = NoError \<or> breaks_rule (fst (parse_datagram d h0)) d"
  using parse_error_breaks_rule by blast

text \<open>C8: Round trip. A datagram made of an encoded valid header and a payload of the announced
  length is parsed back to that header and that payload.\<close>

theorem parse_encode_roundtrip:
  assumes "header_ok h" "length out = kHeaderSize" "length p = unat (fragment_length h)"
  shows "parse_datagram (encode_header h out @ p) h0 = (NoError, h, Some p)"
  using assms parse_datagram_accepted [OF datagram_ok_built [OF assms(1,3)], of h0]
  by (simp add: encode_header_eq)

definition sample_header :: Header where
  "sample_header = default_Header\<lparr>source_id := 7, message_length := 5, sequence := 42, fragment_length := 5\<rparr>"

lemma header_ok_sample: "header_ok sample_header"
  by (simp add: sample_header_def default_Header_def header_ok_def range_rule_def flag_rule_def
      frag_end_def word_to_nat)

theorem parse_encode_roundtrip_witness:
  "parse_datagram (encode_header sample_header (replicate 44 0) @ [0x68, 0x65, 0x6C, 0x6C, 0x6F]) default_Header
     = (NoError, sample_header, Some [0x68, 0x65, 0x6C, 0x6C, 0x6F])"
  by (rule parse_encode_roundtrip [OF header_ok_sample])
    (simp_all add: kHeaderSize_def sample_header_def default_Header_def)

text \<open>C9: The encoding is canonical. An accepted datagram is, but for the two reserved bytes, the
  encoding of the header it was parsed to followed by the payload it was parsed to.\<close>

theorem parsed_datagram_is_encoding:
  assumes "parse_datagram d h0 = (NoError, h, Some p)" "length out = kHeaderSize"
  shows "d = take 42 (encode_header h out) @ [d ! 42, d ! 43] @ p \<and> length p = unat (fragment_length h)"
proof -
  have ok: "datagram_ok d" "h = header_at d" "p = drop kHeaderSize d"
    using parse_datagram_SomeD [OF assms(1)] by auto
  then have len: "44 \<le> length d" by (simp add: datagram_ok_def kHeaderSize_def)
  have enc: "take 42 (encode_header h out) = take 42 d"
    using ok assms(2) by (simp add: encode_header_eq take_header_bytes datagram_ok_def)
  have "drop 42 d = [d ! 42, d ! 43] @ p"
    using Cons_nth_drop_Suc [of 42 d] Cons_nth_drop_Suc [of 43 d] len ok(3)
    by (simp add: kHeaderSize_def)
  then have "d = take 42 (encode_header h out) @ [d ! 42, d ! 43] @ p"
    unfolding enc by (metis append_take_drop_id)
  moreover have "length p = unat (fragment_length h)"
    using ok by (simp add: datagram_ok_def)
  ultimately show ?thesis ..
qed

theorem parsed_datagram_is_encoding_witness:
  "let d = header_bytes sample_header @ [1, 2, 3, 4, 5] in
     d = take 42 (encode_header sample_header (replicate 44 0)) @ [d ! 42, d ! 43] @ [1, 2, 3, 4, 5] \<and>
     length [1 :: byte, 2, 3, 4, 5] = unat (fragment_length sample_header)"
proof -
  have "parse_datagram (header_bytes sample_header @ [1, 2, 3, 4, 5]) default_Header
      = (NoError, sample_header, Some [1, 2, 3, 4, 5])"
    using parse_datagram_accepted [OF datagram_ok_built [OF header_ok_sample, of "[1, 2, 3, 4, 5]"]]
    by (simp add: sample_header_def default_Header_def kHeaderSize_def)
  then show ?thesis
    unfolding Let_def by (rule parsed_datagram_is_encoding) (simp add: kHeaderSize_def)
qed

text \<open>The fragment count is the ceiling of the message length over the payload capacity: that
  many full fragments cover the message and one fewer do not; an empty message takes one.\<close>

theorem fragment_count_for_ceiling:
  assumes "0 < unat c" "unat m + unat c \<le> 2 ^ 64"
  shows "0 < unat (fragment_count_for m c) \<and>
    unat m \<le> unat (fragment_count_for m c) * unat c \<and>
    (m = 0 \<or> (unat (fragment_count_for m c) - 1) * unat c < unat m) \<and>
    (m \<noteq> 0 \<or> unat (fragment_count_for m c) = 1)"
proof (cases "m = 0")
  case True
  with assms show ?thesis by (simp add: fragment_count_for_nat)
next
  case False
  then have "0 < unat m" by (simp add: unat_gt_0)
  with False assms show ?thesis
    using ceil_div_bounds [of "unat c" "unat m"] by (simp add: fragment_count_for_nat)
qed

theorem fragment_count_for_ceiling_witness:
  "fragment_count_for 5000 1356 = 4 \<and> unat (5000 :: u64) \<le> unat (fragment_count_for 5000 1356) * unat (1356 :: u64)"
  using fragment_count_for_ceiling [of 1356 5000] by (simp add: fragment_count_for_def)

end
