(* ===== verification/Bridge_Config.thy ===== *)
theory Bridge_Config
  imports Config Wire_Protocol
begin

text \<open>
  The bridge configuration: include/ipcrelay/bridge/bridge_config.hpp and
  src/bridge/bridge_config.cpp. The errors are collected in order, as in the source; the
  configuration is accepted when the list stays empty. The readers of the struct \<open>Reader\<close>
  take the function \<open>whr\<close> that renders the position of an entry, because the receiver has
  the same readers with another one.
\<close>

section \<open>Readers of typed values\<close>

definition read_str :: "ConfigSection \<Rightarrow> string \<Rightarrow> string \<Rightarrow> string" where
  "read_str sec key old = (case get_value sec key of None \<Rightarrow> old | Some v \<Rightarrow> v)"

definition outside_error :: "string \<Rightarrow> int \<Rightarrow> int \<Rightarrow> int \<Rightarrow> string" where
  "outside_error key v lo hi =
     key @ '': value '' @ to_string v @ '' outside ['' @ to_string lo @ '', '' @ to_string hi @ '']''"

definition read_i32 ::
  "(ConfigEntry \<Rightarrow> string) \<Rightarrow> ConfigSection \<Rightarrow> string \<Rightarrow> int \<Rightarrow> int \<Rightarrow> int \<times> string list \<Rightarrow> int \<times> string list"
where
  "read_i32 whr sec key lo hi = (\<lambda>(old, errors).
     case find_entry sec key of
       None \<Rightarrow> (old, errors)
     | Some e \<Rightarrow>
         (case parse_i64 (ce_value e) of
            Inl err \<Rightarrow> (old, errors @ [whr e @ key @ '': '' @ err])
          | Inr v \<Rightarrow> if v < lo \<or> v > hi then (old, errors @ [whr e @ outside_error key v lo hi]) else (v, errors)))"

definition read_u32 ::
  "(ConfigEntry \<Rightarrow> string) \<Rightarrow> ConfigSection \<Rightarrow> string \<Rightarrow> u64 \<Rightarrow> u64 \<Rightarrow> u32 \<times> string list \<Rightarrow> u32 \<times> string list"
where
  "read_u32 whr sec key lo hi = (\<lambda>(old, errors).
     case find_entry sec key of
       None \<Rightarrow> (old, errors)
     | Some e \<Rightarrow>
         (case parse_u64 (ce_value e) of
            Inl err \<Rightarrow> (old, errors @ [whr e @ key @ '': '' @ err])
          | Inr v \<Rightarrow>
              if v < lo \<or> v > hi then (old, errors @ [whr e @ outside_error key (uint v) (uint lo) (uint hi)])
              else (ucast v, errors)))"

definition read_boolean ::
  "(ConfigEntry \<Rightarrow> string) \<Rightarrow> ConfigSection \<Rightarrow> string \<Rightarrow> bool \<times> string list \<Rightarrow> bool \<times> string list"
where
  "read_boolean whr sec key = (\<lambda>(old, errors).
     case find_entry sec key of
       None \<Rightarrow> (old, errors)
     | Some e \<Rightarrow>
         (case parse_bool (ce_value e) of
            Inl err \<Rightarrow> (old, errors @ [whr e @ key @ '': '' @ err])
          | Inr v \<Rightarrow> (v, errors)))"

definition bridge_where :: "string \<Rightarrow> ConfigEntry \<Rightarrow> string" where
  "bridge_where prefix e = prefix @ (if ce_line e > 0 then '' (line '' @ to_string (int (ce_line e)) @ '')'' else [])"

text \<open>A list of error lines appended on a condition.\<close>

definition err_if :: "bool \<Rightarrow> string \<Rightarrow> string list" where
  "err_if b m = (if b then [m] else [])"

section \<open>The configuration\<close>

record BridgeSourceConfig =
  bs_id :: u32
  endpoint :: string
  filters :: "string list"
  recv_hwm :: int
  bs_name :: string

record BridgeConfig =
  multicast_group_text :: string
  multicast_group :: u32
  multicast_port :: u16
  multicast_interface_text :: string
  multicast_interface :: u32
  multicast_ttl :: int
  multicast_loopback :: bool
  max_datagram_size :: u32
  send_buffer_bytes :: int
  send_timeout_ms :: int
  zmq_io_threads :: int
  zmq_recv_hwm :: int
  max_messages_per_poll :: int
  reconnect_ivl_ms :: int
  stats_interval_ms :: int
  log_level :: LogLevel
  sources :: "BridgeSourceConfig list"

definition default_BridgeSourceConfig :: BridgeSourceConfig where
  "default_BridgeSourceConfig = \<lparr>bs_id = 0, endpoint = '''', filters = [], recv_hwm = 0, bs_name = ''''\<rparr>"

definition default_BridgeConfig :: BridgeConfig where
  "default_BridgeConfig =
     \<lparr>multicast_group_text = '''', multicast_group = 0, multicast_port = 0, multicast_interface_text = '''',
      multicast_interface = 0, multicast_ttl = 1, multicast_loopback = True, max_datagram_size = 1400,
      send_buffer_bytes = 4 * 1024 * 1024, send_timeout_ms = 100, zmq_io_threads = 1, zmq_recv_hwm = 10000,
      max_messages_per_poll = 32, reconnect_ivl_ms = 100, stats_interval_ms = 5000, log_level = LogInfo,
      sources = []\<rparr>"

definition fragment_payload :: "BridgeConfig \<Rightarrow> u32" where
  "fragment_payload cfg =
     (if unat (max_datagram_size cfg) > kHeaderSize then max_datagram_size cfg - of_nat kHeaderSize else 0)"

definition kKnownGlobalKeys :: "string list" where
  "kKnownGlobalKeys =
     [''multicast_group'', ''multicast_port'', ''multicast_interface'', ''multicast_ttl'', ''multicast_loopback'',
      ''max_datagram_size'', ''send_buffer_bytes'', ''send_timeout_ms'', ''zmq_io_threads'', ''zmq_recv_hwm'',
      ''max_messages_per_poll'', ''reconnect_ivl_ms'', ''stats_interval_ms'', ''log_level'']"

definition kKnownSourceKeys :: "string list" where
  "kKnownSourceKeys = [''id'', ''endpoint'', ''filter'', ''subscribe_all'', ''recv_hwm'', ''name'']"

definition line_text :: "nat \<Rightarrow> string" where
  "line_text n = '' (line '' @ to_string (int n) @ '')''"

fun contains_text :: "string \<Rightarrow> string \<Rightarrow> bool" where
  "contains_text p [] \<longleftrightarrow> p = []"
| "contains_text p (c # cs) \<longleftrightarrow> take (length p) (c # cs) = p \<or> contains_text p cs"

text \<open>The multicast group, the port and the interface, read alike by the bridge and the receiver.\<close>

definition read_group :: "(string \<Rightarrow> u32 option) \<Rightarrow> string \<Rightarrow> u32 \<Rightarrow> u32 \<times> string list" where
  "read_group pton txt old =
     (if txt = [] then (old, [''multicast_group is required''])
      else (case parse_ipv4 pton txt of
              Inl err \<Rightarrow> (old, [''multicast_group: '' @ err])
            | Inr a \<Rightarrow> (a, err_if (\<not> is_multicast_ipv4 a)
                (quoted_in ''multicast_group '' txt '' is not a multicast address (224.0.0.0/4)''))))"

definition read_port :: "ConfigSection \<Rightarrow> u16 \<Rightarrow> u16 \<times> string list" where
  "read_port g old =
     (case find_entry g ''multicast_port'' of
        None \<Rightarrow> (old, [''multicast_port is required''])
      | Some e \<Rightarrow>
          (case parse_u16 (ce_value e) of
             Inl err \<Rightarrow> (old, [''multicast_port: '' @ err])
           | Inr p \<Rightarrow> (p, err_if (p = 0) ''multicast_port must be 1..65535'')))"

definition read_log_level :: "ConfigSection \<Rightarrow> LogLevel \<Rightarrow> LogLevel \<times> string list" where
  "read_log_level g old =
     (case find_entry g ''log_level'' of
        None \<Rightarrow> (old, [])
      | Some e \<Rightarrow>
          (case parse_log_level (ce_value e) of
             None \<Rightarrow> (old, [quoted_in ''log_level: unknown level '' (ce_value e) ''''])
           | Some l \<Rightarrow> (l, [])))"

definition read_interface ::
  "(string \<Rightarrow> u32 option) \<Rightarrow> (string + (string \<times> u32 option) list) \<Rightarrow> string \<Rightarrow> u32 \<Rightarrow> u32 \<times> string list"
where
  "read_interface pton ifs txt old =
     (case resolve_interface_ipv4 pton ifs txt of
        Inl err \<Rightarrow> (old, [''multicast_interface: '' @ err])
      | Inr a \<Rightarrow> (a, []))"

section \<open>Sources\<close>

record SourceScan =
  sc_ids :: "u32 list"
  sc_endpoints :: "string list"
  sc_sources :: "BridgeSourceConfig list"
  sc_errors :: "string list"

definition read_source_id :: "string \<Rightarrow> ConfigSection \<Rightarrow> u32 list \<Rightarrow> u32 \<times> u32 list \<times> string list" where
  "read_source_id prefix s ids =
     (case find_entry s ''id'' of
        None \<Rightarrow> (0, ids, [prefix @ ''id is required''])
      | Some e \<Rightarrow>
          (case parse_u32 (ce_value e) of
             Inl err \<Rightarrow> (0, ids, [prefix @ ''id: '' @ err])
           | Inr n \<Rightarrow> (n, n # ids, err_if (n \<in> set ids) (prefix @ ''duplicate source id '' @ to_string (uint n)))))"

definition read_source_endpoint :: "string \<Rightarrow> ConfigSection \<Rightarrow> string list \<Rightarrow> string \<times> string list \<times> string list" where
  "read_source_endpoint prefix s eps =
     (let ep = (case get_value s ''endpoint'' of None \<Rightarrow> [] | Some ep \<Rightarrow> trim ep) in
      if ep = [] then (ep, eps, [prefix @ ''endpoint is required''])
      else (ep, ep # eps,
            err_if (\<not> contains_text ''://'' ep)
              (prefix @ quoted_in ''endpoint '' ep '' must be a ZeroMQ endpoint such as ipc:///run/app.sock'') @
            err_if (ep \<in> set eps) (prefix @ quoted_in ''duplicate endpoint '' ep [])))"

definition read_source_filters :: "string \<Rightarrow> ConfigSection \<Rightarrow> string list \<times> string list" where
  "read_source_filters prefix s =
     (let fs = map ce_value (filter (\<lambda>e. ce_key e = ''filter'') (cs_entries s));
          (subscribe_all, errors) =
            (case find_entry s ''subscribe_all'' of
               None \<Rightarrow> (False, [])
             | Some e \<Rightarrow>
                 (case parse_bool (ce_value e) of
                    Inl err \<Rightarrow> (False, [prefix @ ''subscribe_all: '' @ err])
                  | Inr b \<Rightarrow> (b, [])));
          any_empty = list_ex (\<lambda>f. f = []) fs
      in (if subscribe_all \<or> any_empty then [] else fs, errors))"

definition read_source :: "nat \<Rightarrow> ConfigSection \<Rightarrow> SourceScan \<Rightarrow> SourceScan" where
  "read_source index s scan =
     (let prefix = ''[source] #'' @ to_string (int index) @ line_text (cs_line s) @ '': '';
          src = default_BridgeSourceConfig;
          errors = sc_errors scan @
            concat (map (\<lambda>e. err_if (ce_key e \<notin> set kKnownSourceKeys) (prefix @ quoted_in ''unknown option '' (ce_key e) []))
              (cs_entries s));
          (sid, ids, errs) = read_source_id prefix s (sc_ids scan); errors = errors @ errs;
          (ep, eps, errs) = read_source_endpoint prefix s (sc_endpoints scan); errors = errors @ errs;
          (fs, errs) = read_source_filters prefix s; errors = errors @ errs;
          name = read_str s ''name'' (bs_name src);
          (hwm, errors) = read_i32 (bridge_where prefix) s ''recv_hwm'' 0 10000000 (recv_hwm src, errors);
          src = \<lparr>bs_id = sid, endpoint = ep, filters = fs, recv_hwm = hwm, bs_name = name\<rparr>
      in \<lparr>sc_ids = ids, sc_endpoints = eps, sc_sources = sc_sources scan @ [src], sc_errors = errors\<rparr>)"

fun read_sources :: "nat \<Rightarrow> ConfigSection list \<Rightarrow> SourceScan \<Rightarrow> SourceScan" where
  "read_sources index [] scan = scan"
| "read_sources index (s # ss) scan = read_sources (index + 1) ss (read_source (index + 1) s scan)"

section \<open>Building the configuration\<close>

definition build_bridge_config ::
  "(string \<Rightarrow> u32 option) \<Rightarrow> (string + (string \<times> u32 option) list) \<Rightarrow> ConfigFile \<Rightarrow> BridgeConfig \<times> string list"
where
  "build_bridge_config pton ifs file =
     (let cfg = default_BridgeConfig; g = global file; whr = bridge_where '''';
          errors = concat (map (\<lambda>e. err_if (ce_key e \<notin> set kKnownGlobalKeys)
              (quoted_in ''unknown option '' (ce_key e) (line_text (ce_line e)))) (cs_entries g)) @
            concat (map (\<lambda>s. err_if (cs_name s \<noteq> [] \<and> cs_name s \<noteq> ''source'')
              (''unknown section ['' @ cs_name s @ '']'' @ line_text (cs_line s))) file);
          group_text = read_str g ''multicast_group'' (multicast_group_text cfg);
          (group, errs) = read_group pton group_text (multicast_group cfg); errors = errors @ errs;
          (port, errs) = read_port g (multicast_port cfg); errors = errors @ errs;
          iface_text = read_str g ''multicast_interface'' (multicast_interface_text cfg);
          (iface, errs) = read_interface pton ifs iface_text (multicast_interface cfg); errors = errors @ errs;
          (ttl, errors) = read_i32 whr g ''multicast_ttl'' 0 255 (multicast_ttl cfg, errors);
          (loopback, errors) = read_boolean whr g ''multicast_loopback'' (multicast_loopback cfg, errors);
          (mds, errors) = read_u32 whr g ''max_datagram_size'' (of_nat (kHeaderSize + 1)) (of_nat kMaxUdpPayload)
            (max_datagram_size cfg, errors);
          (sndbuf, errors) = read_i32 whr g ''send_buffer_bytes'' 0 (2 ^ 30) (send_buffer_bytes cfg, errors);
          (sndtimeo, errors) = read_i32 whr g ''send_timeout_ms'' 0 60000 (send_timeout_ms cfg, errors);
          (threads, errors) = read_i32 whr g ''zmq_io_threads'' 1 64 (zmq_io_threads cfg, errors);
          (hwm, errors) = read_i32 whr g ''zmq_recv_hwm'' 0 10000000 (zmq_recv_hwm cfg, errors);
          (batch, errors) = read_i32 whr g ''max_messages_per_poll'' 1 100000 (max_messages_per_poll cfg, errors);
          (ivl, errors) = read_i32 whr g ''reconnect_ivl_ms'' 1 600000 (reconnect_ivl_ms cfg, errors);
          (stats, errors) = read_i32 whr g ''stats_interval_ms'' 0 3600000 (stats_interval_ms cfg, errors);
          (level, errs) = read_log_level g (log_level cfg); errors = errors @ errs;
          scan = read_sources 0 (named file ''source'')
            \<lparr>sc_ids = [], sc_endpoints = [], sc_sources = [], sc_errors = errors\<rparr>;
          errors = sc_errors scan @ err_if (sc_sources scan = []) ''at least one [source] section is required''
      in (\<lparr>multicast_group_text = group_text, multicast_group = group, multicast_port = port,
           multicast_interface_text = iface_text, multicast_interface = iface, multicast_ttl = ttl,
           multicast_loopback = loopback, max_datagram_size = mds, send_buffer_bytes = sndbuf,
           send_timeout_ms = sndtimeo, zmq_io_threads = threads, zmq_recv_hwm = hwm,
           max_messages_per_poll = batch, reconnect_ivl_ms = ivl, stats_interval_ms = stats,
           log_level = level, sources = sc_sources scan\<rparr>, errors))"

section \<open>What a reader guarantees\<close>

lemma err_if_Nil [simp]: "err_if b m = [] \<longleftrightarrow> \<not> b"
  by (simp add: err_if_def)

lemma read_i32_clean:
  "read_i32 whr sec key lo hi (old, errors) = (v, []) \<Longrightarrow> lo \<le> old \<and> old \<le> hi \<Longrightarrow> errors = [] \<and> lo \<le> v \<and> v \<le> hi"
  by (auto simp: read_i32_def split: option.splits sum.splits if_splits)

lemma read_u32_clean:
  "read_u32 whr sec key lo hi (old, errors) = (v, []) \<Longrightarrow> unat lo \<le> unat old \<and> unat old \<le> unat hi \<Longrightarrow> unat hi < 2 ^ 32 \<Longrightarrow>
     errors = [] \<and> unat lo \<le> unat v \<and> unat v \<le> unat hi"
  by (auto simp: read_u32_def word_less_nat_alt unsigned_ucast_eq take_bit_nat_eq_self split: option.splits sum.splits if_splits)

lemma read_boolean_clean: "read_boolean whr sec key (old, errors) = (v, []) \<Longrightarrow> errors = []"
  by (auto simp: read_boolean_def split: option.splits sum.splits)

lemma read_group_clean: "read_group pton txt old = (a, []) \<Longrightarrow> is_multicast_ipv4 a"
  by (auto simp: read_group_def split: sum.splits if_splits)

lemma read_port_clean: "read_port g old = (p, []) \<Longrightarrow> p \<noteq> 0"
  by (auto simp: read_port_def split: option.splits sum.splits)

lemmas reader_clean = read_i32_clean read_u32_clean read_boolean_clean read_group_clean read_port_clean

definition source_ok :: "BridgeSourceConfig \<Rightarrow> bool" where
  "source_ok s \<longleftrightarrow> endpoint s \<noteq> [] \<and> contains_text ''://'' (endpoint s) \<and> 0 \<le> recv_hwm s \<and> recv_hwm s \<le> 10000000 \<and>
     [] \<notin> set (filters s)"

definition scan_ok :: "SourceScan \<Rightarrow> bool" where
  "scan_ok sc \<longleftrightarrow>
     map bs_id (sc_sources sc) = rev (sc_ids sc) \<and> distinct (sc_ids sc) \<and>
     map endpoint (sc_sources sc) = rev (sc_endpoints sc) \<and> distinct (sc_endpoints sc) \<and>
     (\<forall>s\<in>set (sc_sources sc). source_ok s)"

lemma any_empty_filter: "\<not> list_ex (\<lambda>f. f = []) fs \<longleftrightarrow> [] \<notin> set fs"
  by (auto simp: list_ex_iff)

lemma read_source_id_clean:
  "read_source_id prefix s ids = (n, ids', []) \<Longrightarrow> ids' = n # ids \<and> n \<notin> set ids"
  by (auto simp: read_source_id_def split: option.splits sum.splits)

lemma read_source_endpoint_clean:
  "read_source_endpoint prefix s eps = (ep, eps', []) \<Longrightarrow> eps' = ep # eps \<and> ep \<notin> set eps \<and> ep \<noteq> [] \<and> contains_text ''://'' ep"
  by (auto simp: read_source_endpoint_def Let_def simp del: contains_text.simps split: option.splits if_splits)

lemma read_source_filters_clean: "read_source_filters prefix s = (fs, errs) \<Longrightarrow> [] \<notin> set fs"
  by (auto simp: read_source_filters_def Let_def list_ex_iff split: prod.splits if_splits)

lemma read_source_clean:
  assumes "sc_errors (read_source i s scan) = []"
  shows "sc_errors scan = [] \<and> (scan_ok scan \<longrightarrow> scan_ok (read_source i s scan)) \<and>
    length (sc_sources (read_source i s scan)) = Suc (length (sc_sources scan))"
proof -
  define prefix where "prefix = ''[source] #'' @ to_string (int i) @ line_text (cs_line s) @ '': ''"
  obtain sid ids e1 where 1: "read_source_id prefix s (sc_ids scan) = (sid, ids, e1)" by (metis prod_cases3)
  obtain ep eps e2 where 2: "read_source_endpoint prefix s (sc_endpoints scan) = (ep, eps, e2)" by (metis prod_cases3)
  obtain fs e3 where 3: "read_source_filters prefix s = (fs, e3)" by fastforce
  define e0 where "e0 = ((sc_errors scan @
      concat (map (\<lambda>e. err_if (ce_key e \<notin> set kKnownSourceKeys) (prefix @ quoted_in ''unknown option '' (ce_key e) [])) (cs_entries s)) @
      e1) @ e2) @ e3"
  obtain hwm e4 where 4: "read_i32 (bridge_where prefix) s ''recv_hwm'' 0 10000000 (0, e0) = (hwm, e4)" by fastforce
  have rs: "read_source i s scan = \<lparr>sc_ids = ids, sc_endpoints = eps, sc_sources = sc_sources scan @
      [\<lparr>bs_id = sid, endpoint = ep, filters = fs, recv_hwm = hwm, bs_name = read_str s ''name'' []\<rparr>], sc_errors = e4\<rparr>"
    using 4 unfolding read_source_def Let_def prefix_def [symmetric] default_BridgeSourceConfig_def 1 2 3 prod.case
    by (simp add: e0_def)
  then have "e4 = []" using assms by simp
  with 4 have "e0 = [] \<and> 0 \<le> hwm \<and> hwm \<le> 10000000" by (intro read_i32_clean) auto
  moreover from this have "e1 = []" "e2 = []" "sc_errors scan = []" by (simp_all add: e0_def)
  ultimately show ?thesis
    using read_source_id_clean [of prefix s "sc_ids scan" sid ids] read_source_endpoint_clean [of prefix s "sc_endpoints scan" ep eps]
      read_source_filters_clean [OF 3] 1 2
    by (auto simp: rs scan_ok_def source_ok_def)
qed

lemma read_sources_clean:
  "sc_errors (read_sources i ss scan) = [] \<Longrightarrow>
     sc_errors scan = [] \<and> (scan_ok scan \<longrightarrow> scan_ok (read_sources i ss scan)) \<and>
     length (sc_sources (read_sources i ss scan)) = length ss + length (sc_sources scan)"
proof (induction ss arbitrary: i scan)
  case (Cons s ss)
  then show ?case using read_source_clean [of "i + 1" s scan] by fastforce
qed simp

section \<open>Properties of the bridge configuration\<close>

definition bridge_config_ok :: "BridgeConfig \<Rightarrow> bool" where
  "bridge_config_ok cfg \<longleftrightarrow>
     is_multicast_ipv4 (multicast_group cfg) \<and> multicast_port cfg \<noteq> 0 \<and>
     0 \<le> multicast_ttl cfg \<and> multicast_ttl cfg \<le> 255 \<and>
     kHeaderSize + 1 \<le> unat (max_datagram_size cfg) \<and> unat (max_datagram_size cfg) \<le> kMaxUdpPayload \<and>
     0 \<le> send_buffer_bytes cfg \<and> send_buffer_bytes cfg \<le> 2 ^ 30 \<and>
     0 \<le> send_timeout_ms cfg \<and> send_timeout_ms cfg \<le> 60000 \<and>
     1 \<le> zmq_io_threads cfg \<and> zmq_io_threads cfg \<le> 64 \<and>
     0 \<le> zmq_recv_hwm cfg \<and> zmq_recv_hwm cfg \<le> 10000000 \<and>
     1 \<le> max_messages_per_poll cfg \<and> max_messages_per_poll cfg \<le> 100000 \<and>
     1 \<le> reconnect_ivl_ms cfg \<and> reconnect_ivl_ms cfg \<le> 600000 \<and>
     0 \<le> stats_interval_ms cfg \<and> stats_interval_ms cfg \<le> 3600000 \<and>
     sources cfg \<noteq> [] \<and> distinct (map bs_id (sources cfg)) \<and> distinct (map endpoint (sources cfg)) \<and>
     (\<forall>s\<in>set (sources cfg). source_ok s)"

lemma fragment_payload_bounds:
  assumes "bridge_config_ok cfg"
  shows "unat (fragment_payload cfg) + kHeaderSize = unat (max_datagram_size cfg)"
    "0 < unat (fragment_payload cfg)" "unat (fragment_payload cfg) < 2 ^ 16"
proof -
  have "unat (max_datagram_size cfg - 44) = unat (max_datagram_size cfg) - 44"
    using assms by (simp add: bridge_config_ok_def kHeaderSize_def unat_sub_if')
  then show "unat (fragment_payload cfg) + kHeaderSize = unat (max_datagram_size cfg)"
    "0 < unat (fragment_payload cfg)" "unat (fragment_payload cfg) < 2 ^ 16"
    using assms by (auto simp: bridge_config_ok_def fragment_payload_def kHeaderSize_def kMaxUdpPayload_def)
qed

text \<open>A configuration the bridge accepts is valid: a multicast group, a non-zero port, every number in
  its documented range, at least one source, and source ids and endpoints all distinct.\<close>

theorem accepted_bridge_config_ok:
  assumes "build_bridge_config pton ifs file = (cfg, [])"
  shows "bridge_config_ok cfg \<and> length (sources cfg) = length (named file ''source'')"
proof -
  have i32: "\<And>whr g key lo hi old errors v. read_i32 whr g key lo hi (old, errors) = (v, []) \<Longrightarrow>
      (lo \<le> old \<and> old \<le> hi \<longrightarrow> errors = [] \<and> lo \<le> v \<and> v \<le> hi)"
    using read_i32_clean by blast
  have mds: "\<And>whr g errors v. read_u32 whr g ''max_datagram_size'' (of_nat (kHeaderSize + 1)) (of_nat kMaxUdpPayload)
      (1400, errors) = (v, []) \<Longrightarrow> errors = [] \<and> kHeaderSize + 1 \<le> unat v \<and> unat v \<le> kMaxUdpPayload"
    by (drule read_u32_clean) (simp_all add: kHeaderSize_def kMaxUdpPayload_def)
  let ?scan0 = "\<lambda>errors. \<lparr>sc_ids = [], sc_endpoints = [], sc_sources = [], sc_errors = errors\<rparr>"
  have "scan_ok (?scan0 e)" for e by (simp add: scan_ok_def)
  then have srcs: "\<And>e ss. sc_errors (read_sources 0 ss (?scan0 e)) = [] \<Longrightarrow>
      e = [] \<and> scan_ok (read_sources 0 ss (?scan0 e)) \<and> length (sc_sources (read_sources 0 ss (?scan0 e))) = length ss"
    using read_sources_clean [where i = 0] by fastforce
  define g where "g = global file"
  define whr where "whr = bridge_where []"
  define e0 where "e0 = concat (map (\<lambda>e. err_if (ce_key e \<notin> set kKnownGlobalKeys)
              (quoted_in ''unknown option '' (ce_key e) (line_text (ce_line e)))) (cs_entries g)) @
            concat (map (\<lambda>s. err_if (cs_name s \<noteq> [] \<and> cs_name s \<noteq> ''source'')
              (''unknown section ['' @ cs_name s @ '']'' @ line_text (cs_line s))) file)"
  obtain group e1 where 1: "read_group pton (read_str g ''multicast_group'' []) 0 = (group, e1)" by fastforce
  obtain port e2 where 2: "read_port g 0 = (port, e2)" by fastforce
  obtain iface e3 where 3: "read_interface pton ifs (read_str g ''multicast_interface'' []) 0 = (iface, e3)" by fastforce
  obtain ttl e4 where 4: "read_i32 whr g ''multicast_ttl'' 0 255 (1, ((e0 @ e1) @ e2) @ e3) = (ttl, e4)" by fastforce
  obtain lb e5 where 5: "read_boolean whr g ''multicast_loopback'' (True, e4) = (lb, e5)" by fastforce
  obtain md e6 where 6: "read_u32 whr g ''max_datagram_size'' (of_nat (kHeaderSize + 1)) (of_nat kMaxUdpPayload) (1400, e5) = (md, e6)"
    by fastforce
  obtain sb e7 where 7: "read_i32 whr g ''send_buffer_bytes'' 0 (2 ^ 30) (4 * 1024 * 1024, e6) = (sb, e7)" by fastforce
  obtain st e8 where 8: "read_i32 whr g ''send_timeout_ms'' 0 60000 (100, e7) = (st, e8)" by fastforce
  obtain th e9 where 9: "read_i32 whr g ''zmq_io_threads'' 1 64 (1, e8) = (th, e9)" by fastforce
  obtain hw e10 where 10: "read_i32 whr g ''zmq_recv_hwm'' 0 10000000 (10000, e9) = (hw, e10)" by fastforce
  obtain ba e11 where 11: "read_i32 whr g ''max_messages_per_poll'' 1 100000 (32, e10) = (ba, e11)" by fastforce
  obtain iv e12 where 12: "read_i32 whr g ''reconnect_ivl_ms'' 1 600000 (100, e11) = (iv, e12)" by fastforce
  obtain si e13 where 13: "read_i32 whr g ''stats_interval_ms'' 0 3600000 (5000, e12) = (si, e13)" by fastforce
  obtain lv e14 where 14: "read_log_level g LogInfo = (lv, e14)" by fastforce
  define scan where "scan = read_sources 0 (named file ''source'') (?scan0 (e13 @ e14))"
  have "build_bridge_config pton ifs file = (\<lparr>multicast_group_text = read_str g ''multicast_group'' [], multicast_group = group,
       multicast_port = port, multicast_interface_text = read_str g ''multicast_interface'' [], multicast_interface = iface,
       multicast_ttl = ttl, multicast_loopback = lb, max_datagram_size = md, send_buffer_bytes = sb, send_timeout_ms = st,
       zmq_io_threads = th, zmq_recv_hwm = hw, max_messages_per_poll = ba, reconnect_ivl_ms = iv, stats_interval_ms = si,
       log_level = lv, sources = sc_sources scan\<rparr>,
       sc_errors scan @ err_if (sc_sources scan = []) ''at least one [source] section is required'')"
    unfolding build_bridge_config_def Let_def g_def [symmetric] whr_def [symmetric] default_BridgeConfig_def
      BridgeConfig.simps e0_def [symmetric] 1 2 3 prod.case 4 5 6 7 8 9 10 11 12 13 14 scan_def [symmetric] ..
  then have steps: "sc_errors scan = []" "sc_sources scan \<noteq> []"
    "cfg = \<lparr>multicast_group_text = read_str g ''multicast_group'' [], multicast_group = group,
       multicast_port = port, multicast_interface_text = read_str g ''multicast_interface'' [], multicast_interface = iface,
       multicast_ttl = ttl, multicast_loopback = lb, max_datagram_size = md, send_buffer_bytes = sb, send_timeout_ms = st,
       zmq_io_threads = th, zmq_recv_hwm = hw, max_messages_per_poll = ba, reconnect_ivl_ms = iv, stats_interval_ms = si,
       log_level = lv, sources = sc_sources scan\<rparr>"
    using assms by simp_all
  note s13 = srcs [OF steps(1) [unfolded scan_def]]
  then have "e13 = []" "e14 = []" by simp_all
  then have "e12 = [] \<and> 0 \<le> si \<and> si \<le> 3600000" using i32 [of whr g _ 0 3600000 5000 e12] 13 by simp
  moreover from this have "e11 = [] \<and> 1 \<le> iv \<and> iv \<le> 600000" using i32 [of whr g _ 1 600000 100 e11] 12 by simp
  moreover from this have "e10 = [] \<and> 1 \<le> ba \<and> ba \<le> 100000" using i32 [of whr g _ 1 100000 32 e10] 11 by simp
  moreover from this have "e9 = [] \<and> 0 \<le> hw \<and> hw \<le> 10000000" using i32 [of whr g _ 0 10000000 10000 e9] 10 by simp
  moreover from this have "e8 = [] \<and> 1 \<le> th \<and> th \<le> 64" using i32 [of whr g _ 1 64 1 e8] 9 by simp
  moreover from this have "e7 = [] \<and> 0 \<le> st \<and> st \<le> 60000" using i32 [of whr g _ 0 60000 100 e7] 8 by simp
  moreover from this have "e6 = [] \<and> 0 \<le> sb \<and> sb \<le> 2 ^ 30" using i32 [of whr g _ 0 "2 ^ 30" _ e6] 7 by simp
  moreover from this have "e5 = [] \<and> kHeaderSize + 1 \<le> unat md \<and> unat md \<le> kMaxUdpPayload" using mds [of whr g e5] 6 by simp
  moreover from this have "e4 = []" using read_boolean_clean 5 by blast
  moreover from this have "((e0 @ e1) @ e2) @ e3 = [] \<and> 0 \<le> ttl \<and> ttl \<le> 255"
    using i32 [of whr g _ 0 255 1 "((e0 @ e1) @ e2) @ e3"] 4 by simp
  moreover from this have "is_multicast_ipv4 group" "port \<noteq> 0"
    using read_group_clean read_port_clean 1 2 by auto
  ultimately show ?thesis
    using s13 steps by (auto simp: scan_def bridge_config_ok_def scan_ok_def)
qed

definition sample_entry :: "string \<Rightarrow> string \<Rightarrow> ConfigEntry" where
  "sample_entry k v = \<lparr>ce_key = k, ce_value = v, ce_line = 0\<rparr>"

definition sample_bridge_file :: ConfigFile where
  "sample_bridge_file =
     [\<lparr>cs_name = [], cs_line = 0, cs_entries = [sample_entry ''multicast_group'' ''239.1.1.1'',
        sample_entry ''multicast_port'' ''5000'', sample_entry ''max_datagram_size'' ''0x200'']\<rparr>,
      \<lparr>cs_name = ''source'', cs_line = 4, cs_entries = [sample_entry ''id'' ''1'', sample_entry ''endpoint'' ''ipc:///a'']\<rparr>,
      \<lparr>cs_name = ''source'', cs_line = 7, cs_entries = [sample_entry ''id'' ''2'', sample_entry ''endpoint'' ''ipc:///b'',
        sample_entry ''filter'' ''A'']\<rparr>]"

definition sample_pton :: "string \<Rightarrow> u32 option" where
  "sample_pton s = (if s = ''239.1.1.1'' then Some 0xEF010101 else None)"

lemmas number_eval = trim_def is_space_def c_str_def scan_integer_def scan_magnitude_def is_digit_def digit_value_def
  digits_value_def less_eq_char_def Let_def

lemmas config_eval = Let_def global_def named_def find_entry_def get_value_def read_str_def read_group_def read_port_def
  read_interface_def read_i32_def read_u32_def read_boolean_def read_log_level_def parse_ipv4_def is_multicast_ipv4_def
  resolve_interface_ipv4_def parse_u32_def parse_u16_def trim_def is_space_def c_str_def err_if_def

lemma sample_numbers:
  "parse_u64 ''5000'' = Inr 5000" "parse_u64 ''1'' = Inr 1" "parse_u64 ''2'' = Inr 2" "parse_u64 ''0x200'' = Inr 0x200"
  by (simp_all add: parse_u64_def number_eval)

lemma sample_bridge_file_accepted: "snd (build_bridge_config sample_pton (Inr []) sample_bridge_file) = []"
  by (simp add: build_bridge_config_def default_BridgeConfig_def config_eval kKnownGlobalKeys_def kKnownSourceKeys_def
      sample_bridge_file_def sample_entry_def sample_pton_def sample_numbers const_defs read_source_def read_source_id_def
      read_source_endpoint_def read_source_filters_def default_BridgeSourceConfig_def)

theorem accepted_bridge_config_ok_witness:
  "bridge_config_ok (fst (build_bridge_config sample_pton (Inr []) sample_bridge_file))"
  using accepted_bridge_config_ok [of sample_pton "Inr []" sample_bridge_file
      "fst (build_bridge_config sample_pton (Inr []) sample_bridge_file)"] sample_bridge_file_accepted
  by (simp add: prod_eq_iff)

end
