(* ===== verification/Platform.thy ===== *)
theory Platform
  imports Relay_Prelude
begin

text \<open>
  The boundary to the operating system and to ZeroMQ, as the components see it: what a system or
  library call can report (an errno, a datagram, a frame, the result of a poll), and the thin wrappers of
  src/common/zmq_util.cpp and src/common/udp_multicast.cpp around those calls, which are parameters on a
  world state \<open>'w\<close>. Both wrappers retry EINTR without a bound, so they are partial functions.
\<close>

datatype Errno = E_AGAIN | E_INTR | E_OTHER nat

datatype SendResult = Sent nat | SendFailed Errno

datatype RecvResult = Frame "byte list" bool | RecvFailed Errno

datatype PollResult = PollFailed Errno | Ready nat "bool list"

text \<open>One \<open>recvmsg\<close>: the datagram, whole (MSG_TRUNC), and the SO_RXQ_OVFL values of its control messages.\<close>

datatype MsgResult = Msg "byte list" "u32 list" | MsgFailed Errno

text \<open>time_util.hpp: nanoseconds per millisecond.\<close>

definition kNsPerMs :: u64 where [const_defs]: "kNsPerMs = 1000000"

section \<open>zmq_util.cpp\<close>

text \<open>The integer is the result: 1 a message, 0 nothing there, -1 an error.\<close>

partial_function (option) recv_multipart_loop ::
  "('w \<Rightarrow> RecvResult \<times> 'w) \<Rightarrow> byte list list \<Rightarrow> 'w \<Rightarrow> (int \<times> byte list list \<times> 'w) option"
where
  "recv_multipart_loop recv frames w =
     (case recv w of
        (RecvFailed err, w) \<Rightarrow>
          if err = E_AGAIN \<and> frames = [] then Some (0, frames, w)
          else if err = E_INTR then recv_multipart_loop recv frames w
          else Some (-1, frames, w)
      | (Frame d has_more, w) \<Rightarrow>
          if has_more then recv_multipart_loop recv (frames @ [d]) w else Some (1, frames @ [d], w))"

definition zmq_recv_multipart_nowait ::
  "('w \<Rightarrow> RecvResult \<times> 'w) \<Rightarrow> 'w \<Rightarrow> (int \<times> byte list list \<times> 'w) option"
where
  "zmq_recv_multipart_nowait recv w = recv_multipart_loop recv [] w"

text \<open>\<open>send bytes has_more w\<close> is one \<open>zmq_send\<close>; the boolean of its result says that it went out.\<close>

fun zmq_send_frames :: "(string \<Rightarrow> bool \<Rightarrow> 'w \<Rightarrow> bool \<times> 'w) \<Rightarrow> string list \<Rightarrow> 'w \<Rightarrow> bool \<times> 'w" where
  "zmq_send_frames send [] w = (True, w)"
| "zmq_send_frames send (f # fs) w =
     (case send f (fs \<noteq> []) w of
        (False, w) \<Rightarrow> (False, w)
      | (True, w) \<Rightarrow> zmq_send_frames send fs w)"

section \<open>UdpMulticastReceiver::receive\<close>

text \<open>The result is the length of the datagram, even where the buffer is shorter, 0 when there is none, -1 on an error;
  then the buffer, and the kernel's drop counter.\<close>

partial_function (option) udp_receive ::
  "('w \<Rightarrow> MsgResult \<times> 'w) \<Rightarrow> byte list \<Rightarrow> u32 \<Rightarrow> 'w \<Rightarrow> (int \<times> byte list \<times> u32 \<times> 'w) option"
where
  "udp_receive recvmsg buf kernel_drops w =
     (case recvmsg w of
        (MsgFailed err, w) \<Rightarrow>
          if err = E_INTR then udp_receive recvmsg buf kernel_drops w
          else if err = E_AGAIN then Some (0, buf, kernel_drops, w)
          else Some (-1, buf, kernel_drops, w)
      | (Msg d drops, w) \<Rightarrow>
          Some (int (length d), store buf 0 (take (length buf) d), (if drops = [] then kernel_drops else last drops), w))"

lemma udp_receive_length:
  assumes "udp_receive recvmsg buf drops w = Some r"
  shows "length (fst (snd r)) = length buf"
  by (rule udp_receive.raw_induct [of "\<lambda>_ buf _ _ r. length (fst (snd r)) = length buf", OF _ assms])
    (auto split: prod.splits MsgResult.splits if_splits simp: store_def min_def)

end
