(* ===== verification/Bridge.thy ===== *)
theory Bridge
  imports Bridge_Config Reassembler Platform
begin

text \<open>
  The bridge core: include/ipcrelay/bridge/bridge.hpp and src/bridge/bridge.cpp. ZeroMQ, the
  UDP socket and the clock are the parameter \<open>env\<close>, functions on an arbitrary world state
  \<open>'w\<close>; \<open>be_send\<close> stands for \<open>UdpMulticastSender::send\<close> (\<open>sendmsg\<close>, retried on EINTR),
  which receives the header and the payload slice as one datagram. Log output is left out,
  its budget is kept. A \<open>std::size_t\<close> local is a \<open>nat\<close>, the casts of the source truncate.
\<close>

section \<open>State\<close>

record 'w BridgeEnv =
  be_send :: "byte list \<Rightarrow> 'w \<Rightarrow> SendResult \<times> 'w"
  be_recv :: "nat \<Rightarrow> 'w \<Rightarrow> RecvResult \<times> 'w"
  be_clock :: "'w \<Rightarrow> u64 \<times> 'w"
  be_poll :: "int \<Rightarrow> 'w \<Rightarrow> PollResult \<times> 'w"

record BridgeSourceStats =
  bs_messages :: u64
  bs_bytes :: u64
  bs_multipart :: u64
  bs_datagrams :: u64
  bs_fragmented :: u64
  bs_recv_errors :: u64
  bs_send_errors :: u64
  bs_send_timeouts :: u64
  bs_oversize :: u64
  next_sequence :: u64

definition zero_BridgeSourceStats :: BridgeSourceStats where
  "zero_BridgeSourceStats =
     \<lparr>bs_messages = 0, bs_bytes = 0, bs_multipart = 0, bs_datagrams = 0, bs_fragmented = 0, bs_recv_errors = 0,
      bs_send_errors = 0, bs_send_timeouts = 0, bs_oversize = 0, next_sequence = 0\<rparr>"

record BridgeStats =
  datagrams_sent :: u64
  bytes_sent :: u64
  b_send_errors :: u64
  b_send_timeouts :: u64
  poll_errors :: u64
  poll_iterations :: u64
  max_batch_hits :: u64

definition zero_BridgeStats :: BridgeStats where
  "zero_BridgeStats =
     \<lparr>datagrams_sent = 0, bytes_sent = 0, b_send_errors = 0, b_send_timeouts = 0, poll_errors = 0,
      poll_iterations = 0, max_batch_hits = 0\<rparr>"

record Bridge =
  b_cfg :: BridgeConfig
  b_stats :: BridgeStats
  source_stats :: "BridgeSourceStats list"
  concat_buf :: "byte list"
  send_error_log_budget :: u64

text \<open>The state after \<open>init\<close> has opened one socket per source (theory Bridge_Program).\<close>

definition new_Bridge :: "BridgeConfig \<Rightarrow> Bridge" where
  "new_Bridge cfg =
     \<lparr>b_cfg = cfg, b_stats = zero_BridgeStats,
      source_stats = replicate (length (sources cfg)) zero_BridgeSourceStats,
      concat_buf = [], send_error_log_budget = 10\<rparr>"

definition on_source :: "nat \<Rightarrow> (BridgeSourceStats \<Rightarrow> BridgeSourceStats) \<Rightarrow> Bridge \<Rightarrow> Bridge" where
  "on_source i f b = b\<lparr>source_stats := (source_stats b)[i := f (source_stats b ! i)]\<rparr>"

definition on_stats :: "(BridgeStats \<Rightarrow> BridgeStats) \<Rightarrow> Bridge \<Rightarrow> Bridge" where
  "on_stats f b = b\<lparr>b_stats := f (b_stats b)\<rparr>"

section \<open>Transmitting one message\<close>

definition note_send_failure :: "nat \<Rightarrow> Errno \<Rightarrow> Bridge \<Rightarrow> Bridge" where
  "note_send_failure i err b =
     (let b = (if err = E_AGAIN
               then on_stats (\<lambda>s. s\<lparr>b_send_timeouts := b_send_timeouts s + 1\<rparr>)
                      (on_source i (\<lambda>s. s\<lparr>bs_send_timeouts := bs_send_timeouts s + 1\<rparr>) b)
               else on_stats (\<lambda>s. s\<lparr>b_send_errors := b_send_errors s + 1\<rparr>)
                      (on_source i (\<lambda>s. s\<lparr>bs_send_errors := bs_send_errors s + 1\<rparr>) b))
      in if send_error_log_budget b > 0 then b\<lparr>send_error_log_budget := send_error_log_budget b - 1\<rparr> else b)"

definition note_sent :: "nat \<Rightarrow> nat \<Rightarrow> Bridge \<Rightarrow> Bridge" where
  "note_sent i sent b =
     on_stats (\<lambda>s. s\<lparr>datagrams_sent := datagrams_sent s + 1, bytes_sent := bytes_sent s + of_nat sent\<rparr>)
       (on_source i (\<lambda>s. s\<lparr>bs_datagrams := bs_datagrams s + 1\<rparr>) b)"

text \<open>The loop over the fragments; the first number is the count of iterations left.\<close>

fun send_fragments ::
  "'w BridgeEnv \<Rightarrow> nat \<Rightarrow> byte list \<Rightarrow> nat \<Rightarrow> Header \<Rightarrow> nat \<Rightarrow> nat \<Rightarrow> nat \<Rightarrow> Bridge \<Rightarrow> 'w \<Rightarrow> bool \<times> Bridge \<times> 'w"
where
  "send_fragments env index data chunk h 0 i offset b w = (True, b, w)"
| "send_fragments env index data chunk h (Suc left) i offset b w =
     (let n = (if length data - offset < chunk then length data - offset else chunk);
          h = h\<lparr>fragment_index := of_nat i, fragment_offset := of_nat offset, fragment_length := of_nat n\<rparr>;
          hdr_bytes = encode_header h (replicate kHeaderSize 0);
          (sent, w) = be_send env (hdr_bytes @ take n (drop offset data)) w
      in case sent of
           SendFailed err \<Rightarrow> (False, note_send_failure index err b, w)
         | Sent m \<Rightarrow> send_fragments env index data chunk h left (i + 1) (offset + n) (note_sent index m b) w)"

definition transmit ::
  "'w BridgeEnv \<Rightarrow> nat \<Rightarrow> byte list \<Rightarrow> u16 \<Rightarrow> u64 \<Rightarrow> Bridge \<Rightarrow> 'w \<Rightarrow> bool \<times> Bridge \<times> 'w"
where
  "transmit env index data flgs ts b w =
     (let seq = next_sequence (source_stats b ! index);
          b = on_source index (\<lambda>s. s\<lparr>bs_messages := bs_messages s + 1, bs_bytes := bs_bytes s + of_nat (length data),
                next_sequence := next_sequence s + 1\<rparr>) b;
          chunk = ucast (fragment_payload (b_cfg b)) :: u64;
          count = fragment_count_for (of_nat (length data)) chunk
      in if of_nat (length data) > kMaxMessageLength \<or> count > 0xFFFF
         then (False, on_source index (\<lambda>s. s\<lparr>bs_oversize := bs_oversize s + 1\<rparr>) b, w)
         else
           let (b, flgs) = (if count > 1
                            then (on_source index (\<lambda>s. s\<lparr>bs_fragmented := bs_fragmented s + 1\<rparr>) b, flgs OR kFlagFragmented)
                            else (b, flgs));
               h = default_Header\<lparr>flags := flgs, source_id := bs_id (sources (b_cfg b) ! index),
                     message_length := of_nat (length data), sequence := seq, timestamp_ns := ts,
                     fragment_count := ucast count\<rparr>
           in send_fragments env index data (unat chunk) h (unat count) 0 0 b w)"

section \<open>Servicing a source\<close>

text \<open>The remaining frames of a multipart message. EINTR is retried without a bound.\<close>

partial_function (option) recv_parts ::
  "'w BridgeEnv \<Rightarrow> nat \<Rightarrow> byte list \<Rightarrow> 'w \<Rightarrow> (bool \<times> byte list \<times> 'w) option"
where
  "recv_parts env index acc w =
     (case be_recv env index w of
        (RecvFailed err, w) \<Rightarrow> if err = E_INTR then recv_parts env index acc w else Some (False, acc, w)
      | (Frame d has_more, w) \<Rightarrow> if has_more then recv_parts env index (acc @ d) w else Some (True, acc @ d, w))"

definition note_recv_error :: "nat \<Rightarrow> Bridge \<Rightarrow> Bridge" where
  "note_recv_error index = on_source index (\<lambda>s. s\<lparr>bs_recv_errors := bs_recv_errors s + 1\<rparr>)"

fun service_loop :: "'w BridgeEnv \<Rightarrow> nat \<Rightarrow> nat \<Rightarrow> Bridge \<Rightarrow> 'w \<Rightarrow> (Bridge \<times> 'w) option" where
  "service_loop env index 0 b w = Some (on_stats (\<lambda>s. s\<lparr>max_batch_hits := max_batch_hits s + 1\<rparr>) b, w)"
| "service_loop env index (Suc budget) b w =
     (case be_recv env index w of
        (RecvFailed err, w) \<Rightarrow>
          if err = E_AGAIN then Some (b, w)
          else if err = E_INTR then service_loop env index budget b w
          else Some (note_recv_error index b, w)
      | (Frame d has_more, w) \<Rightarrow>
          let (ts, w) = be_clock env w in
          if \<not> has_more then
            let (_, b, w) = transmit env index d 0 ts b w in service_loop env index budget b w
          else
            (case recv_parts env index d w of
               None \<Rightarrow> None
             | Some (good, payload, w) \<Rightarrow>
                 let b = b\<lparr>concat_buf := payload\<rparr> in
                 if \<not> good then Some (note_recv_error index b, w)
                 else
                   let b = on_source index (\<lambda>s. s\<lparr>bs_multipart := bs_multipart s + 1\<rparr>) b;
                       (_, b, w) = transmit env index payload kFlagMultipart ts b w
                   in service_loop env index budget b w))"

definition service_source :: "'w BridgeEnv \<Rightarrow> nat \<Rightarrow> Bridge \<Rightarrow> 'w \<Rightarrow> (Bridge \<times> 'w) option" where
  "service_source env index b w = service_loop env index (nat (max_messages_per_poll (b_cfg b))) b w"

fun service_ready :: "'w BridgeEnv \<Rightarrow> nat \<Rightarrow> bool list \<Rightarrow> Bridge \<Rightarrow> 'w \<Rightarrow> (Bridge \<times> 'w) option" where
  "service_ready env i [] b w = Some (b, w)"
| "service_ready env i (ready # rs) b w =
     (if ready then
        (case service_source env i b w of
           None \<Rightarrow> None
         | Some (b, w) \<Rightarrow> service_ready env (i + 1) rs b w)
      else service_ready env (i + 1) rs b w)"

definition poll_once :: "'w BridgeEnv \<Rightarrow> int \<Rightarrow> Bridge \<Rightarrow> 'w \<Rightarrow> (bool \<times> Bridge \<times> 'w) option" where
  "poll_once env timeout_ms b w =
     (let (res, w) = be_poll env timeout_ms w;
          b = on_stats (\<lambda>s. s\<lparr>poll_iterations := poll_iterations s + 1\<rparr>) b
      in case res of
           PollFailed err \<Rightarrow>
             if err = E_INTR then Some (True, b, w)
             else Some (err = E_AGAIN, on_stats (\<lambda>s. s\<lparr>poll_errors := poll_errors s + 1\<rparr>) b, w)
         | Ready rc revents \<Rightarrow>
             if rc = 0 then Some (True, b, w)
             else (case service_ready env 0 revents b w of
                     None \<Rightarrow> None
                   | Some (b, w) \<Rightarrow> Some (True, b, w)))"

section \<open>The datagrams of a message\<close>

text \<open>The abstract view: how many datagrams a message takes, and what each of them is.\<close>

definition oversize :: "BridgeConfig \<Rightarrow> byte list \<Rightarrow> bool" where
  "oversize cfg data \<longleftrightarrow>
     2 ^ 32 - 1 < length data \<or> 0xFFFF * unat (fragment_payload cfg) < length data"

definition pieces_of :: "BridgeConfig \<Rightarrow> byte list \<Rightarrow> nat" where
  "pieces_of cfg data =
     (if data = [] then 1 else (length data + unat (fragment_payload cfg) - 1) div unat (fragment_payload cfg))"

definition piece_of :: "BridgeConfig \<Rightarrow> byte list \<Rightarrow> nat \<Rightarrow> byte list" where
  "piece_of cfg data i = take (unat (fragment_payload cfg)) (drop (i * unat (fragment_payload cfg)) data)"

definition message_header :: "BridgeConfig \<Rightarrow> u32 \<Rightarrow> u64 \<Rightarrow> u64 \<Rightarrow> u16 \<Rightarrow> byte list \<Rightarrow> nat \<Rightarrow> Header" where
  "message_header cfg src seq ts flgs data i =
     \<lparr>version = kVersion, flags = (if 1 < pieces_of cfg data then flgs OR kFlagFragmented else flgs),
      source_id = src, message_length = of_nat (length data), sequence = seq, timestamp_ns = ts,
      fragment_offset = of_nat (i * unat (fragment_payload cfg)), fragment_index = of_nat i,
      fragment_count = of_nat (pieces_of cfg data), fragment_length = of_nat (length (piece_of cfg data i))\<rparr>"

definition message_datagrams ::
  "BridgeConfig \<Rightarrow> u32 \<Rightarrow> u64 \<Rightarrow> u64 \<Rightarrow> u16 \<Rightarrow> byte list \<Rightarrow> byte list list"
where
  "message_datagrams cfg src seq ts flgs data =
     map (\<lambda>i. header_bytes (message_header cfg src seq ts flgs data i) @ piece_of cfg data i) [0..<pieces_of cfg data]"

text \<open>Sending a list of datagrams until one fails: how many went out, the error, the world.\<close>

fun send_all :: "'w BridgeEnv \<Rightarrow> byte list list \<Rightarrow> 'w \<Rightarrow> nat \<times> Errno option \<times> 'w" where
  "send_all env [] w = (0, None, w)"
| "send_all env (d # ds) w =
     (case be_send env d w of
        (SendFailed err, w) \<Rightarrow> (0, Some err, w)
      | (Sent m, w) \<Rightarrow> (case send_all env ds w of (k, err, w) \<Rightarrow> (Suc k, err, w)))"

section \<open>Pieces\<close>

lemma ceil_div_gt:
  fixes m c k :: nat
  assumes "0 < c"
  shows "k < (m + c - 1) div c \<longleftrightarrow> k * c < m"
proof -
  have "k < (m + c - 1) div c \<longleftrightarrow> (k + 1) * c \<le> m + c - 1"
    using assms by (metis Suc_eq_plus1 Suc_le_eq less_eq_div_iff_mult_less_eq)
  with assms show ?thesis by auto
qed

lemma pieces_of_pos: "0 < unat (fragment_payload cfg) \<Longrightarrow> 0 < pieces_of cfg data"
  using ceil_div_gt [of "unat (fragment_payload cfg)" 0 "length data"] by (auto simp: pieces_of_def)

lemma piece_start:
  assumes "0 < unat (fragment_payload cfg)" "i < pieces_of cfg data"
  shows "i * unat (fragment_payload cfg) \<le> length data" "data \<noteq> [] \<Longrightarrow> i * unat (fragment_payload cfg) < length data"
  using assms ceil_div_gt [OF assms(1), of i "length data"] by (auto simp: pieces_of_def split: if_splits)

lemma length_piece:
  "length (piece_of cfg data i) = min (length data - i * unat (fragment_payload cfg)) (unat (fragment_payload cfg))"
  by (simp add: piece_of_def)

lemma piece_full:
  assumes "0 < unat (fragment_payload cfg)" "Suc i < pieces_of cfg data"
  shows "length (piece_of cfg data i) = unat (fragment_payload cfg)"
  using piece_start [OF assms] assms(2) by (auto simp: length_piece pieces_of_def split: if_splits)

lemma piece_last:
  assumes "0 < unat (fragment_payload cfg)" "Suc i = pieces_of cfg data"
  shows "i * unat (fragment_payload cfg) + length (piece_of cfg data i) = length data"
proof (cases "data = []")
  case True
  with assms(2) show ?thesis by (simp add: pieces_of_def piece_of_def)
next
  case False
  have "\<not> Suc i * unat (fragment_payload cfg) < length data"
    using ceil_div_gt [OF assms(1), of "Suc i" "length data"] assms(2) False by (simp add: pieces_of_def)
  moreover have "i * unat (fragment_payload cfg) \<le> length data" using piece_start(1) [OF assms(1)] assms(2) by simp
  ultimately show ?thesis by (simp add: length_piece)
qed

lemma concat_pieces:
  assumes "0 < unat (fragment_payload cfg)"
  shows "concat (map (piece_of cfg data) [0..<pieces_of cfg data]) = data"
proof -
  have "concat (map (piece_of cfg data) [0..<n]) = take (n * unat (fragment_payload cfg)) data"
    if "n \<le> pieces_of cfg data" for n
    using that by (induction n) (simp_all add: piece_of_def take_add add.commute [of "unat (fragment_payload cfg)"])
  moreover have "length data \<le> pieces_of cfg data * unat (fragment_payload cfg)"
    using ceil_div_gt [OF assms, of "pieces_of cfg data" "length data"] by (cases "data = []") (auto simp: pieces_of_def)
  ultimately show ?thesis by simp
qed

lemma oversize_pieces:
  "0 < unat (fragment_payload cfg) \<Longrightarrow> oversize cfg data \<longleftrightarrow> 2 ^ 32 - 1 < length data \<or> 0xFFFF < pieces_of cfg data"
  using ceil_div_gt [of "unat (fragment_payload cfg)" "0xFFFF" "length data"] by (auto simp: oversize_def pieces_of_def)

section \<open>The loop sends the datagrams of the message\<close>

lemma on_source_simps [simp]:
  "b_cfg (on_source i f b) = b_cfg b" "b_stats (on_source i f b) = b_stats b"
  "length (source_stats (on_source i f b)) = length (source_stats b)"
  "send_error_log_budget (on_source i f b) = send_error_log_budget b"
  "source_stats (on_source i f b) = (source_stats b)[i := f (source_stats b ! i)]"
  by (simp_all add: on_source_def)

lemma on_stats_simps [simp]:
  "b_cfg (on_stats f b) = b_cfg b" "b_stats (on_stats f b) = f (b_stats b)"
  "source_stats (on_stats f b) = source_stats b" "send_error_log_budget (on_stats f b) = send_error_log_budget b"
  by (simp_all add: on_stats_def)

text \<open>The counters after \<open>k\<close> datagrams went out and then possibly an error came.\<close>

definition sent_by :: "nat \<Rightarrow> nat \<Rightarrow> Errno option \<Rightarrow> Bridge \<Rightarrow> Bridge \<Rightarrow> bool" where
  "sent_by index k err b b' \<longleftrightarrow>
     b_cfg b' = b_cfg b \<and> length (source_stats b') = length (source_stats b) \<and>
     (\<forall>j. j \<noteq> index \<longrightarrow> source_stats b' ! j = source_stats b ! j) \<and>
     next_sequence (source_stats b' ! index) = next_sequence (source_stats b ! index) \<and>
     bs_messages (source_stats b' ! index) = bs_messages (source_stats b ! index) \<and>
     bs_oversize (source_stats b' ! index) = bs_oversize (source_stats b ! index) \<and>
     bs_datagrams (source_stats b' ! index) = bs_datagrams (source_stats b ! index) + of_nat k \<and>
     datagrams_sent (b_stats b') = datagrams_sent (b_stats b) + of_nat k \<and>
     b_send_timeouts (b_stats b') = b_send_timeouts (b_stats b) + (if err = Some E_AGAIN then 1 else 0) \<and>
     b_send_errors (b_stats b') = b_send_errors (b_stats b) + (if err \<notin> {None, Some E_AGAIN} then 1 else 0)"

lemma sent_by_failure: "index < length (source_stats b) \<Longrightarrow> sent_by index 0 (Some err) b (note_send_failure index err b)"
  by (simp add: sent_by_def note_send_failure_def Let_def)

lemma sent_by_step:
  "index < length (source_stats b) \<Longrightarrow> sent_by index k err (note_sent index m b) b' \<Longrightarrow> sent_by index (Suc k) err b b'"
  by (auto simp: sent_by_def note_sent_def)

lemma send_fragments_send_all:
  assumes "0 < unat (fragment_payload cfg)" "left + i = pieces_of cfg data" "index < length (source_stats b)"
    "h = message_header cfg src seq ts flgs data 0 \<lparr>fragment_index := fi, fragment_offset := fo, fragment_length := fl\<rparr>"
    "send_all env (drop i (message_datagrams cfg src seq ts flgs data)) w = (k, err, w')"
    "0 < left \<Longrightarrow> offset = i * unat (fragment_payload cfg)"
  shows "\<exists>b'. send_fragments env index data (unat (fragment_payload cfg)) h left i offset b w = (err = None, b', w') \<and>
    sent_by index k err b b'"
  using assms(2-)
proof (induction left arbitrary: i offset b w k h fi fo fl)
  case 0
  then show ?case by (simp add: message_datagrams_def sent_by_def)
next
  case (Suc left)
  let ?c = "unat (fragment_payload cfg)" and ?hi = "message_header cfg src seq ts flgs data i"
  have i: "i < pieces_of cfg data" using Suc.prems(1) by simp
  have off: "offset = i * ?c" using Suc.prems(5) by simp
  have n: "(if length data - offset < ?c then length data - offset else ?c) = length (piece_of cfg data i)"
    by (simp add: off length_piece)
  have hi: "h\<lparr>fragment_index := of_nat i, fragment_offset := of_nat offset,
      fragment_length := of_nat (length (piece_of cfg data i))\<rparr> = ?hi"
    using Suc.prems(3) by (simp add: message_header_def off)
  have piece: "take (length (piece_of cfg data i)) (drop offset data) = piece_of cfg data i"
    by (simp add: piece_of_def off min_def)
  have enc: "encode_header ?hi (replicate kHeaderSize 0) = header_bytes ?hi" by (simp add: encode_header_eq)
  let ?d = "header_bytes ?hi @ piece_of cfg data i"
  have drop: "drop i (message_datagrams cfg src seq ts flgs data) = ?d # drop (Suc i) (message_datagrams cfg src seq ts flgs data)"
    using i by (subst Cons_nth_drop_Suc [symmetric]) (simp_all add: message_datagrams_def)
  obtain res w1 where send: "be_send env ?d w = (res, w1)" by fastforce
  show ?case
  proof (cases res)
    case (SendFailed e)
    with send Suc.prems(2,4) show ?thesis
      unfolding drop by (auto simp: n hi piece enc Let_def intro: sent_by_failure)
  next
    case (Sent m)
    obtain k1 where k1: "send_all env (drop (Suc i) (message_datagrams cfg src seq ts flgs data)) w1 = (k1, err, w')" "k = Suc k1"
      using Suc.prems(4) Sent send unfolding drop by (auto split: prod.splits)
    have next_off: "0 < left \<Longrightarrow> offset + length (piece_of cfg data i) = Suc i * ?c"
      using piece_full [OF assms(1), of i data] Suc.prems(1) by (simp add: off)
    have "\<exists>b'. send_fragments env index data ?c ?hi left (Suc i) (offset + length (piece_of cfg data i)) (note_sent index m b) w1
        = (err = None, b', w') \<and> sent_by index k1 err (note_sent index m b) b'"
      using Suc.prems(1,2) k1(1) next_off
      by (intro Suc.IH [where fi = "fragment_index ?hi" and fo = "fragment_offset ?hi" and fl = "fragment_length ?hi"])
        (auto simp: note_sent_def message_header_def)
    then show ?thesis
      using send Sent k1(2) Suc.prems(2) by (auto simp: n hi piece enc Let_def intro: sent_by_step)
  qed
qed

section \<open>The datagrams are valid\<close>

lemma message_header_nat:
  fixes cfg :: BridgeConfig and src :: u32 and seq ts :: u64 and flgs :: u16 and data :: "byte list" and i :: nat
  assumes "bridge_config_ok cfg" "\<not> oversize cfg data" "i < pieces_of cfg data"
  defines "h \<equiv> message_header cfg src seq ts flgs data i"
  shows "unat (message_length h) = length data" "unat (fragment_count h) = pieces_of cfg data"
    "unat (fragment_index h) = i" "unat (fragment_offset h) = i * unat (fragment_payload cfg)"
    "unat (fragment_length h) = length (piece_of cfg data i)"
proof -
  note fp = fragment_payload_bounds [OF assms(1)]
  have lim: "length data < 2 ^ 32" "pieces_of cfg data < 2 ^ 16"
    using assms(2) by (auto simp: oversize_pieces [OF fp(2)])
  have "i * unat (fragment_payload cfg) \<le> length data" using piece_start(1) [OF fp(2) assms(3)] .
  then have "unat (of_nat (i * unat (fragment_payload cfg)) :: u32) = i * unat (fragment_payload cfg)"
    using lim by (simp only: unat_of_nat) simp
  moreover have "length (piece_of cfg data i) < 2 ^ 16" using fp(3) by (simp add: length_piece)
  ultimately show "unat (message_length h) = length data" "unat (fragment_count h) = pieces_of cfg data"
    "unat (fragment_index h) = i" "unat (fragment_offset h) = i * unat (fragment_payload cfg)"
    "unat (fragment_length h) = length (piece_of cfg data i)"
    using lim assms(3) by (simp_all add: h_def message_header_def unat_of_nat del: of_nat_mult)
qed

lemma message_header_ok:
  assumes "bridge_config_ok cfg" "\<not> oversize cfg data" "i < pieces_of cfg data" "\<not> bit flgs 0"
  shows "header_ok (message_header cfg src seq ts flgs data i)"
proof -
  let ?h = "message_header cfg src seq ts flgs data i"
  note fp = fragment_payload_bounds [OF assms(1)]
  note n = message_header_nat [OF assms(1-3), where src = src and seq = seq and ts = ts and flgs = flgs]
  have "bit (flags ?h) 0 \<longleftrightarrow> 1 < pieces_of cfg data"
    using assms(4) by (simp add: message_header_def kFlagFragmented_def bit_simps)
  then have "flag_rule ?h" using n(2) by (simp add: flag_rule_def)
  moreover have "range_rule ?h"
    unfolding range_rule_def frag_end_def n
  proof (intro conjI impI)
    show "i * unat (fragment_payload cfg) + length (piece_of cfg data i) \<le> length data"
      using piece_start(1) [OF fp(2) assms(3)] by (simp add: length_piece)
    assume "fragment_count ?h = 1"
    then have "pieces_of cfg data = 1" using n(2) by simp
    then show "fragment_offset ?h = 0" "length (piece_of cfg data i) = length data"
      using assms(3) piece_last [OF fp(2), of i data] by (auto simp: message_header_def)
  next
    assume "Suc i = pieces_of cfg data"
    then show "i * unat (fragment_payload cfg) + length (piece_of cfg data i) = length data"
      by (rule piece_last [OF fp(2)])
  next
    assume "Suc i < pieces_of cfg data"
    then show "0 < length (piece_of cfg data i)" using piece_full [OF fp(2)] fp(2) by simp
  qed
  moreover have "fragment_count ?h \<noteq> 0" using n(2) assms(3) by (metis not_less_zero unat_0)
  ultimately show ?thesis
    using n(2,3) assms(3) by (simp add: header_ok_def word_less_nat_alt) (simp add: message_header_def)
qed

text \<open>The message as the reassembler sees it.\<close>

definition message_cut :: "BridgeConfig \<Rightarrow> u32 \<Rightarrow> u64 \<Rightarrow> u64 \<Rightarrow> u16 \<Rightarrow> byte list \<Rightarrow> Cut" where
  "message_cut cfg src seq ts flgs data =
     \<lparr>c_source = src, c_sequence = seq, c_timestamp = ts, c_flags = flgs OR kFlagFragmented, c_data = data,
      c_count = pieces_of cfg data, c_offs = (\<lambda>i. min (i * unat (fragment_payload cfg)) (length data))\<rparr>"

lemma message_cut_ok:
  assumes "bridge_config_ok cfg" "1 < pieces_of cfg data"
  shows "cut_ok (message_cut cfg src seq ts flgs data)"
proof -
  note fp = fragment_payload_bounds [OF assms(1)]
  have "length data \<le> pieces_of cfg data * unat (fragment_payload cfg)"
    using ceil_div_gt [OF fp(2), of "pieces_of cfg data" "length data"] by (cases "data = []") (auto simp: pieces_of_def)
  then show ?thesis using assms(2) by (simp add: cut_ok_def message_cut_def mono_def min.coboundedI1)
qed

lemma message_fragment_of:
  assumes "bridge_config_ok cfg" "\<not> oversize cfg data" "i < pieces_of cfg data" "\<not> bit flgs 0" "1 < pieces_of cfg data"
  shows "fragment_of (message_cut cfg src seq ts flgs data) i (message_header cfg src seq ts flgs data i) (piece_of cfg data i)"
proof -
  note fp = fragment_payload_bounds [OF assms(1)]
  note n = message_header_nat [OF assms(1-3), where src = src and seq = seq and ts = ts and flgs = flgs]
  have start: "i * unat (fragment_payload cfg) \<le> length data" by (rule piece_start(1) [OF fp(2) assms(3)])
  have "piece_of cfg data i = take (min (Suc i * unat (fragment_payload cfg)) (length data) - i * unat (fragment_payload cfg))
      (drop (i * unat (fragment_payload cfg)) data)"
    using start by (auto simp: piece_of_def min_def)
  then show ?thesis
    using n start message_header_ok [OF assms(1-4)] assms(5)
    by (simp add: fragment_of_def message_cut_def min_absorb1) (simp add: message_header_def)
qed

lemma length_message_datagrams: "length (message_datagrams cfg src seq ts flgs data) = pieces_of cfg data"
  by (simp add: message_datagrams_def)

section \<open>One message\<close>

lemma pieces_of_le:
  assumes "0 < unat (fragment_payload cfg)"
  shows "pieces_of cfg data \<le> Suc (length data)"
proof (cases "data = []")
  case False
  have "\<not> length data * unat (fragment_payload cfg) < length data" using assms by simp
  then have "\<not> length data < pieces_of cfg data"
    using ceil_div_gt [OF assms, of "length data" "length data"] False by (simp add: pieces_of_def)
  then show ?thesis by simp
qed (simp add: pieces_of_def)

lemma transmit_count:
  assumes "bridge_config_ok cfg" "length data < 2 ^ 63"
  shows "unat (fragment_count_for (of_nat (length data)) (ucast (fragment_payload cfg))) = pieces_of cfg data"
proof -
  have len: "unat (of_nat (length data) :: u64) = length data" using assms(2) by (simp add: unat_of_nat)
  have "unat (of_nat (length data) :: u64) + unat (ucast (fragment_payload cfg) :: u64) \<le> 2 ^ 64"
    using assms(2) len fragment_payload_bounds(3) [OF assms(1)] by simp
  from fragment_count_for_nat [OF _ this] show ?thesis
    using fragment_payload_bounds(2) [OF assms(1)] len by (auto simp: pieces_of_def)
qed

text \<open>The state after a message is counted and given its sequence number.\<close>

definition counted :: "nat \<Rightarrow> byte list \<Rightarrow> Bridge \<Rightarrow> Bridge" where
  "counted index data = on_source index (\<lambda>s. s\<lparr>bs_messages := bs_messages s + 1,
     bs_bytes := bs_bytes s + of_nat (length data), next_sequence := next_sequence s + 1\<rparr>)"

definition source_id_of :: "Bridge \<Rightarrow> nat \<Rightarrow> u32" where
  "source_id_of b index = bs_id (sources (b_cfg b) ! index)"

lemma transmit_cases:
  fixes env :: "'w BridgeEnv" and b :: Bridge and ts :: u64 and flgs :: u16 and data :: "byte list" and index :: nat
  assumes "bridge_config_ok (b_cfg b)" "index < length (source_stats b)" "length data < 2 ^ 63"
  defines "ds \<equiv> message_datagrams (b_cfg b) (source_id_of b index) (next_sequence (source_stats b ! index)) ts flgs data"
  shows "oversize (b_cfg b) data \<Longrightarrow> transmit env index data flgs ts b w =
      (False, on_source index (\<lambda>s. s\<lparr>bs_oversize := bs_oversize s + 1\<rparr>) (counted index data b), w)"
    "\<not> oversize (b_cfg b) data \<Longrightarrow> send_all env ds w = (k, err, w') \<Longrightarrow>
      \<exists>b1 b'. transmit env index data flgs ts b w = (err = None, b', w') \<and> sent_by index k err b1 b' \<and>
        b1 = (if 1 < pieces_of (b_cfg b) data
              then on_source index (\<lambda>s. s\<lparr>bs_fragmented := bs_fragmented s + 1\<rparr>) (counted index data b)
              else counted index data b)"
proof -
  note fp = fragment_payload_bounds [OF assms(1)]
  let ?count = "fragment_count_for (of_nat (length data)) (ucast (fragment_payload (b_cfg b)) :: u64)"
  have count: "unat ?count = pieces_of (b_cfg b) data" by (rule transmit_count [OF assms(1,3)])
  have len: "unat (of_nat (length data) :: u64) = length data" using assms(3) by (simp add: unat_of_nat)
  have big: "kMaxMessageLength < of_nat (length data) \<or> 0xFFFF < ?count \<longleftrightarrow> oversize (b_cfg b) data"
    by (simp add: oversize_pieces [OF fp(2)] word_less_nat_alt count len kMaxMessageLength_def)
  have one: "1 < ?count \<longleftrightarrow> 1 < pieces_of (b_cfg b) data" by (simp add: word_less_nat_alt count)
  have cast: "ucast ?count = (of_nat (pieces_of (b_cfg b) data) :: u16)"
    unfolding count [symmetric] by (simp add: word_eq_unat unat_of_nat unsigned_ucast_eq take_bit_eq_mod)
  show "oversize (b_cfg b) data \<Longrightarrow> transmit env index data flgs ts b w =
      (False, on_source index (\<lambda>s. s\<lparr>bs_oversize := bs_oversize s + 1\<rparr>) (counted index data b), w)"
    using big by (simp add: transmit_def Let_def counted_def)
  assume fits: "\<not> oversize (b_cfg b) data" and send: "send_all env ds w = (k, err, w')"
  let ?b1 = "if 1 < pieces_of (b_cfg b) data
    then on_source index (\<lambda>s. s\<lparr>bs_fragmented := bs_fragmented s + 1\<rparr>) (counted index data b) else counted index data b"
  let ?h0 = "message_header (b_cfg b) (source_id_of b index) (next_sequence (source_stats b ! index)) ts flgs data 0"
  let ?h = "?h0\<lparr>fragment_index := 0, fragment_offset := 0, fragment_length := 0\<rparr>"
  have "transmit env index data flgs ts b w =
      send_fragments env index data (unat (fragment_payload (b_cfg b))) ?h (pieces_of (b_cfg b) data) 0 0 ?b1 w"
    using big fits one by (simp add: transmit_def Let_def counted_def count cast message_header_def default_Header_def source_id_of_def)
  moreover have "\<exists>b'. send_fragments env index data (unat (fragment_payload (b_cfg b))) ?h (pieces_of (b_cfg b) data) 0 0 ?b1 w =
      (err = None, b', w') \<and> sent_by index k err ?b1 b'"
    using assms(2) send by (intro send_fragments_send_all [OF fp(2)]) (auto simp: ds_def counted_def)
  ultimately show "\<exists>b1 b'. transmit env index data flgs ts b w = (err = None, b', w') \<and> sent_by index k err b1 b' \<and>
      b1 = ?b1" by auto
qed

section \<open>A reference network\<close>

text \<open>
  A concrete environment: per source the queue of ZeroMQ frames (each with its "more" flag, so
  that a message is a run of frames), the datagrams on the wire, and a clock. Every send
  succeeds. It is the world in which the functional properties are stated.
\<close>

record Net =
  inbox :: "nat \<Rightarrow> (byte list \<times> bool) list"
  outbox :: "byte list list"
  net_time :: u64

definition frames_of :: "byte list list \<Rightarrow> (byte list \<times> bool) list" where
  "frames_of m = map (\<lambda>f. (f, True)) (butlast m) @ [(last m, False)]"

definition net_env :: "nat \<Rightarrow> Net BridgeEnv" where
  "net_env n =
     \<lparr>be_send = (\<lambda>d w. (Sent (length d), w\<lparr>outbox := outbox w @ [d]\<rparr>)),
      be_recv = (\<lambda>i w. case inbox w i of
          [] \<Rightarrow> (RecvFailed E_AGAIN, w)
        | (f, has_more) # q \<Rightarrow> (Frame f has_more, w\<lparr>inbox := (inbox w)(i := q)\<rparr>)),
      be_clock = (\<lambda>w. (net_time w, w)),
      be_poll = (\<lambda>timeout w.
         let ready = map (\<lambda>i. inbox w i \<noteq> []) [0..<n] in (Ready (length (filter id ready)) ready, w))\<rparr>"

lemma net_env_simps:
  "be_clock (net_env n) w = (net_time w, w)"
  "be_send (net_env n) d w = (Sent (length d), w\<lparr>outbox := outbox w @ [d]\<rparr>)"
  "inbox w i = [] \<Longrightarrow> be_recv (net_env n) i w = (RecvFailed E_AGAIN, w)"
  "inbox w i = (f, has_more) # q \<Longrightarrow> be_recv (net_env n) i w = (Frame f has_more, w\<lparr>inbox := (inbox w)(i := q)\<rparr>)"
  by (simp_all add: net_env_def)

lemma net_send_all: "send_all (net_env n) ds w = (length ds, None, w\<lparr>outbox := outbox w @ ds\<rparr>)"
  by (induction ds arbitrary: w) (simp_all add: net_env_def)

lemma net_recv_parts:
  "ps \<noteq> [] \<Longrightarrow> inbox w i = frames_of ps @ q \<Longrightarrow>
   recv_parts (net_env n) i acc w = Some (True, acc @ concat ps, w\<lparr>inbox := (inbox w)(i := q)\<rparr>)"
proof (induction ps arbitrary: acc w)
  case (Cons p ps)
  show ?case
  proof (cases "ps = []")
    case True
    with Cons.prems show ?thesis
      by (subst recv_parts.simps) (simp add: net_env_def frames_of_def)
  next
    case False
    let ?w = "w\<lparr>inbox := (inbox w)(i := frames_of ps @ q)\<rparr>"
    have "inbox w i = (p, True) # frames_of ps @ q" using Cons.prems(2) False by (simp add: frames_of_def)
    then have "be_recv (net_env n) i w = (Frame p True, ?w)" by (simp add: net_env_def)
    then have "recv_parts (net_env n) i acc w = recv_parts (net_env n) i (acc @ p) ?w"
      by (subst recv_parts.simps) simp
    also have "\<dots> = Some (True, (acc @ p) @ concat ps, ?w\<lparr>inbox := (inbox ?w)(i := q)\<rparr>)"
      by (rule Cons.IH [OF False]) simp
    finally show ?thesis by (simp add: fun_upd_def cong: if_cong)
  qed
qed simp

text \<open>What a message contributes to the wire.\<close>

definition flags_for :: "byte list list \<Rightarrow> u16" where
  "flags_for m = (if length m = 1 then 0 else kFlagMultipart)"

definition wire_of :: "BridgeConfig \<Rightarrow> u32 \<Rightarrow> u64 \<Rightarrow> u64 \<Rightarrow> byte list list \<Rightarrow> byte list list" where
  "wire_of cfg src seq ts m =
     (if oversize cfg (concat m) then [] else message_datagrams cfg src seq ts (flags_for m) (concat m))"

fun wire_of_all :: "BridgeConfig \<Rightarrow> u32 \<Rightarrow> u64 \<Rightarrow> u64 \<Rightarrow> byte list list list \<Rightarrow> byte list list" where
  "wire_of_all cfg src seq ts [] = []"
| "wire_of_all cfg src seq ts (m # ms) = wire_of cfg src seq ts m @ wire_of_all cfg src (seq + 1) ts ms"

definition bridge_ok :: "Bridge \<Rightarrow> bool" where
  "bridge_ok b \<longleftrightarrow> bridge_config_ok (b_cfg b) \<and> length (source_stats b) = length (sources (b_cfg b))"

lemma net_transmit:
  assumes "bridge_ok b" "i < length (source_stats b)" "length (concat m) < 2 ^ 63"
  shows "\<exists>sent b'. transmit (net_env n) i (concat m) (flags_for m) (net_time w) b w =
      (sent, b', w\<lparr>outbox := outbox w @
         wire_of (b_cfg b) (source_id_of b i) (next_sequence (source_stats b ! i)) (net_time w) m\<rparr>) \<and>
    b_cfg b' = b_cfg b \<and> length (source_stats b') = length (source_stats b) \<and>
    next_sequence (source_stats b' ! i) = next_sequence (source_stats b ! i) + 1"
proof (cases "oversize (b_cfg b) (concat m)")
  case True
  have "bridge_config_ok (b_cfg b)" using assms(1) by (simp add: bridge_ok_def)
  from transmit_cases(1) [OF this assms(2,3) True, of "net_env n"] assms(2) True show ?thesis
    by (auto simp: wire_of_def counted_def)
next
  case False
  have ok: "bridge_config_ok (b_cfg b)" using assms(1) by (simp add: bridge_ok_def)
  from transmit_cases(2) [OF ok assms(2,3) False net_send_all, of n "flags_for m" "net_time w" w] obtain b1 b' where
    "transmit (net_env n) i (concat m) (flags_for m) (net_time w) b w = (True, b', w\<lparr>outbox := outbox w @
       message_datagrams (b_cfg b) (source_id_of b i) (next_sequence (source_stats b ! i)) (net_time w) (flags_for m) (concat m)\<rparr>)"
    "\<exists>k. sent_by i k None b1 b'"
    "b1 = (if 1 < pieces_of (b_cfg b) (concat m)
           then on_source i (\<lambda>s. s\<lparr>bs_fragmented := bs_fragmented s + 1\<rparr>) (counted i (concat m) b) else counted i (concat m) b)"
    by auto
  with assms(2) False show ?thesis by (auto simp: sent_by_def wire_of_def counted_def)
qed

lemma service_loop_net:
  assumes "bridge_ok b" "i < length (source_stats b)" "inbox w i = concat (map frames_of ms)"
    "\<forall>m\<in>set ms. m \<noteq> [] \<and> length (concat m) < 2 ^ 63"
  shows "\<exists>b'. service_loop (net_env n) i budget b w =
      Some (b', w\<lparr>inbox := (inbox w)(i := concat (map frames_of (drop budget ms))),
                  outbox := outbox w @ wire_of_all (b_cfg b) (source_id_of b i) (next_sequence (source_stats b ! i))
                    (net_time w) (take budget ms)\<rparr>) \<and>
    b_cfg b' = b_cfg b \<and> length (source_stats b') = length (source_stats b) \<and>
    next_sequence (source_stats b' ! i) = next_sequence (source_stats b ! i) + of_nat (min budget (length ms))"
  using assms
proof (induction budget arbitrary: b w ms)
  case 0
  have "w\<lparr>inbox := (inbox w)(i := concat (map frames_of ms))\<rparr> = w"
    using 0 by (metis (no_types) Net.surjective Net.update_convs(1) fun_upd_triv)
  with 0 show ?case by (simp add: fun_upd_def)
next
  case (Suc budget)
  show ?case
  proof (cases ms)
    case Nil
    have "w\<lparr>inbox := (inbox w)(i := [])\<rparr> = w"
      using Suc.prems(3) Nil by (metis (no_types) Net.surjective Net.update_convs(1) fun_upd_triv concat.simps(1) list.map(1))
    with Nil Suc.prems show ?thesis by (simp add: net_env_def fun_upd_def)
  next
    case (Cons m ms')
    let ?q = "concat (map frames_of ms')"
    let ?w1 = "w\<lparr>inbox := (inbox w)(i := ?q)\<rparr>"
    have m: "m \<noteq> []" "length (concat m) < 2 ^ 63" using Suc.prems(4) Cons by auto
    have "\<exists>b1. service_loop (net_env n) i (Suc budget) b w = (let (_, b, w) = transmit (net_env n) i (concat m) (flags_for m) (net_time w) b1 ?w1
          in service_loop (net_env n) i budget b w) \<and> bridge_ok b1 \<and> b_cfg b1 = b_cfg b \<and>
        length (source_stats b1) = length (source_stats b) \<and>
        next_sequence (source_stats b1 ! i) = next_sequence (source_stats b ! i)"
    proof (cases "length m = 1")
      case True
      then obtain f where "m = [f]" by (cases m) auto
      moreover from this have "be_recv (net_env n) i w = (Frame f False, ?w1)"
        using Suc.prems(3) Cons by (intro net_env_simps(4)) (simp add: frames_of_def [of "[f]"])
      ultimately show ?thesis using Suc.prems(1)
        by (intro exI [of _ b]) (simp add: net_env_simps(1) flags_for_def)
    next
      case False
      then obtain f ps where f: "m = f # ps" "ps \<noteq> []" using m(1) by (cases m) auto
      let ?w0 = "w\<lparr>inbox := (inbox w)(i := frames_of ps @ ?q)\<rparr>"
      let ?b1 = "on_source i (\<lambda>s. s\<lparr>bs_multipart := bs_multipart s + 1\<rparr>) (b\<lparr>concat_buf := concat m\<rparr>)"
      have "be_recv (net_env n) i w = (Frame f True, ?w0)"
        using Suc.prems(3) Cons f
        by (intro net_env_simps(4)) (simp add: frames_of_def [of "f # ps"] frames_of_def [of ps])
      moreover have "recv_parts (net_env n) i f ?w0 = Some (True, concat m, ?w1)"
        using net_recv_parts [OF f(2), of ?w0 i ?q n f] f(1) by simp
      ultimately show ?thesis
        using Suc.prems(1,2) False
        by (intro exI [of _ ?b1]) (simp add: flags_for_def net_env_simps(1) bridge_ok_def)
    qed
    then obtain b1 where b1: "service_loop (net_env n) i (Suc budget) b w = (let (_, b, w) = transmit (net_env n) i (concat m) (flags_for m) (net_time w) b1 ?w1
          in service_loop (net_env n) i budget b w)" "bridge_ok b1" "b_cfg b1 = b_cfg b"
        "length (source_stats b1) = length (source_stats b)"
        "next_sequence (source_stats b1 ! i) = next_sequence (source_stats b ! i)"
      by (elim exE conjE, intro that) assumption+
    have i1: "i < length (source_stats b1)" using b1(4) Suc.prems(2) by simp
    obtain sent b2 where t: "transmit (net_env n) i (concat m) (flags_for m) (net_time ?w1) b1 ?w1 =
        (sent, b2, ?w1\<lparr>outbox := outbox ?w1 @
           wire_of (b_cfg b1) (source_id_of b1 i) (next_sequence (source_stats b1 ! i)) (net_time ?w1) m\<rparr>)"
      "b_cfg b2 = b_cfg b1" "length (source_stats b2) = length (source_stats b1)"
      "next_sequence (source_stats b2 ! i) = next_sequence (source_stats b1 ! i) + 1"
      using net_transmit [OF b1(2) i1 m(2), of n ?w1] by blast
    let ?w2 = "?w1\<lparr>outbox := outbox ?w1 @
           wire_of (b_cfg b1) (source_id_of b1 i) (next_sequence (source_stats b1 ! i)) (net_time ?w1) m\<rparr>"
    have "bridge_ok b2" "i < length (source_stats b2)" "inbox ?w2 i = concat (map frames_of ms')"
      "\<forall>m\<in>set ms'. m \<noteq> [] \<and> length (concat m) < 2 ^ 63"
      using b1(2-4) t(2,3) Suc.prems(2,4) Cons by (simp_all add: bridge_ok_def)
    from Suc.IH [OF this] obtain b' where
      "service_loop (net_env n) i budget b2 ?w2 =
         Some (b', ?w2\<lparr>inbox := (inbox ?w2)(i := concat (map frames_of (drop budget ms'))),
           outbox := outbox ?w2 @ wire_of_all (b_cfg b2) (source_id_of b2 i) (next_sequence (source_stats b2 ! i))
             (net_time ?w2) (take budget ms')\<rparr>)"
      "b_cfg b' = b_cfg b2" "length (source_stats b') = length (source_stats b2)"
      "next_sequence (source_stats b' ! i) = next_sequence (source_stats b2 ! i) + of_nat (min budget (length ms'))"
      by (elim exE conjE, intro that) assumption+
    with b1 t Cons show ?thesis
      by (intro exI [of _ b']) (simp add: source_id_of_def ac_simps fun_upd_def del: service_loop.simps cong: if_cong)
  qed
qed

section \<open>Properties of the bridge\<close>

text \<open>C15: Transmission. \<open>transmit\<close> sends exactly the datagrams of the message, in order, until one fails, and
  nothing when the message is oversize; it reports success exactly when all went out, consumes
  one sequence number whatever happens, and counts the datagrams sent and the failure.\<close>

theorem transmit_sends_message:
  fixes b :: Bridge and env :: "'w BridgeEnv"
  assumes "bridge_config_ok (b_cfg b)" "index < length (source_stats b)" "length data < 2 ^ 63"
    "(k, err, w1) = (if oversize (b_cfg b) data then (0, None, w)
       else send_all env (message_datagrams (b_cfg b) (source_id_of b index) (next_sequence (source_stats b ! index)) ts flgs data) w)"
    "transmit env index data flgs ts b w = (sent_ok, b', w')"
  shows "w' = w1 \<and> (sent_ok \<longleftrightarrow> \<not> oversize (b_cfg b) data \<and> err = None) \<and> b_cfg b' = b_cfg b \<and>
    next_sequence (source_stats b' ! index) = next_sequence (source_stats b ! index) + 1 \<and>
    bs_messages (source_stats b' ! index) = bs_messages (source_stats b ! index) + 1 \<and>
    bs_oversize (source_stats b' ! index) = bs_oversize (source_stats b ! index) + of_bool (oversize (b_cfg b) data) \<and>
    bs_datagrams (source_stats b' ! index) = bs_datagrams (source_stats b ! index) + of_nat k \<and>
    datagrams_sent (b_stats b') = datagrams_sent (b_stats b) + of_nat k \<and>
    b_send_timeouts (b_stats b') = b_send_timeouts (b_stats b) + of_bool (err = Some E_AGAIN) \<and>
    b_send_errors (b_stats b') = b_send_errors (b_stats b) + of_bool (err \<noteq> None \<and> err \<noteq> Some E_AGAIN) \<and>
    (\<forall>j. j \<noteq> index \<longrightarrow> source_stats b' ! j = source_stats b ! j)"
proof (cases "oversize (b_cfg b) data")
  case True
  from transmit_cases(1) [OF assms(1-3) True, of env flgs ts w] assms(2,4,5) True show ?thesis
    by (simp add: counted_def)
next
  case False
  with assms(4) have "send_all env (message_datagrams (b_cfg b) (source_id_of b index)
      (next_sequence (source_stats b ! index)) ts flgs data) w = (k, err, w1)" by simp
  from transmit_cases(2) [OF assms(1-3) False this] assms(2,5) False show ?thesis
    by (auto simp: sent_by_def counted_def split: if_splits)
qed


text \<open>C16: Servicing a source on the reference network. At most \<open>max_messages_per_poll\<close> messages are
  drained, in order; every multipart message is concatenated and flagged; the wire receives exactly
  the datagrams of the drained messages, with consecutive sequence numbers; the rest stays queued.\<close>

theorem service_source_drains:
  assumes "bridge_ok b" "i < length (source_stats b)" "inbox w i = concat (map frames_of ms)"
    "\<forall>m\<in>set ms. m \<noteq> [] \<and> length (concat m) < 2 ^ 63" "budget = nat (max_messages_per_poll (b_cfg b))"
  shows "\<exists>b'. service_source (net_env n) i b w =
      Some (b', w\<lparr>inbox := (inbox w)(i := concat (map frames_of (drop budget ms))),
                  outbox := outbox w @ wire_of_all (b_cfg b) (source_id_of b i) (next_sequence (source_stats b ! i))
                    (net_time w) (take budget ms)\<rparr>) \<and>
    next_sequence (source_stats b' ! i) = next_sequence (source_stats b ! i) + of_nat (min budget (length ms))"
  using service_loop_net [OF assms(1-4), of n budget] unfolding service_source_def assms(5) by blast

section \<open>Concrete runs\<close>

definition sample_bridge_config :: BridgeConfig where
  "sample_bridge_config = default_BridgeConfig\<lparr>multicast_group := 0xEF010101, multicast_port := 5000,
     max_datagram_size := 46, max_messages_per_poll := 2,
     sources := [default_BridgeSourceConfig\<lparr>bs_id := 7, endpoint := ''ipc:///a''\<rparr>]\<rparr>"

definition sample_net :: "byte list list list \<Rightarrow> Net" where
  "sample_net ms = \<lparr>inbox = (\<lambda>_. concat (map frames_of ms)), outbox = [], net_time = 9\<rparr>"

lemma sample_bridge_config_ok: "bridge_config_ok sample_bridge_config"
  by (simp add: bridge_config_ok_def sample_bridge_config_def default_BridgeConfig_def default_BridgeSourceConfig_def
      source_ok_def is_multicast_ipv4_def const_defs)

lemma sample_payload: "fragment_payload sample_bridge_config = 2"
  by (simp add: sample_bridge_config_def default_BridgeConfig_def fragment_payload_def const_defs)

lemma sample_fits: "length data \<le> 65535 \<Longrightarrow> \<not> oversize sample_bridge_config data"
  by (simp add: oversize_def sample_payload)

lemma sample_bridge_ok: "bridge_ok (new_Bridge sample_bridge_config)"
  using sample_bridge_config_ok by (simp add: bridge_ok_def new_Bridge_def)

lemma sample_new_Bridge: "b_cfg (new_Bridge sample_bridge_config) = sample_bridge_config"
  "source_stats (new_Bridge sample_bridge_config) = [zero_BridgeSourceStats]"
  by (simp_all add: new_Bridge_def sample_bridge_config_def)

theorem transmit_sends_message_witness:
  "let r = transmit (net_env 1) 0 [1, 2, 3, 4, 5] 0 7 (new_Bridge sample_bridge_config) (sample_net []) in
     fst r \<and> length (outbox (snd (snd r))) = 3 \<and> next_sequence (source_stats (fst (snd r)) ! 0) = 1"
proof -
  let ?b = "new_Bridge sample_bridge_config" and ?w = "sample_net []" and ?d = "[1, 2, 3, 4, 5] :: byte list"
  let ?ds = "message_datagrams (b_cfg ?b) (source_id_of ?b 0) (next_sequence (source_stats ?b ! 0)) 7 0 ?d"
  have n: "length ?ds = 3"
    by (simp add: length_message_datagrams pieces_of_def sample_new_Bridge sample_payload)
  obtain sent b' w' where t: "transmit (net_env 1) 0 ?d 0 7 ?b ?w = (sent, b', w')" by (metis prod_cases3)
  have "(length ?ds, None, ?w\<lparr>outbox := outbox ?w @ ?ds\<rparr>) =
      (if oversize (b_cfg ?b) ?d then (0, None, ?w) else send_all (net_env 1) ?ds ?w)"
    using sample_fits [of ?d] by (simp add: net_send_all sample_new_Bridge)
  from transmit_sends_message [OF _ _ _ this t] sample_bridge_config_ok sample_fits [of ?d] n t
  show ?thesis by (simp add: sample_new_Bridge zero_BridgeSourceStats_def sample_net_def)
qed


theorem service_source_drains_witness:
  "\<exists>b' w'. service_source (net_env 1) 0 (new_Bridge sample_bridge_config) (sample_net [[[1, 2], [3]], [[4]], [[5]]]) = Some (b', w') \<and>
     inbox w' 0 = [([5], False)] \<and> next_sequence (source_stats b' ! 0) = 2"
proof -
  let ?b = "new_Bridge sample_bridge_config" and ?ms = "[[[1, 2], [3]], [[4]], [[5]]] :: byte list list list"
  have h1: "0 < length (source_stats ?b)" by (simp add: sample_new_Bridge)
  have h2: "inbox (sample_net ?ms) 0 = concat (map frames_of ?ms)" by (simp add: sample_net_def)
  have h3: "\<forall>m\<in>set ?ms. m \<noteq> [] \<and> length (concat m) < 2 ^ 63" by simp
  have h4: "2 = nat (max_messages_per_poll (b_cfg ?b))"
    by (simp add: sample_new_Bridge) (simp add: sample_bridge_config_def)
  obtain b' where "service_source (net_env 1) 0 ?b (sample_net ?ms) =
      Some (b', (sample_net ?ms)\<lparr>inbox := (inbox (sample_net ?ms))(0 := concat (map frames_of (drop 2 ?ms))),
        outbox := outbox (sample_net ?ms) @ wire_of_all (b_cfg ?b) (source_id_of ?b 0) (next_sequence (source_stats ?b ! 0))
          (net_time (sample_net ?ms)) (take 2 ?ms)\<rparr>)"
      "next_sequence (source_stats b' ! 0) = next_sequence (source_stats ?b ! 0) + of_nat (min 2 (length ?ms))"
    using service_source_drains [OF sample_bridge_ok h1 h2 h3 h4, of 1] by (elim exE conjE, intro that) assumption+
  then show ?thesis by (simp add: sample_new_Bridge zero_BridgeSourceStats_def frames_of_def)
qed
end
