(* ===== verification/Receiver_Config.thy ===== *)
theory Receiver_Config
  imports Bridge_Config
begin

text \<open>
  The receiver's configuration: tools/receiver/receiver_config.hpp and receiver_config.cpp. The option readers are
  those of the bridge (the source repeats them); their positions are printed in front of the key.
\<close>

record ReceiverConfig =
  rc_multicast_group_text :: string
  rc_multicast_group :: u32
  rc_multicast_port :: u16
  rc_multicast_interface_text :: string
  rc_multicast_interface :: u32
  rc_receive_buffer_bytes :: int
  max_datagrams_per_poll :: int
  capture_file :: string
  record_on_start :: bool
  capture_buffer_bytes :: int
  capture_flush_interval_ms :: int
  capture_sync_on_flush :: bool
  reassembly_timeout_ms :: int
  reassembly_max_pending :: int
  reassembly_max_message_bytes :: u32
  stats_endpoint :: string
  stats_topic :: string
  rc_stats_interval_ms :: int
  stats_print :: bool
  command_endpoint :: string
  command_bind :: bool
  command_topic :: string
  rc_log_level :: LogLevel

definition default_ReceiverConfig :: ReceiverConfig where
  "default_ReceiverConfig =
     \<lparr>rc_multicast_group_text = [], rc_multicast_group = 0, rc_multicast_port = 0, rc_multicast_interface_text = [],
      rc_multicast_interface = 0, rc_receive_buffer_bytes = 4 * 1024 * 1024, max_datagrams_per_poll = 64,
      capture_file = [], record_on_start = True, capture_buffer_bytes = 1024 * 1024, capture_flush_interval_ms = 1000,
      capture_sync_on_flush = False, reassembly_timeout_ms = 500, reassembly_max_pending = 256,
      reassembly_max_message_bytes = 16 * 1024 * 1024, stats_endpoint = ''tcp://*:5556'', stats_topic = ''stats'',
      rc_stats_interval_ms = 1000, stats_print = False, command_endpoint = ''tcp://127.0.0.1:5557'',
      command_bind = False, command_topic = [], rc_log_level = LogInfo\<rparr>"

definition receiver_where :: "ConfigEntry \<Rightarrow> string" where
  "receiver_where e = (if ce_line e > 0 then ''(line '' @ to_string (int (ce_line e)) @ '') '' else [])"

definition receiver_i32 :: "ConfigSection \<Rightarrow> string \<Rightarrow> int \<Rightarrow> int \<Rightarrow> int \<times> string list \<Rightarrow> int \<times> string list" where
  "receiver_i32 = read_i32 receiver_where"

definition receiver_u32 :: "ConfigSection \<Rightarrow> string \<Rightarrow> u64 \<Rightarrow> u64 \<Rightarrow> u32 \<times> string list \<Rightarrow> u32 \<times> string list" where
  "receiver_u32 = read_u32 receiver_where"

definition receiver_boolean :: "ConfigSection \<Rightarrow> string \<Rightarrow> bool \<times> string list \<Rightarrow> bool \<times> string list" where
  "receiver_boolean = read_boolean receiver_where"

lemmas receiver_readers = receiver_i32_def receiver_u32_def receiver_boolean_def

definition kKnownKeys :: "string list" where
  "kKnownKeys =
     [''multicast_group'', ''multicast_port'', ''multicast_interface'', ''receive_buffer_bytes'', ''max_datagrams_per_poll'',
      ''capture_file'', ''record_on_start'', ''capture_buffer_bytes'', ''capture_flush_interval_ms'', ''capture_sync_on_flush'',
      ''reassembly_timeout_ms'', ''reassembly_max_pending'', ''reassembly_max_message_bytes'',
      ''stats_endpoint'', ''stats_topic'', ''stats_interval_ms'', ''stats_print'',
      ''command_endpoint'', ''command_bind'', ''command_topic'', ''log_level'']"

definition valid_tcp_endpoint :: "string \<Rightarrow> bool" where
  "valid_tcp_endpoint ep \<longleftrightarrow> take 6 ep = ''tcp://'' \<and> length ep > 6 \<and> CHR '':'' \<in> set (drop 6 ep)"

definition endpoint_error :: "string \<Rightarrow> string \<Rightarrow> string list" where
  "endpoint_error what ep =
     err_if (ep \<noteq> [] \<and> \<not> valid_tcp_endpoint ep) (quoted_in what ep '' must be tcp://ADDRESS:PORT (or empty to disable)'')"

definition build_receiver_config ::
  "(string \<Rightarrow> u32 option) \<Rightarrow> (string + (string \<times> u32 option) list) \<Rightarrow> ConfigFile \<Rightarrow> ReceiverConfig \<times> string list"
where
  "build_receiver_config pton ifs file =
     (let cfg = default_ReceiverConfig; g = global file;
          errors = concat (map (\<lambda>e. err_if (ce_key e \<notin> set kKnownKeys)
              (quoted_in ''unknown option '' (ce_key e) ('' (line '' @ to_string (int (ce_line e)) @ '')''))) (cs_entries g)) @
            concat (map (\<lambda>s. err_if (cs_name s \<noteq> [])
              (''unknown section ['' @ cs_name s @ ''] (line '' @ to_string (int (cs_line s)) @ '')'')) file);
          group_text = read_str g ''multicast_group'' (rc_multicast_group_text cfg);
          (group, errs) = read_group pton group_text (rc_multicast_group cfg); errors = errors @ errs;
          (port, errs) = read_port g (rc_multicast_port cfg); errors = errors @ errs;
          iface_text = read_str g ''multicast_interface'' (rc_multicast_interface_text cfg);
          (iface, errs) = read_interface pton ifs iface_text (rc_multicast_interface cfg); errors = errors @ errs;
          (rcvbuf, errors) = receiver_i32 g ''receive_buffer_bytes'' 0 (2 ^ 30) (rc_receive_buffer_bytes cfg, errors);
          (batch, errors) = receiver_i32 g ''max_datagrams_per_poll'' 1 100000 (max_datagrams_per_poll cfg, errors);
          capture = read_str g ''capture_file'' (capture_file cfg);
          (on_start, errors) = receiver_boolean g ''record_on_start'' (record_on_start cfg, errors);
          errors = errors @ err_if (capture = []) ''capture_file is required'';
          (buf, errors) = receiver_i32 g ''capture_buffer_bytes'' 0 (2 ^ 30) (capture_buffer_bytes cfg, errors);
          (flush, errors) = receiver_i32 g ''capture_flush_interval_ms'' 0 3600000 (capture_flush_interval_ms cfg, errors);
          (sync, errors) = receiver_boolean g ''capture_sync_on_flush'' (capture_sync_on_flush cfg, errors);
          (timeout, errors) = receiver_i32 g ''reassembly_timeout_ms'' 1 3600000 (reassembly_timeout_ms cfg, errors);
          (mpend, errors) = receiver_i32 g ''reassembly_max_pending'' 1 1000000 (reassembly_max_pending cfg, errors);
          (mmsg, errors) = receiver_u32 g ''reassembly_max_message_bytes'' 1 kMaxMessageLength
            (reassembly_max_message_bytes cfg, errors);
          stats_ep = read_str g ''stats_endpoint'' (stats_endpoint cfg);
          errors = errors @ endpoint_error ''stats_endpoint '' stats_ep;
          topic = read_str g ''stats_topic'' (stats_topic cfg);
          (interval, errors) = receiver_i32 g ''stats_interval_ms'' 10 3600000 (rc_stats_interval_ms cfg, errors);
          (prnt, errors) = receiver_boolean g ''stats_print'' (stats_print cfg, errors);
          cmd_ep = read_str g ''command_endpoint'' (command_endpoint cfg);
          errors = errors @ endpoint_error ''command_endpoint '' cmd_ep;
          (bind, errors) = receiver_boolean g ''command_bind'' (command_bind cfg, errors);
          cmd_topic = read_str g ''command_topic'' (command_topic cfg);
          errors = errors @ err_if (stats_ep \<noteq> [] \<and> stats_ep = cmd_ep \<and> bind)
            ''stats_endpoint and command_endpoint cannot both bind the same address'';
          (level, errs) = read_log_level g (rc_log_level cfg); errors = errors @ errs
      in (\<lparr>rc_multicast_group_text = group_text, rc_multicast_group = group, rc_multicast_port = port,
           rc_multicast_interface_text = iface_text, rc_multicast_interface = iface, rc_receive_buffer_bytes = rcvbuf,
           max_datagrams_per_poll = batch, capture_file = capture, record_on_start = on_start, capture_buffer_bytes = buf,
           capture_flush_interval_ms = flush, capture_sync_on_flush = sync, reassembly_timeout_ms = timeout,
           reassembly_max_pending = mpend, reassembly_max_message_bytes = mmsg, stats_endpoint = stats_ep,
           stats_topic = topic, rc_stats_interval_ms = interval, stats_print = prnt, command_endpoint = cmd_ep,
           command_bind = bind, command_topic = cmd_topic, rc_log_level = level\<rparr>, errors))"

section \<open>Ranges\<close>

text \<open>The numeric options stay in their ranges even where there are errors; an error stays in the list.\<close>

definition receiver_ranges :: "ReceiverConfig \<Rightarrow> bool" where
  "receiver_ranges cfg \<longleftrightarrow>
     0 \<le> rc_receive_buffer_bytes cfg \<and> rc_receive_buffer_bytes cfg \<le> 2 ^ 30 \<and>
     1 \<le> max_datagrams_per_poll cfg \<and> max_datagrams_per_poll cfg \<le> 100000 \<and>
     0 \<le> capture_buffer_bytes cfg \<and> capture_buffer_bytes cfg \<le> 2 ^ 30 \<and>
     0 \<le> capture_flush_interval_ms cfg \<and> capture_flush_interval_ms cfg \<le> 3600000 \<and>
     1 \<le> reassembly_timeout_ms cfg \<and> reassembly_timeout_ms cfg \<le> 3600000 \<and>
     1 \<le> reassembly_max_pending cfg \<and> reassembly_max_pending cfg \<le> 1000000 \<and>
     0 < reassembly_max_message_bytes cfg \<and>
     10 \<le> rc_stats_interval_ms cfg \<and> rc_stats_interval_ms cfg \<le> 3600000"

lemma read_u32_positive:
  assumes "0 < old"
  shows "0 < fst (read_u32 whr sec key 1 kMaxMessageLength (old, errors))"
proof -
  have "0 < (ucast v :: u32)" if "v \<noteq> 0" "v \<le> kMaxMessageLength" for v :: u64
    using that
    by (simp add: kMaxMessageLength_def word_less_nat_alt word_le_nat_alt unsigned_ucast_eq take_bit_nat_eq_self
        word_eq_unat)
  then show ?thesis using assms
    by (auto simp: read_u32_def not_less split: option.splits sum.splits)
qed

lemma i32_step:
  "read_i32 whr sec key lo hi (old, errors) = (v, errs) \<Longrightarrow> lo \<le> old \<Longrightarrow> old \<le> hi \<Longrightarrow>
   lo \<le> v \<and> v \<le> hi \<and> (errs = [] \<longrightarrow> errors = [])"
  by (auto simp: read_i32_def split: option.splits sum.splits if_splits)

lemma u32_step:
  "read_u32 whr sec key 1 kMaxMessageLength (old, errors) = (v, errs) \<Longrightarrow> 0 < old \<Longrightarrow>
   0 < v \<and> (errs = [] \<longrightarrow> errors = [])"
  using read_u32_positive [of old whr sec key errors]
  by (auto simp: read_u32_def split: option.splits sum.splits if_splits)

lemma boolean_step: "read_boolean whr sec key (old, errors) = (v, errs) \<Longrightarrow> errs = [] \<longrightarrow> errors = []"
  by (auto simp: read_boolean_def split: option.splits sum.splits)

text \<open>A configuration the receiver accepts is valid: a multicast group and a port, a capture file, every number in
  its documented range (so the reassembly table has room for a message and every timer runs), and endpoints that are
  empty or of the form tcp://ADDRESS:PORT and not both bound to the same address.\<close>

theorem accepted_receiver_config_ok:
  assumes "build_receiver_config pton ifs file = (cfg, [])"
  shows "receiver_ranges cfg \<and> is_multicast_ipv4 (rc_multicast_group cfg) \<and> rc_multicast_port cfg \<noteq> 0 \<and>
    capture_file cfg \<noteq> [] \<and>
    (\<forall>ep\<in>{stats_endpoint cfg, command_endpoint cfg}. ep = [] \<or> valid_tcp_endpoint ep) \<and>
    (stats_endpoint cfg \<noteq> [] \<and> command_bind cfg \<longrightarrow> stats_endpoint cfg \<noteq> command_endpoint cfg) \<and>
    (\<forall>s\<in>set file. cs_name s = []) \<and> (\<forall>e\<in>set (cs_entries (global file)). ce_key e \<in> set kKnownKeys)"
  using assms
  unfolding build_receiver_config_def receiver_readers Let_def default_ReceiverConfig_def ReceiverConfig.simps
  apply (simp only: split: prod.split_asm)
  subgoal premises p for group e1 port e2 iface e3 rcvbuf e4 batch e5 start e6 buf e7 flush e8 sync e9
    tmo e10 pend e11 msg e12 interval e13 prnt e14 bind e15 level e16
  proof -
    have "e15 = []" using p(17) by simp
    then have "e14 = []" "endpoint_error ''command_endpoint '' (read_str (global file) ''command_endpoint'' ''tcp://127.0.0.1:5557'') = []"
      using boolean_step [OF p(15)] by simp_all
    moreover from this have "e13 = []" using boolean_step [OF p(14)] by simp
    moreover from this have "e12 = []" "endpoint_error ''stats_endpoint '' (read_str (global file) ''stats_endpoint'' ''tcp://*:5556'') = []"
      using i32_step [OF p(13)] by simp_all
    moreover from this have "e11 = []" using u32_step [OF p(12)] by simp
    moreover from this have "e10 = []" using i32_step [OF p(11)] by simp
    moreover from this have "e9 = []" using i32_step [OF p(10)] by simp
    moreover from this have "e8 = []" using boolean_step [OF p(9)] by simp
    moreover from this have "e7 = []" using i32_step [OF p(8)] by simp
    moreover from this have "e6 = []" "read_str (global file) ''capture_file'' [] \<noteq> []" using i32_step [OF p(7)] by simp_all
    moreover from this have "e5 = []" using boolean_step [OF p(6)] by simp
    moreover from this have "e4 = []" using i32_step [OF p(5)] by simp
    moreover note first = i32_step [OF p(4), simplified]
    ultimately have facts: "is_multicast_ipv4 group" "port \<noteq> 0"
      "read_str (global file) ''capture_file'' [] \<noteq> []"
      "endpoint_error ''command_endpoint '' (read_str (global file) ''command_endpoint'' ''tcp://127.0.0.1:5557'') = []"
      "endpoint_error ''stats_endpoint '' (read_str (global file) ''stats_endpoint'' ''tcp://*:5556'') = []"
      "\<forall>s\<in>set file. cs_name s = []" "\<forall>e\<in>set (cs_entries (global file)). ce_key e \<in> set kKnownKeys"
      using read_group_clean p(1) read_port_clean p(2) by auto
    note cfg = arg_cong [OF p(17), of fst, unfolded fst_conv, symmetric]
    have "receiver_ranges cfg"
      unfolding receiver_ranges_def cfg ReceiverConfig.simps
      using i32_step [OF p(5), simplified] i32_step [OF p(7), simplified] i32_step [OF p(8), simplified]
        i32_step [OF p(10), simplified] i32_step [OF p(11), simplified] i32_step [OF p(13), simplified]
        u32_step [OF p(12), simplified] first
      by (intro conjI) simp_all
    moreover have "capture_file cfg \<noteq> []" "\<forall>ep\<in>{stats_endpoint cfg, command_endpoint cfg}. ep = [] \<or> valid_tcp_endpoint ep"
      unfolding cfg ReceiverConfig.simps using facts by (auto simp: endpoint_error_def)
    moreover have "stats_endpoint cfg \<noteq> [] \<and> command_bind cfg \<longrightarrow> stats_endpoint cfg \<noteq> command_endpoint cfg"
      unfolding cfg ReceiverConfig.simps using p(17) by auto
    ultimately show ?thesis using facts unfolding cfg ReceiverConfig.simps by blast
  qed
  done

definition sample_receiver_file :: ConfigFile where
  "sample_receiver_file =
     [\<lparr>cs_name = [], cs_line = 0, cs_entries = [sample_entry ''multicast_group'' ''239.1.1.1'',
        sample_entry ''multicast_port'' ''5000'', sample_entry ''capture_file'' ''c.bin'']\<rparr>]"

lemma sample_receiver_file_accepted: "snd (build_receiver_config sample_pton (Inr []) sample_receiver_file) = []"
  by (simp add: build_receiver_config_def receiver_readers default_ReceiverConfig_def config_eval kKnownKeys_def endpoint_error_def
      sample_receiver_file_def sample_entry_def sample_pton_def sample_numbers valid_tcp_endpoint_def)

lemma accepted_receiver_config_ok_witness:
  "receiver_ranges (fst (build_receiver_config sample_pton (Inr []) sample_receiver_file))"
  using accepted_receiver_config_ok [of sample_pton "Inr []" sample_receiver_file
      "fst (build_receiver_config sample_pton (Inr []) sample_receiver_file)"] sample_receiver_file_accepted
  by (simp add: prod_eq_iff)

end
