(* ===== verification/Doubles.thy ===== *)
theory Doubles
  imports Complex_Main Config
begin

text \<open>
  The little the tools use of IEEE binary64: converting an integer, one division, reading a decimal
  (\<open>std::strtod\<close>) and printing with \<open>"%.3f"\<close>. A finite double is the rational number it stands for; the sign of
  zero is left out. Every operation rounds its exact result to the nearest double, ties to even.
\<close>

definition round_half_even :: "rat \<Rightarrow> int" where
  "round_half_even r =
     (let f = \<lfloor>r\<rfloor>; d = r - of_int f
      in if d < 1 / 2 \<or> d = 1 / 2 \<and> even f then f else f + 1)"

fun bit_length :: "nat \<Rightarrow> nat" where
  "bit_length n = (if n = 0 then 0 else Suc (bit_length (n div 2)))"

declare bit_length.simps [simp del]

definition pow2 :: "int \<Rightarrow> rat" where
  "pow2 e = (if 0 \<le> e then 2 ^ nat e else 1 / 2 ^ nat (- e))"

text \<open>For \<open>r > 0\<close>, the exponent of the binade: the largest \<open>e\<close> with \<open>2 ^ e \<le> r\<close>.\<close>

definition binade :: "rat \<Rightarrow> int" where
  "binade r =
     (let (a, b) = quotient_of r; e = int (bit_length (nat a)) - int (bit_length (nat b))
      in if pow2 e \<le> r then e else e - 1)"

definition to_double :: "rat \<Rightarrow> rat" where
  "to_double r =
     (if r = 0 then 0
      else let e = max (binade \<bar>r\<bar> - 52) (-1074)
           in of_int (round_half_even (r / pow2 e)) * pow2 e)"

text \<open>A \<open>double\<close>: a finite value or an infinity (\<open>True\<close>: negative). \<open>round_double\<close> is what a correctly rounded
  operation with the exact result \<open>r\<close> returns.\<close>

datatype Double = Finite rat | Infinite bool

definition round_double :: "rat \<Rightarrow> Double" where
  "round_double r =
     (let d = to_double r in if \<bar>d\<bar> < 2 ^ 1024 then Finite d else Infinite (r < 0))"

text \<open>\<open>std::snprintf("%.3f")\<close>.\<close>

definition pad3 :: "string \<Rightarrow> string" where
  "pad3 s = replicate (3 - length s) (CHR ''0'') @ s"

definition print_thousandths :: "nat \<Rightarrow> string" where
  "print_thousandths n = dec_digits (n div 1000) @ ''.'' @ pad3 (dec_digits (n mod 1000))"

fun print_fixed3 :: "Double \<Rightarrow> string" where
  "print_fixed3 (Finite x) =
     (if x < 0 then ''-'' else []) @ print_thousandths (nat (round_half_even (\<bar>x\<bar> * 1000)))"
| "print_fixed3 (Infinite neg) = (if neg then ''-inf'' else ''inf'')"

section \<open>Integers up to 2 ^ 53 are exact\<close>

lemma round_half_even_int [simp]: "round_half_even (of_int k) = k"
  by (simp add: round_half_even_def)

lemma bit_length_bounds: "0 < n \<Longrightarrow> 2 ^ (bit_length n - 1) \<le> n \<and> n < 2 ^ bit_length n"
proof (induction n rule: bit_length.induct)
  case (1 n)
  show ?case
  proof (cases "n div 2 = 0")
    case True
    with "1.prems" have "n = 1" by presburger
    then show ?thesis by (simp add: bit_length.simps)
  next
    case False
    then have "0 < bit_length (n div 2)" by (subst bit_length.simps) simp
    moreover have "2 ^ (bit_length (n div 2) - 1) \<le> n div 2 \<and> n div 2 < 2 ^ bit_length (n div 2)"
      using "1.IH" "1.prems" False by simp
    moreover have "bit_length n = Suc (bit_length (n div 2))" using "1.prems" by (subst bit_length.simps) simp
    ultimately show ?thesis by (cases "bit_length (n div 2)") auto
  qed
qed

lemma binade_nat: "0 < n \<Longrightarrow> binade (of_nat n) = int (bit_length n) - 1"
proof -
  assume n: "0 < n"
  have q: "quotient_of (of_nat n) = (int n, 1)"
    using quotient_of_int [of "int n"] by simp
  have one: "bit_length (Suc 0) = 1" by (simp add: bit_length.simps)
  have len: "0 < bit_length n" using n by (subst bit_length.simps) simp
  have "(of_nat n :: rat) < 2 ^ bit_length n" using bit_length_bounds [OF n]
    by (metis of_nat_less_iff of_nat_numeral of_nat_power)
  moreover have "(2 :: rat) ^ (bit_length n - 1) \<le> of_nat n" using bit_length_bounds [OF n]
    by (metis of_nat_le_iff of_nat_numeral of_nat_power)
  moreover have "nat (int (bit_length n) - 1) = bit_length n - 1" by simp
  ultimately show ?thesis
    using len by (simp add: binade_def q one pow2_def)
qed

lemma pow2_neg: "k \<le> 0 \<Longrightarrow> of_nat n / pow2 k = (of_int (int n * 2 ^ nat (- k)) :: rat)"
  by (cases "k = 0") (simp_all add: pow2_def)

lemma pow2_nonzero: "pow2 k \<noteq> 0" by (simp add: pow2_def)

lemma to_double_exact:
  assumes "n < 2 ^ 53"
  shows "to_double (of_nat n) = of_nat n"
proof (cases "n = 0")
  case False
  then have n: "0 < n" by simp
  have "bit_length n \<le> 53"
  proof (rule ccontr)
    assume "\<not> ?thesis"
    then have "(2::nat) ^ 53 \<le> 2 ^ (bit_length n - 1)" by (intro power_increasing) simp_all
    with bit_length_bounds [OF n] assms show False by linarith
  qed
  then have e: "max (binade (of_nat n) - 52) (-1074) \<le> 0" by (simp add: binade_nat [OF n])
  define k where "k = max (binade (of_nat n) - 52) (-1074)"
  have "round_half_even (of_nat n / pow2 k) = int n * 2 ^ nat (- k)"
    using e by (simp only: pow2_neg k_def round_half_even_int)
  moreover have "of_int (int n * 2 ^ nat (- k)) * pow2 k = (of_nat n :: rat)"
    using pow2_nonzero [of k] e by (simp only: flip: pow2_neg k_def) simp
  ultimately show ?thesis using False by (simp add: to_double_def Let_def k_def del: of_int_mult)
qed (simp add: to_double_def)

section \<open>Rounding adds at most half of the value\<close>

lemma pow2_powi: "pow2 e = 2 powi e"
  by (simp add: pow2_def power_int_def inverse_eq_divide power_one_over)

lemma round_half_even_nonneg: "0 \<le> r \<Longrightarrow> 0 \<le> round_half_even r"
  by (simp add: round_half_even_def Let_def)

lemma round_half_even_le: "of_int (round_half_even r) \<le> r + 1 / 2"
  unfolding round_half_even_def Let_def by (split if_split) linarith

lemmas round_half_even_bounds = round_half_even_nonneg round_half_even_le

lemma pow2_binade: "0 < r \<Longrightarrow> pow2 (binade r) \<le> r"
proof -
  assume r: "0 < r"
  obtain a b where q: "quotient_of r = (a, b)" by (cases "quotient_of r")
  then have b: "0 < b" and eq: "r = of_int a / of_int b" using quotient_of_denom_pos quotient_of_div by auto
  with r have a: "0 < a" by (auto simp: zero_less_divide_iff)
  define la lb where "la = bit_length (nat a)" and "lb = bit_length (nat b)"
  have len: "0 < la" using a unfolding la_def by (subst bit_length.simps) simp
  have "2 ^ (la - 1) \<le> nat a" "nat b < 2 ^ lb"
    using a b bit_length_bounds [of "nat a"] bit_length_bounds [of "nat b"] by (simp_all add: la_def lb_def)
  then have "2 ^ (la - 1) \<le> a" "b < 2 ^ lb" using a b by (simp_all add: le_nat_iff nat_less_iff)
  then have "(2 :: rat) ^ (la - 1) \<le> of_int a" "of_int b < (2 :: rat) ^ lb"
    by (metis of_int_le_iff of_int_numeral of_int_power) (metis \<open>b < 2 ^ lb\<close> of_int_less_iff of_int_numeral of_int_power)
  then have "2 ^ (la - 1) / 2 ^ lb \<le> of_int a / (of_int b :: rat)" using a b by (intro frac_le) simp_all
  moreover have "pow2 (int la - int lb - 1) = 2 ^ (la - 1) / 2 ^ lb"
  proof -
    have "int la - int lb - 1 = int (la - 1) - int lb" using len by simp
    then have "pow2 (int la - int lb - 1) = 2 powi (int (la - 1) - int lb)" by (simp only: pow2_powi)
    also have "\<dots> = 2 powi int (la - 1) / 2 powi int lb" by (rule power_int_diff) simp
    finally show ?thesis by (simp only: power_int_of_nat)
  qed
  ultimately have low: "pow2 (int la - int lb - 1) \<le> r" unfolding eq by linarith
  have "binade r = (if pow2 (int la - int lb) \<le> r then int la - int lb else int la - int lb - 1)"
    unfolding binade_def q Let_def la_def lb_def by simp
  with low show ?thesis by simp
qed

lemma to_double_bounds:
  assumes "0 \<le> r"
  shows "0 \<le> to_double r \<and> to_double r \<le> 3 / 2 * r + 1 / 2"
proof (cases "r = 0")
  case False
  with assms have r: "0 < r" by simp
  define e where "e = max (binade r - 52) (-1074)"
  have p: "0 < pow2 e" by (simp add: pow2_powi)
  have "pow2 e \<le> r + 1"
  proof (cases "e = -1074")
    case True
    have "pow2 e \<le> 2 powi 0" unfolding pow2_powi True by (rule power_int_increasing) simp_all
    with r show ?thesis by simp
  next
    case no: False
    then have "pow2 e \<le> pow2 (binade r)" unfolding pow2_powi e_def by (intro power_int_increasing) auto
    with pow2_binade [OF r] show ?thesis by simp
  qed
  moreover have "of_int (round_half_even (r / pow2 e)) * pow2 e \<le> (r / pow2 e + 1 / 2) * pow2 e"
    using p round_half_even_bounds(2) by (intro mult_right_mono) auto
  moreover have "(r / pow2 e + 1 / 2) * pow2 e = r + pow2 e / 2" using p by (simp add: field_simps)
  moreover have "0 \<le> of_int (round_half_even (r / pow2 e)) * pow2 e"
    using p r round_half_even_bounds(1) [of "r / pow2 e"] by simp
  moreover have "to_double r = of_int (round_half_even (r / pow2 e)) * pow2 e"
    unfolding to_double_def Let_def e_def using r by simp
  ultimately show ?thesis by simp
qed (simp add: to_double_def)

end
