(* ===== verification/Json_Writer.thy ===== *)
theory Json_Writer
  imports Doubles
begin

text \<open>
  The JSON serialiser of the tools: tools/receiver/lib/json_writer.cpp. A method changes the writer, so each is
  a function on its state. \<open>Jval\<close> and \<open>render\<close> are the reference: a JSON document as a tree and its text without
  white space; a sequence of calls that follows the nesting writes exactly the rendering of its tree.
\<close>

record JsonWriter =
  j_out :: string
  need_comma :: bool

definition new_JsonWriter :: JsonWriter where
  "new_JsonWriter = \<lparr>j_out = [], need_comma = False\<rparr>"

definition separator :: "JsonWriter \<Rightarrow> JsonWriter" where
  "separator j = \<lparr>j_out = (if need_comma j then j_out j @ '','' else j_out j), need_comma = True\<rparr>"

definition push :: "string \<Rightarrow> JsonWriter \<Rightarrow> JsonWriter" where
  "push s j = j\<lparr>j_out := j_out j @ s\<rparr>"

definition hex_digit :: "nat \<Rightarrow> char" where
  "hex_digit n = (if n < 10 then char_of (48 + n) else char_of (87 + n))"

definition escape_char :: "char \<Rightarrow> string" where
  "escape_char c =
     (if c = CHR 0x22 then [CHR 0x5C, CHR 0x22]
      else if c = CHR 0x5C then [CHR 0x5C, CHR 0x5C]
      else if c = CHR 0x0A then [CHR 0x5C, CHR ''n'']
      else if c = CHR 0x0D then [CHR 0x5C, CHR ''r'']
      else if c = CHR 0x09 then [CHR 0x5C, CHR ''t'']
      else if (of_char c :: nat) < 0x20
      then [CHR 0x5C, CHR ''u'', CHR ''0'', CHR ''0'', hex_digit (of_char c div 16), hex_digit (of_char c mod 16)]
      else [c])"

definition escape :: "string \<Rightarrow> string" where
  "escape s = [CHR 0x22] @ concat (map escape_char s) @ [CHR 0x22]"

definition begin_object :: "JsonWriter \<Rightarrow> JsonWriter" where
  "begin_object j = (push ''{'' (separator j))\<lparr>need_comma := False\<rparr>"

definition end_object :: "JsonWriter \<Rightarrow> JsonWriter" where
  "end_object j = (push ''}'' j)\<lparr>need_comma := True\<rparr>"

definition begin_array :: "JsonWriter \<Rightarrow> JsonWriter" where
  "begin_array j = (push ''['' (separator j))\<lparr>need_comma := False\<rparr>"

definition end_array :: "JsonWriter \<Rightarrow> JsonWriter" where
  "end_array j = (push '']'' j)\<lparr>need_comma := True\<rparr>"

definition key :: "string \<Rightarrow> JsonWriter \<Rightarrow> JsonWriter" where
  "key k j = (push (escape k @ '':'') (separator j))\<lparr>need_comma := False\<rparr>"

definition value_string :: "string \<Rightarrow> JsonWriter \<Rightarrow> JsonWriter" where
  "value_string v j = push (escape v) (separator j)"

definition value_u64 :: "u64 \<Rightarrow> JsonWriter \<Rightarrow> JsonWriter" where
  "value_u64 v j = push (dec_digits (unat v)) (separator j)"

definition value_i64 :: "64 word \<Rightarrow> JsonWriter \<Rightarrow> JsonWriter" where
  "value_i64 v j = push (to_string (sint v)) (separator j)"

text \<open>The number is printed into a buffer of 64 bytes; what does not fit is cut off.\<close>

definition value_double :: "Double \<Rightarrow> JsonWriter \<Rightarrow> JsonWriter" where
  "value_double v j = push (take 63 (print_fixed3 v)) (separator j)"

definition value_bool :: "bool \<Rightarrow> JsonWriter \<Rightarrow> JsonWriter" where
  "value_bool v j = push (if v then ''true'' else ''false'') (separator j)"

definition value_null :: "JsonWriter \<Rightarrow> JsonWriter" where
  "value_null j = push ''null'' (separator j)"

definition raw :: "string \<Rightarrow> JsonWriter \<Rightarrow> JsonWriter" where
  "raw json j = push json (separator j)"

section \<open>Documents as trees\<close>

text \<open>A number is its text.\<close>

datatype Jval =
    JNull
  | JBool bool
  | JNumber string
  | JString string
  | JArray "Jval list"
  | JObject "(string \<times> Jval) list"

fun render :: "Jval \<Rightarrow> string"
  and render_items :: "Jval list \<Rightarrow> string"
  and render_members :: "(string \<times> Jval) list \<Rightarrow> string"
where
  "render JNull = ''null''"
| "render (JBool b) = (if b then ''true'' else ''false'')"
| "render (JNumber n) = n"
| "render (JString s) = escape s"
| "render (JArray []) = ''[]''"
| "render (JArray (v # vs)) = ''['' @ render v @ render_items vs @ '']''"
| "render (JObject []) = ''{}''"
| "render (JObject ((k, v) # kvs)) = ''{'' @ escape k @ '':'' @ render v @ render_members kvs @ ''}''"
| "render_items [] = []"
| "render_items (v # vs) = '','' @ render v @ render_items vs"
| "render_members [] = []"
| "render_members ((k, v) # kvs) = '','' @ escape k @ '':'' @ render v @ render_members kvs"

text \<open>The writer after a whole value, after one element, and after some members of an object.\<close>

definition wrote :: "Jval \<Rightarrow> JsonWriter \<Rightarrow> JsonWriter" where
  "wrote v j = push (render v) (separator j)"

definition wrote_member :: "JsonWriter \<Rightarrow> string \<times> Jval \<Rightarrow> JsonWriter" where
  "wrote_member j kv = wrote (snd kv) (key (fst kv) j)"

definition wrote_members :: "(string \<times> Jval) list \<Rightarrow> JsonWriter \<Rightarrow> JsonWriter" where
  "wrote_members kvs j = foldl wrote_member j kvs"

definition wrote_items :: "Jval list \<Rightarrow> JsonWriter \<Rightarrow> JsonWriter" where
  "wrote_items vs j = foldl (\<lambda>j v. wrote v j) j vs"

named_theorems written \<open>a call or a bracketed group of calls writes one value of the tree\<close>

lemma wrote_simple [written]:
  "value_string s j = wrote (JString s) j" "value_u64 n j = wrote (JNumber (dec_digits (unat n))) j"
  "value_i64 k j = wrote (JNumber (to_string (sint k))) j" "value_double d j = wrote (JNumber (take 63 (print_fixed3 d))) j"
  "value_bool b j = wrote (JBool b) j" "value_null j = wrote JNull j" "raw (render v) j = wrote v j"
  by (simp_all add: wrote_def value_string_def value_u64_def value_i64_def value_double_def value_bool_def value_null_def raw_def)

lemma wrote_members_Cons: "wrote_members (kv # kvs) j = wrote_members kvs (wrote_member j kv)"
  by (simp add: wrote_members_def)

lemma wrote_members_after:
  "need_comma j \<Longrightarrow> wrote_members kvs j = \<lparr>j_out = j_out j @ render_members kvs, need_comma = True\<rparr>"
proof (induction kvs arbitrary: j)
  case (Cons kv kvs)
  have "wrote_member j kv = \<lparr>j_out = j_out j @ '','' @ escape (fst kv) @ '':'' @ render (snd kv), need_comma = True\<rparr>"
    using Cons.prems by (simp add: wrote_member_def wrote_def key_def push_def separator_def)
  with Cons.IH [of "wrote_member j kv"] show ?case by (cases kv) (simp add: wrote_members_Cons)
qed (simp add: wrote_members_def)

lemma wrote_items_after:
  "need_comma j \<Longrightarrow> wrote_items vs j = \<lparr>j_out = j_out j @ render_items vs, need_comma = True\<rparr>"
proof (induction vs arbitrary: j)
  case (Cons v vs)
  have "wrote v j = \<lparr>j_out = j_out j @ '','' @ render v, need_comma = True\<rparr>"
    using Cons.prems by (simp add: wrote_def push_def separator_def)
  with Cons.IH [of "wrote v j"] show ?case by (simp add: wrote_items_def)
qed (simp add: wrote_items_def)

lemma wrote_object [written]: "end_object (wrote_members kvs (begin_object j)) = wrote (JObject kvs) j"
proof (cases kvs)
  case Nil
  then show ?thesis
    by (simp add: wrote_members_def begin_object_def end_object_def wrote_def push_def separator_def)
next
  case (Cons kv kvs')
  have "wrote_member (begin_object j) kv =
      \<lparr>j_out = j_out (separator j) @ ''{'' @ escape (fst kv) @ '':'' @ render (snd kv), need_comma = True\<rparr>"
    by (simp add: wrote_member_def begin_object_def wrote_def key_def push_def separator_def)
  then show ?thesis
    using wrote_members_after [of "wrote_member (begin_object j) kv" kvs']
    by (cases kv) (simp add: Cons wrote_members_Cons end_object_def wrote_def push_def separator_def)
qed

lemma wrote_array [written]: "end_array (wrote_items vs (begin_array j)) = wrote (JArray vs) j"
proof (cases vs)
  case Nil
  then show ?thesis
    by (simp add: wrote_items_def begin_array_def end_array_def wrote_def push_def separator_def)
next
  case (Cons v vs')
  have "wrote v (begin_array j) = \<lparr>j_out = j_out (separator j) @ ''['' @ render v, need_comma = True\<rparr>"
    by (simp add: begin_array_def wrote_def push_def separator_def)
  then show ?thesis
    using wrote_items_after [of "wrote v (begin_array j)" vs']
    by (simp add: Cons wrote_items_def end_array_def wrote_def push_def separator_def)
qed

lemma wrote_members_start [written]:
  "wrote v (key k (begin_object j)) = wrote_members [(k, v)] (begin_object j)"
  "end_object (begin_object j) = wrote (JObject []) j"
  using wrote_object [of "[]" j] by (simp_all add: wrote_members_def wrote_member_def)

text \<open>A loop that writes one member per element of a map.\<close>

lemma wrote_members_fold:
  assumes "\<And>j x. x \<in> set xs \<Longrightarrow> f x j = wrote_member j (g x)"
  shows "fold f xs j = wrote_members (map g xs) j"
  using assms by (induction xs arbitrary: j) (simp_all add: wrote_members_def)

lemma wrote_members_snoc [written]: "wrote v (key k (wrote_members kvs j)) = wrote_members (kvs @ [(k, v)]) j"
  by (simp add: wrote_members_def wrote_member_def)

lemma wrote_document: "j_out (wrote v new_JsonWriter) = render v"
  by (simp add: wrote_def push_def separator_def new_JsonWriter_def)

end
