(* ===== verification/Receiver_Stats.thy ===== *)
theory Receiver_Stats
  imports Json_Writer
begin

text \<open>
  The receiver's statistics and their JSON document: tools/receiver/receiver_stats.hpp and receiver_stats.cpp.
  \<open>stats_value\<close> is the document as a tree, the reference for \<open>stats_to_json\<close>.
\<close>

record ReceiverSourceStats =
  ss_datagrams :: u64
  ss_messages :: u64
  ss_payload_bytes :: u64
  ss_gap_events :: u64
  ss_missing :: u64
  ss_out_of_order :: u64
  ss_incomplete :: u64
  ss_duplicates :: u64
  ss_malformed :: u64
  ss_records_written :: u64
  ss_last_sequence :: u64
  ss_last_timestamp_ns :: u64

definition zero_ReceiverSourceStats :: ReceiverSourceStats where
  "zero_ReceiverSourceStats =
     \<lparr>ss_datagrams = 0, ss_messages = 0, ss_payload_bytes = 0, ss_gap_events = 0, ss_missing = 0, ss_out_of_order = 0,
      ss_incomplete = 0, ss_duplicates = 0, ss_malformed = 0, ss_records_written = 0, ss_last_sequence = 0,
      ss_last_timestamp_ns = 0\<rparr>"

record ReceiverStats =
  start_monotonic_ns :: u64
  start_realtime_ns :: u64
  rs_datagrams :: u64
  rs_datagram_bytes :: u64
  rs_messages :: u64
  rs_payload_bytes :: u64
  rs_malformed :: u64
  malformed_by_reason :: "(string, u64) smap"
  rs_incomplete :: u64
  rs_duplicates :: u64
  rs_oversize :: u64
  rs_recv_errors :: u64
  rs_kernel_drops :: u64
  rs_records_written :: u64
  rs_record_bytes :: u64
  rs_write_errors :: u64
  rs_records_skipped :: u64
  rs_commands :: u64
  stats_published :: u64
  stats_publish_failures :: u64
  rs_reassembly_pending :: u64
  rs_recording_enabled :: bool
  rs_capture_open :: bool
  rs_capture_failed :: bool
  rs_capture_error :: string
  rs_capture_file :: string
  rs_sources :: "(u32, ReceiverSourceStats) smap"

definition zero_ReceiverStats :: ReceiverStats where
  "zero_ReceiverStats =
     \<lparr>start_monotonic_ns = 0, start_realtime_ns = 0, rs_datagrams = 0, rs_datagram_bytes = 0, rs_messages = 0,
      rs_payload_bytes = 0, rs_malformed = 0, malformed_by_reason = [], rs_incomplete = 0, rs_duplicates = 0,
      rs_oversize = 0, rs_recv_errors = 0, rs_kernel_drops = 0, rs_records_written = 0, rs_record_bytes = 0,
      rs_write_errors = 0, rs_records_skipped = 0, rs_commands = 0, stats_published = 0, stats_publish_failures = 0,
      rs_reassembly_pending = 0, rs_recording_enabled = False, rs_capture_open = False, rs_capture_failed = False,
      rs_capture_error = [], rs_capture_file = [], rs_sources = []\<rparr>"

section \<open>The statistics document\<close>

text \<open>The uptime in seconds: a conversion to double and a division, each rounded.\<close>

definition uptime_seconds :: "u64 \<Rightarrow> rat" where
  "uptime_seconds ns = to_double (to_double (of_nat (unat ns)) / 1000000000)"

definition json_source :: "u32 \<times> ReceiverSourceStats \<Rightarrow> JsonWriter \<Rightarrow> JsonWriter" where
  "json_source kv j =
     (let ss = snd kv;
          j = begin_object (key (dec_digits (unat (fst kv))) j);
          j = value_u64 (ss_datagrams ss) (key ''packets'' j);
          j = value_u64 (ss_messages ss) (key ''messages'' j);
          j = value_u64 (ss_payload_bytes ss) (key ''payload_bytes'' j);
          j = value_u64 (ss_gap_events ss) (key ''sequence_gaps'' j);
          j = value_u64 (ss_missing ss) (key ''dropped_messages'' j);
          j = value_u64 (ss_out_of_order ss) (key ''out_of_order'' j);
          j = value_u64 (ss_incomplete ss) (key ''incomplete_fragments'' j);
          j = value_u64 (ss_duplicates ss) (key ''duplicate_fragments'' j);
          j = value_u64 (ss_malformed ss) (key ''malformed_fragments'' j);
          j = value_u64 (ss_records_written ss) (key ''records_written'' j);
          j = value_u64 (ss_last_sequence ss) (key ''last_sequence'' j);
          j = value_u64 (ss_last_timestamp_ns ss) (key ''last_timestamp_ns'' j)
      in end_object j)"

definition json_recording :: "ReceiverStats \<Rightarrow> JsonWriter \<Rightarrow> JsonWriter" where
  "json_recording s j =
     (let j = begin_object (key ''recording'' j);
          j = value_bool (rs_recording_enabled s) (key ''enabled'' j);
          j = value_string (rs_capture_file s) (key ''file'' j);
          j = value_bool (rs_capture_open s) (key ''open'' j);
          j = value_bool (rs_capture_failed s) (key ''failed'' j);
          j = value_string (rs_capture_error s) (key ''error'' j);
          j = value_u64 (rs_records_written s) (key ''records_written'' j);
          j = value_u64 (rs_record_bytes s) (key ''bytes_written'' j);
          j = value_u64 (rs_write_errors s) (key ''write_errors'' j);
          j = value_u64 (rs_records_skipped s) (key ''records_skipped'' j)
      in end_object j)"

definition json_reasons :: "(string, u64) smap \<Rightarrow> JsonWriter \<Rightarrow> JsonWriter" where
  "json_reasons m j =
     end_object (fold (\<lambda>kv j. value_u64 (snd kv) (key (fst kv) j)) m (begin_object (key ''malformed_by_reason'' j)))"

definition stats_to_json :: "ReceiverStats \<Rightarrow> u64 \<Rightarrow> u64 \<Rightarrow> string" where
  "stats_to_json s now_monotonic_ns now_realtime_ns =
     (let j = begin_object new_JsonWriter;
          j = value_string ''ipc-relay-receiver-stats'' (key ''type'' j);
          j = value_i64 1 (key ''version'' j);
          j = value_u64 now_realtime_ns (key ''timestamp_ns'' j);
          j = value_double (Finite (uptime_seconds (now_monotonic_ns - start_monotonic_ns s))) (key ''uptime_s'' j);
          j = value_u64 (rs_datagrams s) (key ''packets_received'' j);
          j = value_u64 (rs_datagram_bytes s) (key ''packet_bytes'' j);
          j = value_u64 (rs_messages s) (key ''messages_received'' j);
          j = value_u64 (rs_payload_bytes s) (key ''payload_bytes'' j);
          j = value_u64 (rs_malformed s) (key ''malformed_packets'' j);
          j = json_reasons (malformed_by_reason s) j;
          j = value_u64 (rs_incomplete s) (key ''incomplete_fragments'' j);
          j = value_u64 (rs_duplicates s) (key ''duplicate_fragments'' j);
          j = value_u64 (rs_oversize s) (key ''oversize_packets'' j);
          j = value_u64 (rs_recv_errors s) (key ''receive_errors'' j);
          j = value_u64 (rs_kernel_drops s) (key ''kernel_drops'' j);
          j = value_u64 (rs_reassembly_pending s) (key ''reassembly_pending'' j);
          j = json_recording s j;
          j = value_u64 (rs_commands s) (key ''commands_received'' j);
          j = value_u64 (stats_published s) (key ''stats_published'' j);
          j = value_u64 (stats_publish_failures s) (key ''stats_publish_failures'' j);
          j = end_object (fold json_source (rs_sources s) (begin_object (key ''sources'' j)));
          j = end_object j
      in j_out j)"

section \<open>The document as a tree\<close>

definition num :: "u64 \<Rightarrow> Jval" where
  "num n = JNumber (dec_digits (unat n))"

definition source_value :: "ReceiverSourceStats \<Rightarrow> Jval" where
  "source_value ss = JObject
     [(''packets'', num (ss_datagrams ss)), (''messages'', num (ss_messages ss)),
      (''payload_bytes'', num (ss_payload_bytes ss)), (''sequence_gaps'', num (ss_gap_events ss)),
      (''dropped_messages'', num (ss_missing ss)), (''out_of_order'', num (ss_out_of_order ss)),
      (''incomplete_fragments'', num (ss_incomplete ss)), (''duplicate_fragments'', num (ss_duplicates ss)),
      (''malformed_fragments'', num (ss_malformed ss)), (''records_written'', num (ss_records_written ss)),
      (''last_sequence'', num (ss_last_sequence ss)), (''last_timestamp_ns'', num (ss_last_timestamp_ns ss))]"

definition recording_value :: "ReceiverStats \<Rightarrow> Jval" where
  "recording_value s = JObject
     [(''enabled'', JBool (rs_recording_enabled s)), (''file'', JString (rs_capture_file s)),
      (''open'', JBool (rs_capture_open s)), (''failed'', JBool (rs_capture_failed s)),
      (''error'', JString (rs_capture_error s)), (''records_written'', num (rs_records_written s)),
      (''bytes_written'', num (rs_record_bytes s)), (''write_errors'', num (rs_write_errors s)),
      (''records_skipped'', num (rs_records_skipped s))]"

definition stats_value :: "ReceiverStats \<Rightarrow> u64 \<Rightarrow> u64 \<Rightarrow> Jval" where
  "stats_value s now_monotonic_ns now_realtime_ns = JObject
     [(''type'', JString ''ipc-relay-receiver-stats''), (''version'', JNumber ''1''),
      (''timestamp_ns'', num now_realtime_ns),
      (''uptime_s'', JNumber (take 63 (print_fixed3 (Finite (uptime_seconds (now_monotonic_ns - start_monotonic_ns s)))))),
      (''packets_received'', num (rs_datagrams s)), (''packet_bytes'', num (rs_datagram_bytes s)),
      (''messages_received'', num (rs_messages s)), (''payload_bytes'', num (rs_payload_bytes s)),
      (''malformed_packets'', num (rs_malformed s)),
      (''malformed_by_reason'', JObject (map (\<lambda>(k, v). (k, num v)) (malformed_by_reason s))),
      (''incomplete_fragments'', num (rs_incomplete s)), (''duplicate_fragments'', num (rs_duplicates s)),
      (''oversize_packets'', num (rs_oversize s)), (''receive_errors'', num (rs_recv_errors s)),
      (''kernel_drops'', num (rs_kernel_drops s)), (''reassembly_pending'', num (rs_reassembly_pending s)),
      (''recording'', recording_value s), (''commands_received'', num (rs_commands s)),
      (''stats_published'', num (stats_published s)), (''stats_publish_failures'', num (stats_publish_failures s)),
      (''sources'', JObject (map (\<lambda>(k, ss). (dec_digits (unat k), source_value ss)) (rs_sources s)))]"

lemma json_source_written [written]:
  "json_source kv j = wrote_member j (dec_digits (unat (fst kv)), source_value (snd kv))"
  by (simp add: json_source_def Let_def written source_value_def num_def wrote_member_def)

lemma json_recording_written [written]: "json_recording s j = wrote (recording_value s) (key ''recording'' j)"
  by (simp add: json_recording_def Let_def written recording_value_def num_def)

lemma json_reasons_written [written]:
  "json_reasons m j = wrote (JObject (map (\<lambda>(k, v). (k, num v)) m)) (key ''malformed_by_reason'' j)"
proof -
  have "fold (\<lambda>kv j. value_u64 (snd kv) (key (fst kv) j)) m j' = wrote_members (map (\<lambda>(k, v). (k, num v)) m) j'" for j'
    by (rule wrote_members_fold) (simp add: written wrote_member_def num_def case_prod_beta)
  then show ?thesis by (simp add: json_reasons_def written)
qed

lemma json_sources_written [written]:
  "fold json_source m j = wrote_members (map (\<lambda>(k, ss). (dec_digits (unat k), source_value ss)) m) j"
  by (rule wrote_members_fold) (simp add: written case_prod_beta)

lemma stats_to_json_written: "stats_to_json s m r = render (stats_value s m r)"
proof -
  have one: "to_string 1 = ''1''" by code_simp
  show ?thesis
    by (simp add: stats_to_json_def Let_def written one wrote_document stats_value_def num_def)
qed

text \<open>C27: the statistics message is the JSON document of the statistics: the sequence of writer calls produces
  exactly the rendering of the tree that lists every counter under its documented key, with the malformed reasons
  and the sources as nested objects in key order.\<close>

theorem stats_to_json_renders: "stats_to_json s m r = render (stats_value s m r)"
  by (rule stats_to_json_written)

end
