(* ===== verification/Capture.thy ===== *)
theory Capture
  imports Byteorder
begin

text \<open>
  The binary capture file: tools/receiver/include/ipcrelay/capture_format.hpp and
  tools/receiver/lib/capture_format.cpp (headers), capture_writer.cpp (the writer over stdio)
  and capture_reader.cpp (the sequential reader). The stdio calls of the writer and the clock are the
  parameter \<open>env\<close>, functions on a world state \<open>'w\<close> that report success or an errno; the reader's
  stream is the list of the bytes still to be read. The stdio buffer has no effect on what is
  written, so it is left out.
\<close>

section \<open>Headers\<close>

definition kFileMagic :: u32 where [const_defs]: "kFileMagic = 0x50434D5A"
definition kRecordMagic :: u32 where [const_defs]: "kRecordMagic = 0x52434D5A"
definition kFormatVersion :: u16 where [const_defs]: "kFormatVersion = 1"
definition kFileHeaderSize :: nat where [const_defs]: "kFileHeaderSize = 32"
definition kRecordHeaderSize :: nat where [const_defs]: "kRecordHeaderSize = 32"

record FileHeader =
  fh_version :: u16
  fh_header_length :: u16
  fh_created_ns :: u64
  fh_wire_version :: u16

record RecordHeader =
  rh_source_id :: u32
  rh_sequence :: u64
  rh_timestamp_ns :: u64
  rh_payload_length :: u32
  rh_flags :: u16

definition default_FileHeader :: FileHeader where
  "default_FileHeader =
     \<lparr>fh_version = kFormatVersion, fh_header_length = of_nat kFileHeaderSize, fh_created_ns = 0, fh_wire_version = 0\<rparr>"

definition default_RecordHeader :: RecordHeader where
  "default_RecordHeader = \<lparr>rh_source_id = 0, rh_sequence = 0, rh_timestamp_ns = 0, rh_payload_length = 0, rh_flags = 0\<rparr>"

definition encode_file_header :: "FileHeader \<Rightarrow> byte list \<Rightarrow> byte list" where
  "encode_file_header h out =
     (let out = store out 0 (replicate kFileHeaderSize 0);
          out = store out 0 (put_u32le kFileMagic);
          out = store out 4 (put_u16le (fh_version h));
          out = store out 6 (put_u16le (fh_header_length h));
          out = store out 8 (put_u64le (fh_created_ns h));
          out = store out 16 (put_u16le (fh_wire_version h))
      in out)"

definition encode_record_header :: "RecordHeader \<Rightarrow> byte list \<Rightarrow> byte list" where
  "encode_record_header h out =
     (let out = store out 0 (put_u32le kRecordMagic);
          out = store out 4 (put_u32le (rh_source_id h));
          out = store out 8 (put_u64le (rh_sequence h));
          out = store out 16 (put_u64le (rh_timestamp_ns h));
          out = store out 24 (put_u32le (rh_payload_length h));
          out = store out 28 (put_u16le (rh_flags h));
          out = store out 30 (put_u16le 0)
      in out)"

text \<open>The decoders fill the header they are given; the boolean is their result.\<close>

definition decode_file_header :: "byte list \<Rightarrow> FileHeader \<Rightarrow> bool \<times> FileHeader" where
  "decode_file_header inp h =
     (if length inp < kFileHeaderSize then (False, h)
      else if get_u32le inp 0 \<noteq> kFileMagic then (False, h)
      else let h = h\<lparr>fh_version := get_u16le inp 4, fh_header_length := get_u16le inp 6,
                    fh_created_ns := get_u64le inp 8, fh_wire_version := get_u16le inp 16\<rparr>
      in (fh_version h = kFormatVersion \<and> unat (fh_header_length h) \<ge> kFileHeaderSize, h))"

definition decode_record_header :: "byte list \<Rightarrow> RecordHeader \<Rightarrow> bool \<times> RecordHeader" where
  "decode_record_header inp h =
     (if length inp < kRecordHeaderSize then (False, h)
      else if get_u32le inp 0 \<noteq> kRecordMagic then (False, h)
      else (True, h\<lparr>rh_source_id := get_u32le inp 4, rh_sequence := get_u64le inp 8,
                    rh_timestamp_ns := get_u64le inp 16, rh_payload_length := get_u32le inp 24,
                    rh_flags := get_u16le inp 28\<rparr>))"

section \<open>The writer\<close>

datatype IoError = IE_INVAL | IE_ROFS | IE_OTHER nat

record 'w CaptureEnv =
  ce_fopen :: "string \<Rightarrow> 'w \<Rightarrow> IoError option \<times> 'w"
  ce_fwrite :: "byte list \<Rightarrow> 'w \<Rightarrow> nat \<times> IoError \<times> 'w"
  ce_fflush :: "'w \<Rightarrow> IoError option \<times> 'w"
  ce_fsync :: "'w \<Rightarrow> IoError option \<times> 'w"
  ce_fclose :: "'w \<Rightarrow> IoError option \<times> 'w"
  ce_realtime :: "'w \<Rightarrow> u64 \<times> 'w"
  ce_strerror :: "IoError \<Rightarrow> string"

record CaptureWriter =
  w_is_open :: bool
  w_path :: string
  w_last_error :: string
  w_failed :: bool
  w_records :: u64
  w_bytes :: u64

definition new_CaptureWriter :: CaptureWriter where
  "new_CaptureWriter = \<lparr>w_is_open = False, w_path = [], w_last_error = [], w_failed = False, w_records = 0, w_bytes = 0\<rparr>"

definition w_fail :: "string \<Rightarrow> CaptureWriter \<Rightarrow> CaptureWriter" where
  "w_fail what cw = cw\<lparr>w_failed := True, w_last_error := what\<rparr>"

definition writer_open :: "'w CaptureEnv \<Rightarrow> string \<Rightarrow> u16 \<Rightarrow> CaptureWriter \<Rightarrow> 'w \<Rightarrow> bool \<times> CaptureWriter \<times> 'w" where
  "writer_open env path wire_version cw w =
     (if w_is_open cw then (False, w_fail ''capture file already open'' cw, w)
      else let cw = cw\<lparr>w_failed := False, w_last_error := [], w_path := path, w_records := 0, w_bytes := 0\<rparr> in
      case ce_fopen env path w of
        (Some err, w) \<Rightarrow>
          (False, w_fail (''open '' @ [CHR 0x27] @ path @ [CHR 0x27] @ '': '' @ ce_strerror env err) cw, w)
      | (None, w) \<Rightarrow>
          let cw = cw\<lparr>w_is_open := True\<rparr>;
              (now, w) = ce_realtime env w;
              h = default_FileHeader\<lparr>fh_created_ns := now, fh_wire_version := wire_version\<rparr>;
              raw = encode_file_header h (replicate kFileHeaderSize 0);
              (n, err, w) = ce_fwrite env raw w
          in if n \<noteq> kFileHeaderSize
             then let cw = w_fail (''write header '' @ [CHR 0x27] @ path @ [CHR 0x27] @ '': '' @ ce_strerror env err) cw;
                      (_, w) = ce_fclose env w
                  in (False, cw\<lparr>w_is_open := False\<rparr>, w)
             else (True, cw\<lparr>w_bytes := w_bytes cw + of_nat kFileHeaderSize\<rparr>, w))"

definition write_record ::
  "'w CaptureEnv \<Rightarrow> RecordHeader \<Rightarrow> byte list \<Rightarrow> CaptureWriter \<Rightarrow> 'w \<Rightarrow> bool \<times> CaptureWriter \<times> 'w"
where
  "write_record env hdr payload cw w =
     (if \<not> w_is_open cw \<or> w_failed cw then (False, cw, w)
      else let h = hdr\<lparr>rh_payload_length := of_nat (length payload)\<rparr>;
               raw = encode_record_header h (replicate kRecordHeaderSize 0);
               (n, err, w) = ce_fwrite env raw w
      in if n \<noteq> kRecordHeaderSize
         then (False, w_fail (''write record header: '' @ ce_strerror env err) cw, w)
         else let (n, err, w) = (if length payload > 0 then ce_fwrite env payload w else (0, err, w))
         in if length payload > 0 \<and> n \<noteq> length payload
            then (False, w_fail (''write record payload: '' @ ce_strerror env err) cw, w)
            else (True, cw\<lparr>w_records := w_records cw + 1,
                          w_bytes := w_bytes cw + of_nat (kRecordHeaderSize + length payload)\<rparr>, w))"

definition writer_flush :: "'w CaptureEnv \<Rightarrow> bool \<Rightarrow> CaptureWriter \<Rightarrow> 'w \<Rightarrow> bool \<times> CaptureWriter \<times> 'w" where
  "writer_flush env sync cw w =
     (if \<not> w_is_open cw then (False, cw, w)
      else case ce_fflush env w of
        (Some err, w) \<Rightarrow> (False, w_fail (''flush: '' @ ce_strerror env err) cw, w)
      | (None, w) \<Rightarrow>
          if \<not> sync then (True, cw, w)
          else (case ce_fsync env w of
                  (Some err, w) \<Rightarrow> (False, w_fail (''fsync: '' @ ce_strerror env err) cw, w)
                | (None, w) \<Rightarrow> (True, cw, w)))"

definition writer_close :: "'w CaptureEnv \<Rightarrow> CaptureWriter \<Rightarrow> 'w \<Rightarrow> bool \<times> CaptureWriter \<times> 'w" where
  "writer_close env cw w =
     (if \<not> w_is_open cw then (True, cw, w)
      else let (res, w) = ce_fflush env w;
               (good, cw) = (case res of None \<Rightarrow> (True, cw)
                 | Some err \<Rightarrow> (False, w_fail (''flush on close: '' @ ce_strerror env err) cw));
               (res, w) = ce_fsync env w;
               (good, cw) = (case res of None \<Rightarrow> (good, cw)
                 | Some err \<Rightarrow> if err \<noteq> IE_INVAL \<and> err \<noteq> IE_ROFS
                     then (False, w_fail (''fsync on close: '' @ ce_strerror env err) cw) else (good, cw));
               (res, w) = ce_fclose env w;
               (good, cw) = (case res of None \<Rightarrow> (good, cw)
                 | Some err \<Rightarrow> (False, w_fail (''close: '' @ ce_strerror env err) cw))
           in (good, cw\<lparr>w_is_open := False\<rparr>, w))"

section \<open>The reader\<close>

record CaptureReader =
  rd_is_open :: bool
  rd_rest :: "byte list"
  rd_file_header :: FileHeader
  rd_error :: string

definition new_CaptureReader :: CaptureReader where
  "new_CaptureReader = \<lparr>rd_is_open = False, rd_rest = [], rd_file_header = default_FileHeader, rd_error = []\<rparr>"

definition read_bytes :: "nat \<Rightarrow> CaptureReader \<Rightarrow> byte list \<times> CaptureReader" where
  "read_bytes n r = (take n (rd_rest r), r\<lparr>rd_rest := drop n (rd_rest r)\<rparr>)"

text \<open>The parameter \<open>content\<close> is what opening the path gives: the errno text, or the bytes of the file.\<close>

definition reader_open :: "string \<Rightarrow> string + byte list \<Rightarrow> CaptureReader \<Rightarrow> bool \<times> CaptureReader" where
  "reader_open path content r =
     (case content of
        Inl err \<Rightarrow> (False, r\<lparr>rd_error := ''open '' @ [CHR 0x27] @ path @ [CHR 0x27] @ '': '' @ err\<rparr>)
      | Inr bytes \<Rightarrow>
          let r = r\<lparr>rd_is_open := True, rd_rest := bytes\<rparr>;
              (raw, r) = read_bytes kFileHeaderSize r
          in if length raw \<noteq> kFileHeaderSize then (False, r\<lparr>rd_error := ''short file header''\<rparr>)
          else let (good, h) = decode_file_header raw (rd_file_header r);
                   r = r\<lparr>rd_file_header := h\<rparr>
          in if \<not> good then (False, r\<lparr>rd_error := ''bad file magic or unsupported version''\<rparr>)
          else if unat (fh_header_length h) > kFileHeaderSize
          then (True, r\<lparr>rd_rest := drop (unat (fh_header_length h) - kFileHeaderSize) (rd_rest r)\<rparr>)
          else (True, r))"

definition reader_next ::
  "RecordHeader \<Rightarrow> byte list \<Rightarrow> CaptureReader \<Rightarrow> bool \<times> RecordHeader \<times> byte list \<times> CaptureReader"
where
  "reader_next hdr payload r =
     (if \<not> rd_is_open r \<or> rd_error r \<noteq> [] then (False, hdr, payload, r)
      else let (raw, r) = read_bytes kRecordHeaderSize r in
      if raw = [] then (False, hdr, payload, r)
      else if length raw \<noteq> kRecordHeaderSize then (False, hdr, payload, r\<lparr>rd_error := ''truncated record header''\<rparr>)
      else let (good, hdr) = decode_record_header raw hdr in
      if \<not> good then (False, hdr, payload, r\<lparr>rd_error := ''bad record magic''\<rparr>)
      else let payload = resize (unat (rh_payload_length hdr)) payload;
               (bytes, r) = read_bytes (unat (rh_payload_length hdr)) r;
               payload = store payload 0 bytes
      in if length bytes \<noteq> unat (rh_payload_length hdr)
         then (False, hdr, payload, r\<lparr>rd_error := ''truncated record payload''\<rparr>)
         else (True, hdr, payload, r))"

text \<open>The loop \<open>while (reader.next(hdr, payload))\<close> of the reader's clients: the records it visits.\<close>

lemma reader_next_shorter:
  "reader_next hdr payload r = (True, h, p, r') \<Longrightarrow> length (rd_rest r') < length (rd_rest r)"
  by (auto simp: reader_next_def read_bytes_def decode_record_header_def const_defs Let_def split: if_splits prod.splits)

function read_all :: "RecordHeader \<Rightarrow> byte list \<Rightarrow> CaptureReader \<Rightarrow> (RecordHeader \<times> byte list) list \<times> CaptureReader" where
  "read_all hdr payload r =
     (case reader_next hdr payload r of
        (False, h, p, r') \<Rightarrow> ([], r')
      | (True, h, p, r') \<Rightarrow> (case read_all h p r' of (recs, r'') \<Rightarrow> ((h, p) # recs, r'')))"
  by pat_completeness auto

termination
  by (relation "measure (\<lambda>(h, p, r). length (rd_rest r))") (auto dest!: reader_next_shorter [OF sym])

declare read_all.simps [simp del]

section \<open>Header lemmas\<close>

definition file_header_bytes :: "FileHeader \<Rightarrow> byte list" where
  "file_header_bytes h =
     put_u32le kFileMagic @ put_u16le (fh_version h) @ put_u16le (fh_header_length h) @ put_u64le (fh_created_ns h) @
     put_u16le (fh_wire_version h) @ replicate 14 0"

definition record_header_bytes :: "RecordHeader \<Rightarrow> byte list" where
  "record_header_bytes h =
     put_u32le kRecordMagic @ put_u32le (rh_source_id h) @ put_u64le (rh_sequence h) @ put_u64le (rh_timestamp_ns h) @
     put_u32le (rh_payload_length h) @ put_u16le (rh_flags h) @ put_u16le 0"

lemma store_at_start: "store buf 0 src = src @ drop (length src) buf"
  by (simp add: store_def)

lemma length_header_bytes' [simp]:
  "length (file_header_bytes h) = 32" "length (record_header_bytes r) = 32"
  by (simp_all add: file_header_bytes_def record_header_bytes_def)

lemma header_bytes_nonempty [simp]: "file_header_bytes h \<noteq> []" "record_header_bytes r \<noteq> []"
  by (simp_all flip: length_0_conv)

lemma encode_file_header_eq: "length out = kFileHeaderSize \<Longrightarrow> encode_file_header h out = file_header_bytes h"
  unfolding encode_file_header_def file_header_bytes_def Let_def
  by (simp add: store_at_start store_append_right kFileHeaderSize_def drop_replicate)

lemma encode_record_header_eq: "length out = kRecordHeaderSize \<Longrightarrow> encode_record_header h out = record_header_bytes h"
  unfolding encode_record_header_def record_header_bytes_def Let_def
  by (simp add: store_at_start store_append_right kRecordHeaderSize_def)

lemma decode_record_header_bytes: "decode_record_header (record_header_bytes h @ rest) h0 = (True, h)"
  unfolding decode_record_header_def record_header_bytes_def
  by (simp add: wire_simps kRecordHeaderSize_def)

lemma decode_file_header_bytes:
  "fh_version h = kFormatVersion \<Longrightarrow> kFileHeaderSize \<le> unat (fh_header_length h) \<Longrightarrow>
   decode_file_header (file_header_bytes h @ rest) h0 = (True, h)"
  unfolding decode_file_header_def file_header_bytes_def
  by (simp add: wire_simps kFileHeaderSize_def)

section \<open>Reading back\<close>

text \<open>The abstract view of a capture file: its header and its list of records.\<close>

type_synonym capture_record = "RecordHeader \<times> byte list"

definition record_ok :: "capture_record \<Rightarrow> bool" where
  "record_ok r \<longleftrightarrow> unat (rh_payload_length (fst r)) = length (snd r)"

definition record_bytes :: "capture_record \<Rightarrow> byte list" where
  "record_bytes r = record_header_bytes (fst r) @ snd r"

definition records_bytes :: "capture_record list \<Rightarrow> byte list" where
  "records_bytes rs = concat (map record_bytes rs)"

definition file_bytes :: "FileHeader \<Rightarrow> capture_record list \<Rightarrow> byte list" where
  "file_bytes fh rs = file_header_bytes fh @ records_bytes rs"

text \<open>The records that lie wholly within the first \<open>n\<close> bytes.\<close>

fun complete_records :: "nat \<Rightarrow> capture_record list \<Rightarrow> capture_record list" where
  "complete_records n [] = []"
| "complete_records n (r # rs) =
     (if length (record_bytes r) \<le> n then r # complete_records (n - length (record_bytes r)) rs else [])"

lemma length_record_bytes: "length (record_bytes r) = 32 + length (snd r)"
  by (simp add: record_bytes_def)

lemma records_bytes_simps [simp]:
  "records_bytes [] = []" "records_bytes (r # rs) = record_bytes r @ records_bytes rs"
  by (simp_all add: records_bytes_def)

lemma complete_records_prefix: "\<exists>rest. rs = complete_records n rs @ rest"
  by (induction n rs rule: complete_records.induct) auto

lemma complete_records_all: "length (records_bytes rs) \<le> n \<Longrightarrow> complete_records n rs = rs"
  by (induction n rs rule: complete_records.induct) auto

lemma next_at_end:
  "rd_is_open r \<Longrightarrow> rd_error r = [] \<Longrightarrow> rd_rest r = [] \<Longrightarrow> reader_next h p r = (False, h, p, r)"
  by (simp add: reader_next_def read_bytes_def)

lemma next_record:
  assumes "rd_is_open r" "rd_error r = []" "record_ok rec" "rd_rest r = record_bytes rec @ rest"
  shows "reader_next h p r = (True, fst rec, snd rec, r\<lparr>rd_rest := rest\<rparr>)"
proof -
  have len: "unat (rh_payload_length (fst rec)) = length (snd rec)" using assms(3) by (simp add: record_ok_def)
  show ?thesis
    using assms(1,2,4) decode_record_header_bytes [of "fst rec" "[]"]
    by (simp add: reader_next_def read_bytes_def record_bytes_def kRecordHeaderSize_def len Let_def resize_def store_whole)
qed

lemma next_truncated:
  assumes "rd_is_open r" "rd_error r = []" "record_ok rec" "rd_rest r = take n (record_bytes rec)"
    "0 < n" "n < length (record_bytes rec)"
  shows "\<exists>h' p' r'. reader_next h p r = (False, h', p', r') \<and> rd_error r' \<noteq> []"
proof (cases "n < 32")
  case True
  then have rest: "rd_rest r = take n (record_header_bytes (fst rec))"
    using assms(4) by (simp add: record_bytes_def)
  have ne: "take n (record_header_bytes (fst rec)) \<noteq> []" using assms(5) by simp
  show ?thesis
    using assms(1,2,5) True by (simp add: reader_next_def read_bytes_def rest ne kRecordHeaderSize_def min_def)
next
  case False
  have len: "unat (rh_payload_length (fst rec)) = length (snd rec)" using assms(3) by (simp add: record_ok_def)
  have rest: "rd_rest r = record_header_bytes (fst rec) @ take (n - 32) (snd rec)"
    using assms(4) False by (simp add: record_bytes_def)
  have short: "n - 32 < length (snd rec)" using assms(6) False by (simp add: record_bytes_def)
  show ?thesis
    using assms(1,2) short decode_record_header_bytes [of "fst rec" "[]"]
    by (simp add: reader_next_def read_bytes_def rest kRecordHeaderSize_def len Let_def)
qed

lemma read_all_truncated:
  "rd_is_open r \<Longrightarrow> rd_error r = [] \<Longrightarrow> list_all record_ok rs \<Longrightarrow> rd_rest r = take n (records_bytes rs) \<Longrightarrow>
   fst (read_all h p r) = complete_records n rs \<and>
   (rd_error (snd (read_all h p r)) = [] \<longleftrightarrow> take n (records_bytes rs) = records_bytes (complete_records n rs))"
proof (induction n rs arbitrary: h p r rule: complete_records.induct)
  case (1 n)
  then show ?case by (subst (1 2) read_all.simps) (simp add: next_at_end)
next
  case (2 n rec rs)
  show ?case
  proof (cases "length (record_bytes rec) \<le> n")
    case True
    let ?m = "n - length (record_bytes rec)"
    have "rd_rest r = record_bytes rec @ take ?m (records_bytes rs)" using "2.prems"(4) True by simp
    with "2.prems" have step: "reader_next h p r = (True, fst rec, snd rec, r\<lparr>rd_rest := take ?m (records_bytes rs)\<rparr>)"
      by (intro next_record) simp_all
    have "fst (read_all (fst rec) (snd rec) (r\<lparr>rd_rest := take ?m (records_bytes rs)\<rparr>)) = complete_records ?m rs \<and>
      (rd_error (snd (read_all (fst rec) (snd rec) (r\<lparr>rd_rest := take ?m (records_bytes rs)\<rparr>))) = [] \<longleftrightarrow>
        take ?m (records_bytes rs) = records_bytes (complete_records ?m rs))"
      using "2.prems" by (intro "2.IH" [OF True]) simp_all
    with True step show ?thesis
      by (subst (1 2) read_all.simps) (auto split: prod.splits)
  next
    case False
    then have rest: "rd_rest r = take n (record_bytes rec)" using "2.prems"(4) by simp
    show ?thesis
    proof (cases "n = 0")
      case True
      with "2.prems" rest False show ?thesis
        by (subst (1 2) read_all.simps) (simp add: next_at_end)
    next
      case n: False
      obtain h' p' r' where "reader_next h p r = (False, h', p', r')" "rd_error r' \<noteq> []"
        using next_truncated [OF "2.prems"(1,2) _ rest, of h p] "2.prems"(3) n False by auto
      moreover have "take n (record_bytes rec) \<noteq> []" using n by (simp add: record_bytes_def)
      moreover have "n \<le> length (record_bytes rec)" using False by simp
      ultimately show ?thesis
        using False by (subst (1 2) read_all.simps) simp
    qed
  qed
qed

text \<open>Truncation at any byte: opening a capture cut after \<open>n\<close> bytes.\<close>

definition ok_file_header :: "FileHeader \<Rightarrow> bool" where
  "ok_file_header h \<longleftrightarrow> fh_version h = kFormatVersion \<and> unat (fh_header_length h) = kFileHeaderSize"

lemma reader_open_bytes:
  assumes "ok_file_header h" "32 \<le> n"
  shows "reader_open path (Inr (take n (file_bytes h rs))) new_CaptureReader =
    (True, \<lparr>rd_is_open = True, rd_rest = take (n - 32) (records_bytes rs), rd_file_header = h, rd_error = []\<rparr>)"
  using assms decode_file_header_bytes [of h "[]"]
  by (simp add: reader_open_def read_bytes_def new_CaptureReader_def file_bytes_def ok_file_header_def kFileHeaderSize_def Let_def)

lemma reader_open_short:
  assumes "n < 32"
  shows "fst (reader_open path (Inr (take n (file_bytes h rs))) new_CaptureReader) = False"
  using assms
  by (simp add: reader_open_def read_bytes_def new_CaptureReader_def file_bytes_def kFileHeaderSize_def Let_def min_def)

text \<open>The records a client reads from a file: open it, then \<open>next\<close> until it fails.\<close>

definition read_capture :: "byte list \<Rightarrow> capture_record list option \<times> string" where
  "read_capture bytes =
     (case reader_open [] (Inr bytes) new_CaptureReader of
        (False, r) \<Rightarrow> (None, rd_error r)
      | (True, r) \<Rightarrow> (case read_all default_RecordHeader [] r of (recs, r) \<Rightarrow> (Some recs, rd_error r)))"

lemma read_capture_take:
  assumes "ok_file_header h" "list_all record_ok rs"
  shows "fst (read_capture (take n (file_bytes h rs))) = (if n < 32 then None else Some (complete_records (n - 32) rs))"
    and "32 \<le> n \<Longrightarrow> snd (read_capture (take n (file_bytes h rs))) = [] \<longleftrightarrow>
           take (n - 32) (records_bytes rs) = records_bytes (complete_records (n - 32) rs)"
proof -
  show "fst (read_capture (take n (file_bytes h rs))) = (if n < 32 then None else Some (complete_records (n - 32) rs))"
  proof (cases "n < 32")
    case True
    with reader_open_short [OF True, of "[]" h rs] show ?thesis
      by (auto simp: read_capture_def split: prod.splits bool.splits)
  next
    case False
    with reader_open_bytes [OF assms(1), of n "[]" rs]
      read_all_truncated [of "\<lparr>rd_is_open = True, rd_rest = take (n - 32) (records_bytes rs), rd_file_header = h, rd_error = []\<rparr>" rs "n - 32" default_RecordHeader "[]"]
      assms(2) show ?thesis
      by (simp add: read_capture_def case_prod_beta)
  qed
  show "32 \<le> n \<Longrightarrow> snd (read_capture (take n (file_bytes h rs))) = [] \<longleftrightarrow>
           take (n - 32) (records_bytes rs) = records_bytes (complete_records (n - 32) rs)"
    using reader_open_bytes [OF assms(1), of n "[]" rs]
      read_all_truncated [of "\<lparr>rd_is_open = True, rd_rest = take (n - 32) (records_bytes rs), rd_file_header = h, rd_error = []\<rparr>" rs "n - 32" default_RecordHeader "[]"]
      assms(2)
    by (simp add: read_capture_def case_prod_beta)
qed

text \<open>C5: a capture file cut after any number of bytes (a crash, a full disk) is still readable: opening it
  fails only when less than the file header is left, and otherwise the reader returns exactly the records that lie
  wholly in front of the cut, unchanged and in order, and reports an error if and only if the cut is inside a record.\<close>

theorem truncated_capture_reads_prefix:
  assumes "ok_file_header h" "list_all record_ok rs"
  shows "(case read_capture (take n (file_bytes h rs)) of
            (None, _) \<Rightarrow> n < kFileHeaderSize
          | (Some recs, err) \<Rightarrow> kFileHeaderSize \<le> n \<and> recs = complete_records (n - kFileHeaderSize) rs \<and>
              (\<exists>rest. rs = recs @ rest) \<and> (err = [] \<longleftrightarrow> take n (file_bytes h rs) = file_bytes h recs))"
proof (cases "n < 32")
  case True
  with read_capture_take(1) [OF assms, of n] show ?thesis
    by (auto simp: kFileHeaderSize_def split: prod.splits option.splits)
next
  case False
  moreover have "take n (file_bytes h rs) = file_bytes h (complete_records (n - 32) rs) \<longleftrightarrow>
      take (n - 32) (records_bytes rs) = records_bytes (complete_records (n - 32) rs)"
    using False by (simp add: file_bytes_def)
  ultimately show ?thesis
    using read_capture_take [OF assms, of n] complete_records_prefix [of rs "n - 32"]
    by (auto simp: kFileHeaderSize_def split: prod.splits option.splits)
qed

lemma truncated_capture_reads_prefix_witness:
  "ok_file_header default_FileHeader \<and>
   (case read_capture (take 40 (file_bytes default_FileHeader [(default_RecordHeader, [])])) of
      (None, _) \<Rightarrow> (40::nat) < kFileHeaderSize
    | (Some recs, err) \<Rightarrow> kFileHeaderSize \<le> 40 \<and> recs = complete_records (40 - kFileHeaderSize) [(default_RecordHeader, [])] \<and>
        (\<exists>rest. [(default_RecordHeader, [])] = recs @ rest) \<and>
        (err = [] \<longleftrightarrow> take 40 (file_bytes default_FileHeader [(default_RecordHeader, [])]) = file_bytes default_FileHeader recs))"
proof -
  have "ok_file_header default_FileHeader" "list_all record_ok [(default_RecordHeader, [])]"
    by (simp_all add: ok_file_header_def default_FileHeader_def kFileHeaderSize_def record_ok_def default_RecordHeader_def)
  then show ?thesis by (intro conjI truncated_capture_reads_prefix)
qed

section \<open>Writing, then reading\<close>

text \<open>A reference disk of \<open>cap\<close> bytes: its world is the content of the capture file, a write is cut where the disk is full.\<close>

definition disk_env :: "nat \<Rightarrow> u64 \<Rightarrow> (byte list) CaptureEnv" where
  "disk_env cap now = \<lparr>ce_fopen = \<lambda>path w. (None, []),
     ce_fwrite = \<lambda>d w. (min (length d) (cap - length w), IE_OTHER 28, w @ take (cap - length w) d),
     ce_fflush = \<lambda>w. (None, w), ce_fsync = \<lambda>w. (None, w), ce_fclose = \<lambda>w. (None, w),
     ce_realtime = \<lambda>w. (now, w), ce_strerror = \<lambda>e. ''No space left on device''\<rparr>"

text \<open>Writing a list of messages, whatever each write returns, as the receiver does; the results in order.\<close>

fun write_all :: "'w CaptureEnv \<Rightarrow> capture_record list \<Rightarrow> CaptureWriter \<Rightarrow> 'w \<Rightarrow> bool list \<times> CaptureWriter \<times> 'w" where
  "write_all env [] cw w = ([], cw, w)"
| "write_all env (r # rs) cw w =
     (case write_record env (fst r) (snd r) cw w of (good, cw, w) \<Rightarrow>
      case write_all env rs cw w of (goods, cw, w) \<Rightarrow> (good # goods, cw, w))"

definition stamped :: "capture_record \<Rightarrow> capture_record" where
  "stamped r = ((fst r)\<lparr>rh_payload_length := of_nat (length (snd r))\<rparr>, snd r)"

text \<open>The records of \<open>rs\<close> whose write returned true.\<close>

definition accepted :: "capture_record list \<Rightarrow> bool list \<Rightarrow> capture_record list" where
  "accepted rs goods = map (stamped \<circ> fst) (filter snd (zip rs goods))"

lemma accepted_simps [simp]:
  "accepted [] goods = []" "accepted (r # rs) (g # goods) = (if g then [stamped r] else []) @ accepted rs goods"
  "accepted rs (replicate n False) = []"
  by (auto simp: accepted_def filter_empty_conv dest!: set_zip_rightD)

lemma record_ok_stamped: "length (snd r) < 2 ^ 32 \<Longrightarrow> record_ok (stamped r)"
  by (simp add: record_ok_def stamped_def unat_of_nat)

lemma write_all_failed: "w_failed cw \<Longrightarrow> write_all env rs cw w = (replicate (length rs) False, cw, w)"
  by (induction rs) (simp_all add: write_record_def)

text \<open>One write to the disk: the record as a whole, or the part of it that fits and the latched failure.\<close>

lemma write_record_disk:
  fixes r :: capture_record and w :: "byte list"
  assumes "w_is_open cw" "\<not> w_failed cw" "length w \<le> cap"
  defines "b \<equiv> record_bytes (stamped r)"
  shows "length b \<le> cap - length w \<Longrightarrow> write_record (disk_env cap now) (fst r) (snd r) cw w =
           (True, cw\<lparr>w_records := w_records cw + 1, w_bytes := w_bytes cw + of_nat (length b)\<rparr>, w @ b)"
    and "\<not> length b \<le> cap - length w \<Longrightarrow> \<exists>msg. write_record (disk_env cap now) (fst r) (snd r) cw w =
           (False, w_fail msg cw, w @ take (cap - length w) b)"
proof -
  have len: "length b = 32 + length (snd r)" by (simp add: b_def stamped_def length_record_bytes)
  have b: "b = record_header_bytes ((fst r)\<lparr>rh_payload_length := of_nat (length (snd r))\<rparr>) @ snd r"
    by (simp add: b_def record_bytes_def stamped_def)
  show "length b \<le> cap - length w \<Longrightarrow> write_record (disk_env cap now) (fst r) (snd r) cw w =
           (True, cw\<lparr>w_records := w_records cw + 1, w_bytes := w_bytes cw + of_nat (length b)\<rparr>, w @ b)"
    using assms(1-3) len
    by (simp add: write_record_def disk_env_def encode_record_header_eq kRecordHeaderSize_def Let_def b min_def) linarith
  show "\<not> length b \<le> cap - length w \<Longrightarrow> \<exists>msg. write_record (disk_env cap now) (fst r) (snd r) cw w =
           (False, w_fail msg cw, w @ take (cap - length w) b)"
  proof (cases "cap - length w < 32")
    case True
    with assms(1-3) show ?thesis
      by (simp add: write_record_def disk_env_def encode_record_header_eq kRecordHeaderSize_def Let_def b min_def) blast
  next
    case False
    moreover assume "\<not> length b \<le> cap - length w"
    ultimately show ?thesis
      using assms(1-3) len
      by (simp add: write_record_def disk_env_def encode_record_header_eq kRecordHeaderSize_def Let_def b min_def) auto
  qed
qed

lemma write_all_disk:
  "w_is_open cw \<Longrightarrow> \<not> w_failed cw \<Longrightarrow> length w \<le> cap \<Longrightarrow>
   write_all (disk_env cap now) rs cw w = (goods, cw', w') \<Longrightarrow>
   w' = w @ take (cap - length w) (records_bytes (map stamped rs)) \<and>
   accepted rs goods = complete_records (cap - length w) (map stamped rs) \<and>
   w_records cw' = w_records cw + of_nat (length (accepted rs goods)) \<and>
   w_bytes cw' = w_bytes cw + of_nat (length (records_bytes (accepted rs goods))) \<and>
   (\<exists>n. goods = replicate n True @ replicate (length rs - n) False)"
proof (induction rs arbitrary: cw w goods cw' w')
  case (Cons r rs)
  let ?b = "record_bytes (stamped r)"
  show ?case
  proof (cases "length ?b \<le> cap - length w")
    case True
    let ?cw = "cw\<lparr>w_records := w_records cw + 1, w_bytes := w_bytes cw + of_nat (length ?b)\<rparr>"
    obtain goods' where rest: "write_all (disk_env cap now) rs ?cw (w @ ?b) = (goods', cw', w')" and goods: "goods = True # goods'"
      using Cons.prems write_record_disk(1) [OF Cons.prems(1-3) True, of now] by (auto split: prod.splits)
    have "length (w @ ?b) \<le> cap" using True Cons.prems(3) by simp
    with Cons.IH [OF _ _ this rest] Cons.prems(1,2) have IH:
      "w' = w @ ?b @ take (cap - length w - length ?b) (records_bytes (map stamped rs))"
      "accepted rs goods' = complete_records (cap - length w - length ?b) (map stamped rs)"
      "w_records cw' = w_records ?cw + of_nat (length (accepted rs goods'))"
      "w_bytes cw' = w_bytes ?cw + of_nat (length (records_bytes (accepted rs goods')))"
      "\<exists>n. goods' = replicate n True @ replicate (length rs - n) False"
      by simp_all
    from IH(5) obtain n where "goods' = replicate n True @ replicate (length rs - n) False" by blast
    then have "goods = replicate (Suc n) True @ replicate (length (r # rs) - Suc n) False" using goods by simp
    then show ?thesis
      using True IH(1-4) goods by (intro conjI exI [of _ "Suc n"]) (simp_all add: add_ac)
  next
    case False
    then obtain msg where "write_record (disk_env cap now) (fst r) (snd r) cw w = (False, w_fail msg cw, w @ take (cap - length w) ?b)"
      using write_record_disk(2) [OF Cons.prems(1-3)] by blast
    with Cons.prems have "goods = False # replicate (length rs) False \<and> cw' = w_fail msg cw \<and> w' = w @ take (cap - length w) ?b"
      by (simp add: write_all_failed w_fail_def)
    with False show ?thesis by (intro conjI exI [of _ 0]) (simp_all add: w_fail_def)
  qed
qed simp

text \<open>A recording session: open the file, then write the messages. The third result is the content of the file.\<close>

definition record_session :: "'w CaptureEnv \<Rightarrow> string \<Rightarrow> u16 \<Rightarrow> capture_record list \<Rightarrow> 'w \<Rightarrow> bool list \<times> CaptureWriter \<times> 'w" where
  "record_session env path wire rs w =
     (case writer_open env path wire new_CaptureWriter w of
        (False, cw, w) \<Rightarrow> ([], cw, w)
      | (True, cw, w) \<Rightarrow> write_all env rs cw w)"

lemma record_session_disk:
  assumes "kFileHeaderSize \<le> cap" "record_session (disk_env cap now) path wire rs [] = (goods, cw, w)"
  defines "h \<equiv> default_FileHeader\<lparr>fh_created_ns := now, fh_wire_version := wire\<rparr>"
  shows "w = take cap (file_bytes h (map stamped rs))"
    and "accepted rs goods = complete_records (cap - kFileHeaderSize) (map stamped rs)"
    and "w_records cw = of_nat (length (accepted rs goods))"
    and "w_bytes cw = of_nat (length (file_bytes h (accepted rs goods)))"
    and "\<exists>n. goods = replicate n True @ replicate (length rs - n) False"
    and "ok_file_header h"
proof -
  let ?cw = "\<lparr>w_is_open = True, w_path = path, w_last_error = [], w_failed = False, w_records = 0, w_bytes = 32\<rparr>"
  have cap: "32 \<le> cap" using assms(1) by (simp add: kFileHeaderSize_def)
  then have "write_all (disk_env cap now) rs ?cw (file_header_bytes h) = (goods, cw, w)"
    using assms(2)
    by (simp add: record_session_def writer_open_def new_CaptureWriter_def disk_env_def h_def encode_file_header_eq
        kFileHeaderSize_def Let_def)
  from write_all_disk [OF _ _ _ this] cap
  show "w = take cap (file_bytes h (map stamped rs))"
    "accepted rs goods = complete_records (cap - kFileHeaderSize) (map stamped rs)"
    "w_records cw = of_nat (length (accepted rs goods))"
    "w_bytes cw = of_nat (length (file_bytes h (accepted rs goods)))"
    "\<exists>n. goods = replicate n True @ replicate (length rs - n) False"
    by (simp_all add: file_bytes_def kFileHeaderSize_def)
  show "ok_file_header h"
    by (simp add: h_def ok_file_header_def default_FileHeader_def kFileHeaderSize_def)
qed



section \<open>Header round trips\<close>

text \<open>The headers of the capture file survive the round trip: a record header written into any 32 byte
  buffer, whatever follows it in the stream, decodes to the same record header, and a file header of the current
  version whose length covers the fixed part decodes to itself; a buffer that is too short, or that starts with
  another magic number, is rejected and leaves the caller's header as it was.\<close>

theorem capture_headers_roundtrip:
  assumes "length out = kRecordHeaderSize" "length fout = kFileHeaderSize"
    "fh_version fh = kFormatVersion" "kFileHeaderSize \<le> unat (fh_header_length fh)"
    "length bad < 32 \<or> get_u32le bad 0 \<notin> {kFileMagic, kRecordMagic}"
  shows "decode_record_header (encode_record_header h out @ rest) h0 = (True, h) \<and>
    decode_file_header (encode_file_header fh fout @ rest) fh0 = (True, fh) \<and>
    decode_record_header bad h0 = (False, h0) \<and> decode_file_header bad fh0 = (False, fh0)"
proof (intro conjI)
  show "decode_record_header (encode_record_header h out @ rest) h0 = (True, h)"
    using assms(1) by (simp add: encode_record_header_eq decode_record_header_bytes)
  show "decode_file_header (encode_file_header fh fout @ rest) fh0 = (True, fh)"
    using assms(2-4) by (simp add: encode_file_header_eq decode_file_header_bytes)
  show "decode_record_header bad h0 = (False, h0)" "decode_file_header bad fh0 = (False, fh0)"
    using assms(5) by (auto simp: decode_record_header_def decode_file_header_def kRecordHeaderSize_def kFileHeaderSize_def)
qed

lemma capture_headers_roundtrip_witness:
  "decode_record_header (encode_record_header default_RecordHeader (replicate kRecordHeaderSize 0) @ []) default_RecordHeader =
     (True, default_RecordHeader) \<and>
   decode_file_header (encode_file_header default_FileHeader (replicate kFileHeaderSize 0) @ []) default_FileHeader =
     (True, default_FileHeader) \<and>
   decode_record_header [] default_RecordHeader = (False, default_RecordHeader) \<and>
   decode_file_header [] default_FileHeader = (False, default_FileHeader)"
  by (rule capture_headers_roundtrip) (simp_all add: default_FileHeader_def kFileHeaderSize_def)

end
