(* ===== verification/Receiver.thy ===== *)
theory Receiver
  imports Receiver_Config Receiver_Stats Reassembler Sequence_Tracker Capture Platform
begin

text \<open>
  The receiver core: tools/receiver/receiver.hpp and receiver.cpp. The sockets, the clocks, ZeroMQ, the shutdown flag
  and the stdio of the capture file are the parameter \<open>env\<close>, functions on a world state \<open>'w\<close>. A method returns
  its result, the receiver and the world; those that may loop without a bound (EINTR, the eviction loop of the
  reassembler) return an option. Log output is left out, the budget of the malformed log is kept.
\<close>

section \<open>State\<close>

record 'w ReceiverEnv =
  re_capture :: "'w CaptureEnv"
  re_monotonic :: "'w \<Rightarrow> u64 \<times> 'w"
  re_recvmsg :: "'w \<Rightarrow> MsgResult \<times> 'w"
  re_recv_command :: "'w \<Rightarrow> RecvResult \<times> 'w"
  re_send_stats :: "string \<Rightarrow> bool \<Rightarrow> 'w \<Rightarrow> bool \<times> 'w"
  re_poll :: "bool \<Rightarrow> int \<Rightarrow> 'w \<Rightarrow> PollResult \<times> 'w"
  re_shutdown_requested :: "'w \<Rightarrow> bool"
  re_udp_open :: "'w \<Rightarrow> string option \<times> 'w"
  re_zmq_ctx_new :: "'w \<Rightarrow> Errno option \<times> 'w"
  re_zmq_pub :: "'w \<Rightarrow> Errno option \<times> 'w"
  re_zmq_bind_pub :: "string \<Rightarrow> 'w \<Rightarrow> Errno option \<times> 'w"
  re_zmq_sub :: "string \<Rightarrow> 'w \<Rightarrow> Errno option \<times> 'w"
  re_zmq_attach_sub :: "bool \<Rightarrow> string \<Rightarrow> 'w \<Rightarrow> Errno option \<times> 'w"
  re_zmq_strerror :: "Errno \<Rightarrow> string"

record Receiver =
  rv_cfg :: ReceiverConfig
  has_stats_pub :: bool
  has_command_sub :: bool
  rv_buffer :: "byte list"
  rv_frames :: "byte list list"
  rv_reassembler :: Reassembler
  rv_sequences :: tracker
  rv_writer :: CaptureWriter
  recording :: bool
  rv_stats :: ReceiverStats
  kernel_drops_raw :: u32
  next_stats_ns :: u64
  next_sweep_ns :: u64
  next_flush_ns :: u64
  malformed_log_budget :: u64

definition reassembler_config :: "ReceiverConfig \<Rightarrow> ReassemblerConfig" where
  "reassembler_config cfg =
     \<lparr>max_pending = nat (reassembly_max_pending cfg),
      timeout_ns = of_int (reassembly_timeout_ms cfg) * kNsPerMs,
      max_message_length = unat (reassembly_max_message_bytes cfg)\<rparr>"

definition new_Receiver :: "ReceiverConfig \<Rightarrow> Receiver" where
  "new_Receiver cfg =
     \<lparr>rv_cfg = cfg, has_stats_pub = False, has_command_sub = False,
      rv_buffer = replicate (kMaxUdpPayload + 1) 0, rv_frames = [],
      rv_reassembler = new_Reassembler (reassembler_config cfg), rv_sequences = [], rv_writer = new_CaptureWriter,
      recording = False, rv_stats = zero_ReceiverStats\<lparr>rs_capture_file := capture_file cfg\<rparr>,
      kernel_drops_raw = 0, next_stats_ns = 0, next_sweep_ns = 0, next_flush_ns = 0, malformed_log_budget = 20\<rparr>"

definition on_rs :: "(ReceiverStats \<Rightarrow> ReceiverStats) \<Rightarrow> Receiver \<Rightarrow> Receiver" where
  "on_rs f rv = rv\<lparr>rv_stats := f (rv_stats rv)\<rparr>"

text \<open>\<open>stats_.sources[id]\<close>: a new source starts at zero.\<close>

definition source_of :: "ReceiverStats \<Rightarrow> u32 \<Rightarrow> ReceiverSourceStats" where
  "source_of s src = (case smap_get (rs_sources s) src of None \<Rightarrow> zero_ReceiverSourceStats | Some ss \<Rightarrow> ss)"

definition on_src :: "u32 \<Rightarrow> (ReceiverSourceStats \<Rightarrow> ReceiverSourceStats) \<Rightarrow> ReceiverStats \<Rightarrow> ReceiverStats" where
  "on_src src f s = s\<lparr>rs_sources := smap_put src (f (source_of s src)) (rs_sources s)\<rparr>"

section \<open>Recording\<close>

definition with_capture :: "CaptureWriter \<Rightarrow> bool \<Rightarrow> nat \<Rightarrow> ReceiverStats \<Rightarrow> ReceiverStats" where
  "with_capture cw rec pend s = s\<lparr>rs_recording_enabled := rec, rs_capture_open := w_is_open cw, rs_capture_failed := w_failed cw,
     rs_capture_error := w_last_error cw, rs_records_written := w_records cw, rs_record_bytes := w_bytes cw,
     rs_reassembly_pending := of_nat pend\<rparr>"

definition refresh_capture_stats :: "Receiver \<Rightarrow> Receiver" where
  "refresh_capture_stats rv = on_rs (with_capture (rv_writer rv) (recording rv) (pending (rv_reassembler rv))) rv"

definition count_write_error :: "Receiver \<Rightarrow> Receiver" where
  "count_write_error = on_rs (\<lambda>s. s\<lparr>rs_write_errors := rs_write_errors s + 1\<rparr>)"

definition set_recording :: "'w ReceiverEnv \<Rightarrow> bool \<Rightarrow> Receiver \<Rightarrow> 'w \<Rightarrow> bool \<times> Receiver \<times> 'w" where
  "set_recording env enabled rv w =
     (if enabled then
        if w_failed (rv_writer rv) then (False, rv, w)
        else if \<not> w_is_open (rv_writer rv) then
          (case writer_open (re_capture env) (capture_file (rv_cfg rv)) kVersion (rv_writer rv) w of
             (False, cw, w) \<Rightarrow> (False, refresh_capture_stats (rv\<lparr>rv_writer := cw\<rparr>), w)
           | (True, cw, w) \<Rightarrow> (True, refresh_capture_stats (rv\<lparr>rv_writer := cw, recording := True\<rparr>), w))
        else (True, refresh_capture_stats (rv\<lparr>recording := True\<rparr>), w)
      else
        let (rv, w) =
          (if recording rv \<and> w_is_open (rv_writer rv) then
             (case writer_flush (re_capture env) True (rv_writer rv) w of
                (False, cw, w) \<Rightarrow> (count_write_error (rv\<lparr>rv_writer := cw\<rparr>), w)
              | (True, cw, w) \<Rightarrow> (rv\<lparr>rv_writer := cw\<rparr>, w))
           else (rv, w))
        in (True, refresh_capture_stats (rv\<lparr>recording := False\<rparr>), w))"

section \<open>Commands\<close>

definition blank_separators :: "string \<Rightarrow> string" where
  "blank_separators s = map (\<lambda>c. if c \<in> {CHR ''_'', CHR ''='', CHR '':''} then CHR '' '' else c) s"

definition collapse_spaces :: "string \<Rightarrow> string" where
  "collapse_spaces s =
     foldl (\<lambda>norm c. if c = CHR '' '' \<and> norm \<noteq> [] \<and> last norm = CHR '' '' then norm else norm @ [c]) [] s"

definition normalise_command :: "string \<Rightarrow> string" where
  "normalise_command s = collapse_spaces (blank_separators (to_lower (trim s)))"

definition stats_json :: "'w ReceiverEnv \<Rightarrow> Receiver \<Rightarrow> 'w \<Rightarrow> string \<times> 'w" where
  "stats_json env rv w =
     (let s = with_capture (rv_writer rv) (recording rv) (pending (rv_reassembler rv)) (rv_stats rv);
          (mono, w) = re_monotonic env w;
          (real, w) = ce_realtime (re_capture env) w
      in (stats_to_json s mono real, w))"

definition handle_command :: "'w ReceiverEnv \<Rightarrow> string \<Rightarrow> Receiver \<Rightarrow> 'w \<Rightarrow> bool \<times> Receiver \<times> 'w" where
  "handle_command env cmd rv w =
     (let rv = on_rs (\<lambda>s. s\<lparr>rs_commands := rs_commands s + 1\<rparr>) rv;
          norm = normalise_command cmd
      in if norm \<in> {''record on'', ''record start'', ''record enable'', ''record true'', ''record 1''}
         then set_recording env True rv w
         else if norm \<in> {''record off'', ''record stop'', ''record disable'', ''record false'', ''record 0''}
         then set_recording env False rv w
         else if norm = ''record toggle'' then set_recording env (\<not> recording rv) rv w
         else if norm = ''flush'' then
           if w_is_open (rv_writer rv) then
             (case writer_flush (re_capture env) True (rv_writer rv) w of
                (False, cw, w) \<Rightarrow> (False, refresh_capture_stats (count_write_error (rv\<lparr>rv_writer := cw\<rparr>)), w)
              | (True, cw, w) \<Rightarrow> (True, rv\<lparr>rv_writer := cw\<rparr>, w))
           else (True, rv, w)
         else if norm = ''stats'' \<or> norm = ''status'' then (case stats_json env rv w of (_, w) \<Rightarrow> (True, rv, w))
         else (False, rv, w))"

section \<open>Datagrams\<close>

definition note_malformed :: "string \<Rightarrow> u32 \<Rightarrow> bool \<Rightarrow> Receiver \<Rightarrow> Receiver" where
  "note_malformed reason src have_source rv =
     (let rv = on_rs (\<lambda>s. s\<lparr>rs_malformed := rs_malformed s + 1,
            malformed_by_reason := smap_put reason
              ((case smap_get (malformed_by_reason s) reason of None \<Rightarrow> 0 | Some n \<Rightarrow> n) + 1) (malformed_by_reason s)\<rparr>) rv;
          rv = (if have_source then on_rs (on_src src (\<lambda>ss. ss\<lparr>ss_malformed := ss_malformed ss + 1\<rparr>)) rv else rv)
      in if malformed_log_budget rv > 0 then rv\<lparr>malformed_log_budget := malformed_log_budget rv - 1\<rparr> else rv)"

definition on_complete :: "'w ReceiverEnv \<Rightarrow> CompletedMessage \<Rightarrow> Receiver \<Rightarrow> 'w \<Rightarrow> Receiver \<times> 'w" where
  "on_complete env m rv w =
     (let rv = on_rs (\<lambda>s. s\<lparr>rs_messages := rs_messages s + 1, rs_payload_bytes := rs_payload_bytes s + of_nat (m_length m)\<rparr>) rv;
          rv = on_rs (on_src (m_source_id m) (\<lambda>ss. ss\<lparr>ss_messages := ss_messages ss + 1,
                 ss_payload_bytes := ss_payload_bytes ss + of_nat (m_length m), ss_last_sequence := m_sequence m,
                 ss_last_timestamp_ns := m_timestamp_ns m\<rparr>)) rv
      in if \<not> recording rv \<or> \<not> w_is_open (rv_writer rv) \<or> w_failed (rv_writer rv)
         then (on_rs (\<lambda>s. s\<lparr>rs_records_skipped := rs_records_skipped s + 1\<rparr>) rv, w)
         else
           let rh = default_RecordHeader\<lparr>rh_source_id := m_source_id m, rh_sequence := m_sequence m,
                      rh_timestamp_ns := m_timestamp_ns m, rh_flags := m_flags m\<rparr>
           in case write_record (re_capture env) rh (take (m_length m) (m_data m)) (rv_writer rv) w of
                (False, cw, w) \<Rightarrow>
                  (refresh_capture_stats ((count_write_error (rv\<lparr>rv_writer := cw\<rparr>))\<lparr>recording := False\<rparr>), w)
              | (True, cw, w) \<Rightarrow>
                  (on_rs (on_src (m_source_id m) (\<lambda>ss. ss\<lparr>ss_records_written := ss_records_written ss + 1\<rparr>))
                     (rv\<lparr>rv_writer := cw\<rparr>), w))"

text \<open>The sequence check of a message seen for the first time.\<close>

definition note_sequence :: "Header \<Rightarrow> Receiver \<Rightarrow> Receiver" where
  "note_sequence hdr rv =
     (case observe (rv_sequences rv) (source_id hdr) (sequence hdr) of (outcome, missing, sequences) \<Rightarrow>
        let rv = rv\<lparr>rv_sequences := sequences\<rparr> in
        case outcome of
          Gap \<Rightarrow> on_rs (on_src (source_id hdr) (\<lambda>ss. ss\<lparr>ss_gap_events := ss_gap_events ss + 1,
                   ss_missing := ss_missing ss + missing\<rparr>)) rv
        | OutOfOrder \<Rightarrow> on_rs (on_src (source_id hdr) (\<lambda>ss. ss\<lparr>ss_out_of_order := ss_out_of_order ss + 1\<rparr>)) rv
        | _ \<Rightarrow> rv)"

definition handle_datagram :: "'w ReceiverEnv \<Rightarrow> byte list \<Rightarrow> Receiver \<Rightarrow> 'w \<Rightarrow> (Receiver \<times> 'w) option" where
  "handle_datagram env data rv w =
     (case parse_datagram data default_Header of (perr, hdr, payload) \<Rightarrow>
        if perr \<noteq> NoError then
          Some (note_malformed (error_to_string perr) (source_id hdr)
                  (perr \<noteq> Truncated \<and> perr \<noteq> BadMagic \<and> perr \<noteq> BadVersion) rv, w)
        else
          let rv = on_rs (\<lambda>s. s\<lparr>rs_datagrams := rs_datagrams s + 1, rs_datagram_bytes := rs_datagram_bytes s + of_nat (length data)\<rparr>) rv;
              rv = on_rs (on_src (source_id hdr) (\<lambda>ss. ss\<lparr>ss_datagrams := ss_datagrams ss + 1\<rparr>)) rv;
              (now, w) = re_monotonic env w
          in case add hdr (the payload) now (rv_reassembler rv) of
               None \<Rightarrow> None
             | Some (res, msg, new_message, reasm) \<Rightarrow>
                 let rv = rv\<lparr>rv_reassembler := reasm\<rparr>;
                     rv = (if new_message then note_sequence hdr rv else rv)
                 in case res of
                      Complete \<Rightarrow> Some (on_complete env msg rv w)
                    | Incomplete \<Rightarrow> Some (rv, w)
                    | Duplicate \<Rightarrow>
                        Some (on_rs (on_src (source_id hdr) (\<lambda>ss. ss\<lparr>ss_duplicates := ss_duplicates ss + 1\<rparr>))
                                (on_rs (\<lambda>s. s\<lparr>rs_duplicates := rs_duplicates s + 1\<rparr>) rv), w)
                    | Malformed \<Rightarrow> Some (note_malformed ''fragment_inconsistent'' (source_id hdr) True rv, w))"

definition count_recv_error :: "Receiver \<Rightarrow> Receiver" where
  "count_recv_error = on_rs (\<lambda>s. s\<lparr>rs_recv_errors := rs_recv_errors s + 1\<rparr>)"

fun drain_udp_loop :: "'w ReceiverEnv \<Rightarrow> nat \<Rightarrow> Receiver \<Rightarrow> 'w \<Rightarrow> (Receiver \<times> 'w) option" where
  "drain_udp_loop env 0 rv w = Some (rv, w)"
| "drain_udp_loop env (Suc budget) rv w =
     (case udp_receive (re_recvmsg env) (rv_buffer rv) (kernel_drops_raw rv) w of
        None \<Rightarrow> None
      | Some (n, buf, drops, w) \<Rightarrow>
          let rv = rv\<lparr>rv_buffer := buf, kernel_drops_raw := drops\<rparr> in
          if n = 0 then Some (rv, w)
          else if n < 0 then Some (count_recv_error rv, w)
          else if n > int (length (rv_buffer rv)) then
            drain_udp_loop env budget
              (note_malformed ''oversize'' 0 False (on_rs (\<lambda>s. s\<lparr>rs_oversize := rs_oversize s + 1\<rparr>) rv)) w
          else
            (case handle_datagram env (take (nat n) (rv_buffer rv)) rv w of
               None \<Rightarrow> None
             | Some (rv, w) \<Rightarrow> drain_udp_loop env budget rv w))"

definition drain_udp :: "'w ReceiverEnv \<Rightarrow> Receiver \<Rightarrow> 'w \<Rightarrow> (Receiver \<times> 'w) option" where
  "drain_udp env rv w =
     (case drain_udp_loop env (nat (max_datagrams_per_poll (rv_cfg rv))) rv w of
        None \<Rightarrow> None
      | Some (rv, w) \<Rightarrow> Some (on_rs (\<lambda>s. s\<lparr>rs_kernel_drops := ucast (kernel_drops_raw rv)\<rparr>) rv, w))"

fun drain_commands_loop :: "'w ReceiverEnv \<Rightarrow> nat \<Rightarrow> Receiver \<Rightarrow> 'w \<Rightarrow> (Receiver \<times> 'w) option" where
  "drain_commands_loop env 0 rv w = Some (rv, w)"
| "drain_commands_loop env (Suc n) rv w =
     (case zmq_recv_multipart_nowait (re_recv_command env) w of
        None \<Rightarrow> None
      | Some (rc, frames, w) \<Rightarrow>
          let rv = rv\<lparr>rv_frames := frames\<rparr> in
          if rc \<le> 0 then Some (rv, w)
          else
            let f = (if length frames \<ge> 2 then frames ! 1 else frames ! 0);
                (_, rv, w) = handle_command env (map (\<lambda>b. char_of (unat b)) f) rv w
            in drain_commands_loop env n rv w)"

definition drain_commands :: "'w ReceiverEnv \<Rightarrow> Receiver \<Rightarrow> 'w \<Rightarrow> (Receiver \<times> 'w) option" where
  "drain_commands env rv w = drain_commands_loop env 64 rv w"

section \<open>Periodic work\<close>

definition publish_stats :: "'w ReceiverEnv \<Rightarrow> Receiver \<Rightarrow> 'w \<Rightarrow> Receiver \<times> 'w" where
  "publish_stats env rv w =
     (let (json, w) = stats_json env rv w
      in if has_stats_pub rv
         then (case zmq_send_frames (re_send_stats env) [stats_topic (rv_cfg rv), json] w of
                 (True, w) \<Rightarrow> (on_rs (\<lambda>s. s\<lparr>stats_published := stats_published s + 1\<rparr>) rv, w)
               | (False, w) \<Rightarrow> (on_rs (\<lambda>s. s\<lparr>stats_publish_failures := stats_publish_failures s + 1\<rparr>) rv, w))
         else (rv, w))"

definition note_expired :: "ExpiredMessage \<Rightarrow> Receiver \<Rightarrow> Receiver" where
  "note_expired e rv =
     on_rs (on_src (x_source_id e) (\<lambda>ss. ss\<lparr>ss_incomplete := ss_incomplete ss + 1\<rparr>))
       (on_rs (\<lambda>s. s\<lparr>rs_incomplete := rs_incomplete s + 1\<rparr>) rv)"

definition sweep_reassembly :: "'w ReceiverEnv \<Rightarrow> Receiver \<Rightarrow> 'w \<Rightarrow> Receiver \<times> 'w" where
  "sweep_reassembly env rv w =
     (let (now, w) = re_monotonic env w;
          (reasm, expired) = expire now (rv_reassembler rv)
      in (fold note_expired expired (rv\<lparr>rv_reassembler := reasm\<rparr>), w))"

definition sweep_interval :: "ReceiverConfig \<Rightarrow> u64" where
  "sweep_interval cfg = max 10 (of_int (reassembly_timeout_ms cfg) div 4) * kNsPerMs"

definition periodic :: "'w ReceiverEnv \<Rightarrow> Receiver \<Rightarrow> 'w \<Rightarrow> Receiver \<times> 'w" where
  "periodic env rv w =
     (let (now, w) = re_monotonic env w;
          (rv, w) = (if now \<ge> next_sweep_ns rv
                     then (case sweep_reassembly env rv w of (rv, w) \<Rightarrow>
                             (rv\<lparr>next_sweep_ns := now + sweep_interval (rv_cfg rv)\<rparr>, w))
                     else (rv, w));
          (rv, w) = (if capture_flush_interval_ms (rv_cfg rv) > 0 \<and> now \<ge> next_flush_ns rv
                     then let (rv, w) =
                            (if w_is_open (rv_writer rv) \<and> \<not> w_failed (rv_writer rv) then
                               (case writer_flush (re_capture env) (capture_sync_on_flush (rv_cfg rv)) (rv_writer rv) w of
                                  (False, cw, w) \<Rightarrow> (count_write_error (rv\<lparr>rv_writer := cw\<rparr>), w)
                                | (True, cw, w) \<Rightarrow> (rv\<lparr>rv_writer := cw\<rparr>, w))
                             else (rv, w))
                          in (rv\<lparr>next_flush_ns := now + of_int (capture_flush_interval_ms (rv_cfg rv)) * kNsPerMs\<rparr>, w)
                     else (rv, w))
      in if now \<ge> next_stats_ns rv
         then (case publish_stats env rv w of (rv, w) \<Rightarrow>
                 (rv\<lparr>next_stats_ns := now + of_int (rc_stats_interval_ms (rv_cfg rv)) * kNsPerMs\<rparr>, w))
         else (rv, w))"

definition receiver_poll_once :: "'w ReceiverEnv \<Rightarrow> int \<Rightarrow> Receiver \<Rightarrow> 'w \<Rightarrow> (bool \<times> Receiver \<times> 'w) option" where
  "receiver_poll_once env timeout_ms rv w =
     (case re_poll env (has_command_sub rv) timeout_ms w of
        (PollFailed err, w) \<Rightarrow> Some (err = E_INTR, rv, w)
      | (Ready rc revents, w) \<Rightarrow>
          (case (if rc > 0 \<and> revents ! 0 then drain_udp env rv w else Some (rv, w)) of
             None \<Rightarrow> None
           | Some (rv, w) \<Rightarrow>
               (case (if rc > 0 \<and> has_command_sub rv \<and> revents ! 1 then drain_commands env rv w else Some (rv, w)) of
                  None \<Rightarrow> None
                | Some (rv, w) \<Rightarrow> (case periodic env rv w of (rv, w) \<Rightarrow> Some (True, rv, w)))))"

section \<open>Start and main loop\<close>

definition init_stats_socket :: "'w ReceiverEnv \<Rightarrow> Receiver \<Rightarrow> 'w \<Rightarrow> string option \<times> Receiver \<times> 'w" where
  "init_stats_socket env rv w =
     (if stats_endpoint (rv_cfg rv) = [] then (None, rv, w)
      else case re_zmq_pub env w of
        (Some err, w) \<Rightarrow> (Some (''zmq_socket(PUB): '' @ re_zmq_strerror env err), rv, w)
      | (None, w) \<Rightarrow>
          let rv = rv\<lparr>has_stats_pub := True\<rparr> in
          case re_zmq_bind_pub env (stats_endpoint (rv_cfg rv)) w of
            (Some err, w) \<Rightarrow> (Some (quoted_in ''zmq_bind('' (stats_endpoint (rv_cfg rv)) '') for statistics: '' @ re_zmq_strerror env err), rv, w)
          | (None, w) \<Rightarrow> (None, rv, w))"

definition init_command_socket :: "'w ReceiverEnv \<Rightarrow> Receiver \<Rightarrow> 'w \<Rightarrow> string option \<times> Receiver \<times> 'w" where
  "init_command_socket env rv w =
     (if command_endpoint (rv_cfg rv) = [] then (None, rv, w)
      else case re_zmq_sub env (command_topic (rv_cfg rv)) w of
        (Some err, w) \<Rightarrow> (Some (''zmq_socket(SUB): '' @ re_zmq_strerror env err), rv, w)
      | (None, w) \<Rightarrow>
          let rv = rv\<lparr>has_command_sub := True\<rparr> in
          case re_zmq_attach_sub env (command_bind (rv_cfg rv)) (command_endpoint (rv_cfg rv)) w of
            (Some err, w) \<Rightarrow>
              (Some (quoted_in (if command_bind (rv_cfg rv) then ''zmq_bind('' else ''zmq_connect('') (command_endpoint (rv_cfg rv))
                 '') for commands: '' @ re_zmq_strerror env err), rv, w)
          | (None, w) \<Rightarrow> (None, rv, w))"

definition init :: "'w ReceiverEnv \<Rightarrow> Receiver \<Rightarrow> 'w \<Rightarrow> string option \<times> Receiver \<times> 'w" where
  "init env rv w =
     (let (mono, w) = re_monotonic env w;
          (real, w) = ce_realtime (re_capture env) w;
          rv = on_rs (\<lambda>s. s\<lparr>start_monotonic_ns := mono, start_realtime_ns := real\<rparr>) rv
      in case re_udp_open env w of
        (Some err, w) \<Rightarrow> (Some (''UDP multicast receiver: '' @ err), rv, w)
      | (None, w) \<Rightarrow>
      (case re_zmq_ctx_new env w of
        (Some err, w) \<Rightarrow> (Some (''zmq_ctx_new: '' @ re_zmq_strerror env err), rv, w)
      | (None, w) \<Rightarrow>
      (case init_stats_socket env rv w of
        (Some err, rv, w) \<Rightarrow> (Some err, rv, w)
      | (None, rv, w) \<Rightarrow>
      (case init_command_socket env rv w of
        (Some err, rv, w) \<Rightarrow> (Some err, rv, w)
      | (None, rv, w) \<Rightarrow>
          let (good, rv, w) = (if record_on_start (rv_cfg rv) then set_recording env True rv w else (True, rv, w))
          in if \<not> good then (Some (''capture file: '' @ w_last_error (rv_writer rv)), rv, w)
             else
               let (now, w) = re_monotonic env w; cfg = rv_cfg rv
               in (None, rv\<lparr>next_stats_ns := now + of_int (rc_stats_interval_ms cfg) * kNsPerMs,
                           next_sweep_ns := now + sweep_interval cfg,
                           next_flush_ns := now + of_int (capture_flush_interval_ms cfg) * kNsPerMs\<rparr>, w)))))"

definition poll_timeout :: "Receiver \<Rightarrow> u64 \<Rightarrow> int" where
  "poll_timeout rv now =
     (let nxt = min (next_stats_ns rv) (next_sweep_ns rv);
          nxt = (if capture_flush_interval_ms (rv_cfg rv) > 0 then min nxt (next_flush_ns rv) else nxt)
      in if nxt > now then sint ((nxt - now) div kNsPerMs + 1) else 0)"

partial_function (option) run_loop :: "'w ReceiverEnv \<Rightarrow> Receiver \<Rightarrow> 'w \<Rightarrow> (Receiver \<times> 'w) option" where
  "run_loop env rv w =
     (if re_shutdown_requested env w then Some (rv, w)
      else case re_monotonic env w of (now, w) \<Rightarrow>
        (case receiver_poll_once env (poll_timeout rv now) rv w of
           None \<Rightarrow> None
         | Some (good, rv, w) \<Rightarrow> if good then run_loop env rv w else Some (rv, w)))"

definition run_receiver :: "'w ReceiverEnv \<Rightarrow> Receiver \<Rightarrow> 'w \<Rightarrow> (int \<times> Receiver \<times> 'w) option" where
  "run_receiver env rv w =
     (case run_loop env rv w of
        None \<Rightarrow> None
      | Some (rv, w) \<Rightarrow>
          let (rv, w) = sweep_reassembly env rv w;
              (code, rv, w) =
                (if w_is_open (rv_writer rv) then
                   (case writer_close (re_capture env) (rv_writer rv) w of
                      (True, cw, w) \<Rightarrow> (0, rv\<lparr>rv_writer := cw\<rparr>, w)
                    | (False, cw, w) \<Rightarrow> (1, count_write_error (rv\<lparr>rv_writer := cw\<rparr>), w))
                 else (0, rv, w));
              (_, w) = stats_json env rv w
          in Some (code, rv, w))"

end
