(* ===== verification/Receiver_Invariant.thy ===== *)
theory Receiver_Invariant
  imports Receiver
begin

text \<open>
  The receiver's accounting: an invariant that ties every total of the statistics to its parts, kept by every handler
  of theory \<open>Receiver\<close>, and the runs of the receiver built on it.
\<close>

section \<open>Accounting invariant\<close>

text \<open>A counter summed over the sources; like the counters themselves the sum wraps around.\<close>

definition src_sum :: "(ReceiverSourceStats \<Rightarrow> u64) \<Rightarrow> ReceiverStats \<Rightarrow> u64" where
  "src_sum g s = (\<Sum>kv\<leftarrow>rs_sources s. g (snd kv))"

definition reason_sum :: "ReceiverStats \<Rightarrow> u64" where
  "reason_sum s = (\<Sum>kv\<leftarrow>malformed_by_reason s. snd kv)"

definition maps_ok :: "ReceiverStats \<Rightarrow> bool" where
  "maps_ok s \<longleftrightarrow> smap_inv (rs_sources s) \<and> smap_inv (malformed_by_reason s)"

text \<open>Every total is the sum of its parts.\<close>

definition totals_ok :: "ReceiverStats \<Rightarrow> bool" where
  "totals_ok s \<longleftrightarrow> maps_ok s \<and> rs_malformed s = reason_sum s \<and> rs_datagrams s = src_sum ss_datagrams s \<and>
     rs_messages s = src_sum ss_messages s \<and> rs_payload_bytes s = src_sum ss_payload_bytes s \<and>
     rs_duplicates s = src_sum ss_duplicates s \<and> rs_incomplete s = src_sum ss_incomplete s"

text \<open>Every complete message is recorded, skipped, or the one message whose write failed.\<close>

definition records_ok :: "CaptureWriter \<Rightarrow> bool \<Rightarrow> ReceiverStats \<Rightarrow> bool" where
  "records_ok cw rec s \<longleftrightarrow> w_records cw = src_sum ss_records_written s \<and>
     (rs_messages s = w_records cw + rs_records_skipped s \<or>
      w_failed cw \<and> rs_messages s = w_records cw + rs_records_skipped s + 1) \<and>
     (rec \<longrightarrow> w_is_open cw) \<and> (\<not> w_is_open cw \<longrightarrow> w_records cw = 0)"

definition receiver_inv :: "ReceiverConfig \<Rightarrow> Receiver \<Rightarrow> bool" where
  "receiver_inv cfg rv \<longleftrightarrow> rv_cfg rv = cfg \<and> totals_ok (rv_stats rv) \<and> records_ok (rv_writer rv) (recording rv) (rv_stats rv) \<and>
     reasm_inv (rv_reassembler rv) \<and> r_cfg (rv_reassembler rv) = reassembler_config cfg \<and>
     smap_inv (rv_sequences rv) \<and> length (rv_buffer rv) = kMaxUdpPayload + 1"

lemma src_sum_on_src:
  assumes "smap_inv (rs_sources s)" "g zero_ReceiverSourceStats = 0"
  shows "src_sum g (on_src src f s) = src_sum g s + (g (f (source_of s src)) - g (source_of s src))"
proof (cases "smap_get (rs_sources s) src")
  case None
  then show ?thesis
    using sm.sum_put_new [OF assms(1) None, of "\<lambda>kv. g (snd kv)" "f zero_ReceiverSourceStats"] assms(2)
    by (simp add: src_sum_def on_src_def source_of_def)
next
  case (Some ss)
  then show ?thesis
    using sm.sum_put_old [OF assms(1) Some, of "\<lambda>kv. g (snd kv)" "f ss"]
    by (simp add: src_sum_def on_src_def source_of_def algebra_simps)
qed

lemma on_src_fields [simp]:
  "smap_inv (rs_sources s) \<Longrightarrow> smap_inv (rs_sources (on_src src f s))" "malformed_by_reason (on_src src f s) = malformed_by_reason s"
  "reason_sum (on_src src f s) = reason_sum s" "rs_malformed (on_src src f s) = rs_malformed s"
  "rs_datagrams (on_src src f s) = rs_datagrams s" "rs_messages (on_src src f s) = rs_messages s"
  "rs_payload_bytes (on_src src f s) = rs_payload_bytes s" "rs_duplicates (on_src src f s) = rs_duplicates s"
  "rs_incomplete (on_src src f s) = rs_incomplete s" "rs_records_skipped (on_src src f s) = rs_records_skipped s"
  by (simp_all add: on_src_def maps_ok_def reason_sum_def)

lemma on_rs_fields [simp]:
  "rv_stats (on_rs f rv) = f (rv_stats rv)" "rv_cfg (on_rs f rv) = rv_cfg rv" "rv_writer (on_rs f rv) = rv_writer rv"
  "recording (on_rs f rv) = recording rv" "rv_reassembler (on_rs f rv) = rv_reassembler rv"
  "rv_sequences (on_rs f rv) = rv_sequences rv" "rv_buffer (on_rs f rv) = rv_buffer rv"
  by (simp_all add: on_rs_def)

text \<open>The updates of the handlers, each as one step of the totals.\<close>

lemma zero_source_fields [simp]:
  "ss_datagrams zero_ReceiverSourceStats = 0" "ss_messages zero_ReceiverSourceStats = 0"
  "ss_payload_bytes zero_ReceiverSourceStats = 0" "ss_duplicates zero_ReceiverSourceStats = 0"
  "ss_incomplete zero_ReceiverSourceStats = 0" "ss_records_written zero_ReceiverSourceStats = 0"
  by (simp_all add: zero_ReceiverSourceStats_def)

lemma maps_ok_on_src: "maps_ok s \<Longrightarrow> maps_ok (on_src src f s)"
  by (simp add: maps_ok_def)

lemmas src_sums = src_sum_on_src [where g = ss_datagrams] src_sum_on_src [where g = ss_messages]
  src_sum_on_src [where g = ss_payload_bytes] src_sum_on_src [where g = ss_duplicates]
  src_sum_on_src [where g = ss_incomplete] src_sum_on_src [where g = ss_records_written]

lemma src_sum_frame [simp]:
  "src_sum g (s\<lparr>rs_datagrams := a\<rparr>) = src_sum g s" "src_sum g (s\<lparr>rs_datagram_bytes := a\<rparr>) = src_sum g s"
  "src_sum g (s\<lparr>rs_messages := a\<rparr>) = src_sum g s" "src_sum g (s\<lparr>rs_payload_bytes := a\<rparr>) = src_sum g s"
  "src_sum g (s\<lparr>rs_duplicates := a\<rparr>) = src_sum g s" "src_sum g (s\<lparr>rs_incomplete := a\<rparr>) = src_sum g s"
  "src_sum g (s\<lparr>rs_records_skipped := a\<rparr>) = src_sum g s"
  "src_sum g (s\<lparr>rs_malformed := a, malformed_by_reason := m\<rparr>) = src_sum g s"
  by (simp_all add: src_sum_def)

lemma reason_sum_put:
  assumes "smap_inv m"
  shows "(\<Sum>kv\<leftarrow>smap_put reason ((case smap_get m reason of None \<Rightarrow> 0 | Some n \<Rightarrow> n) + 1) m. snd kv) = (\<Sum>kv\<leftarrow>m. snd kv) + (1 :: u64)"
proof (cases "smap_get m reason")
  case None
  then show ?thesis using sm.sum_put_new [OF assms None, of "\<lambda>kv. snd kv" 1] by simp
next
  case (Some n)
  then show ?thesis using sm.sum_put_old [OF assms Some, of "\<lambda>kv. snd kv" "n + 1"] by (simp add: algebra_simps)
qed

lemma totals_note_malformed:
  "totals_ok s \<Longrightarrow> totals_ok (s\<lparr>rs_malformed := rs_malformed s + 1, malformed_by_reason := smap_put reason
     ((case smap_get (malformed_by_reason s) reason of None \<Rightarrow> 0 | Some n \<Rightarrow> n) + 1) (malformed_by_reason s)\<rparr>)"
  using reason_sum_put [of "malformed_by_reason s" reason]
  by (simp add: totals_ok_def maps_ok_def reason_sum_def del: sm.get_put)

lemma totals_on_src_other:
  assumes "totals_ok s" "\<And>ss. ss_datagrams (f ss) = ss_datagrams ss" "\<And>ss. ss_messages (f ss) = ss_messages ss"
    "\<And>ss. ss_payload_bytes (f ss) = ss_payload_bytes ss" "\<And>ss. ss_duplicates (f ss) = ss_duplicates ss"
    "\<And>ss. ss_incomplete (f ss) = ss_incomplete ss"
  shows "totals_ok (on_src src f s)"
  using assms by (simp add: totals_ok_def maps_ok_on_src src_sums maps_ok_def)

subsection \<open>Capture file\<close>

lemma writer_open_result:
  "\<not> w_is_open cw \<Longrightarrow> writer_open env path v cw w = (b, cw', w') \<Longrightarrow>
   w_records cw' = 0 \<and> w_is_open cw' = b \<and> w_failed cw' = (\<not> b)"
  by (auto simp: writer_open_def Let_def w_fail_def split: prod.splits option.splits if_splits)

lemma writer_flush_result:
  "writer_flush env sync cw w = (b, cw', w') \<Longrightarrow>
   w_is_open cw' = w_is_open cw \<and> w_records cw' = w_records cw \<and> (w_failed cw \<longrightarrow> w_failed cw')"
  by (auto simp: writer_flush_def w_fail_def split: prod.splits option.splits if_splits)

lemma write_record_result:
  "w_is_open cw \<Longrightarrow> \<not> w_failed cw \<Longrightarrow> write_record env h p cw w = (b, cw', w') \<Longrightarrow>
   w_is_open cw' \<and> w_failed cw' = (\<not> b) \<and> w_records cw' = w_records cw + (if b then 1 else 0)"
  by (auto simp: write_record_def Let_def w_fail_def split: prod.splits if_splits)

lemma totals_with_capture [simp]: "totals_ok (with_capture cw rec n s) = totals_ok s"
  by (simp add: with_capture_def totals_ok_def maps_ok_def src_sum_def reason_sum_def)

lemma records_with_capture [simp]: "records_ok cw rec (with_capture cw' rec' n s) = records_ok cw rec s"
  by (simp add: with_capture_def records_ok_def src_sum_def)

lemma inv_refresh [simp]: "receiver_inv cfg (refresh_capture_stats rv) = receiver_inv cfg rv"
  by (simp add: refresh_capture_stats_def receiver_inv_def)

lemma count_write_error_stats:
  "totals_ok (s\<lparr>rs_write_errors := n\<rparr>) = totals_ok s" "records_ok cw rec (s\<lparr>rs_write_errors := n\<rparr>) = records_ok cw rec s"
  by (simp_all add: totals_ok_def maps_ok_def src_sum_def reason_sum_def records_ok_def)

lemma inv_count_write_error [simp]: "receiver_inv cfg (count_write_error rv) = receiver_inv cfg rv"
  by (simp add: count_write_error_def receiver_inv_def count_write_error_stats)

lemma count_write_error_fields [simp]:
  "recording (count_write_error rv) = recording rv" "rv_writer (count_write_error rv) = rv_writer rv"
  "rv_cfg (count_write_error rv) = rv_cfg rv"
  by (simp_all add: count_write_error_def)

text \<open>Replacing the writer and the flag keeps the invariant when the records still add up.\<close>

lemma inv_writer:
  "receiver_inv cfg rv \<Longrightarrow> records_ok cw rec (rv_stats rv) \<Longrightarrow> receiver_inv cfg (rv\<lparr>rv_writer := cw, recording := rec\<rparr>)"
  "receiver_inv cfg rv \<Longrightarrow> records_ok cw (recording rv) (rv_stats rv) \<Longrightarrow> receiver_inv cfg (rv\<lparr>rv_writer := cw\<rparr>)"
  "receiver_inv cfg rv \<Longrightarrow> records_ok (rv_writer rv) rec (rv_stats rv) \<Longrightarrow> receiver_inv cfg (rv\<lparr>recording := rec\<rparr>)"
  by (simp_all add: receiver_inv_def)

lemma inv_records: "receiver_inv cfg rv \<Longrightarrow> records_ok (rv_writer rv) (recording rv) (rv_stats rv)"
  by (simp add: receiver_inv_def)

lemma inv_flushed:
  assumes "receiver_inv cfg rv" "writer_flush env sync (rv_writer rv) w = (b, cw, w')"
  shows "receiver_inv cfg (rv\<lparr>rv_writer := cw\<rparr>)"
  using inv_records [OF assms(1)] writer_flush_result [OF assms(2)]
  by (intro inv_writer(2) [OF assms(1)]) (auto simp: records_ok_def)

lemma inv_stop: "receiver_inv cfg rv \<Longrightarrow> receiver_inv cfg (rv\<lparr>recording := False\<rparr>)"
  using inv_records [of cfg rv] by (intro inv_writer(3)) (auto simp: records_ok_def)

lemma set_recording_inv:
  assumes "receiver_inv cfg rv" "set_recording env b rv w = (good, rv', w')"
  shows "receiver_inv cfg rv'"
proof (cases b)
  case False
  with assms show ?thesis
    by (auto simp: set_recording_def Let_def intro!: inv_stop inv_flushed split: if_splits prod.splits bool.splits)
next
  case True
  note rec = inv_records [OF assms(1)]
  consider "w_failed (rv_writer rv)" | "\<not> w_failed (rv_writer rv)" "w_is_open (rv_writer rv)"
    | "\<not> w_failed (rv_writer rv)" "\<not> w_is_open (rv_writer rv)" by blast
  then show ?thesis
  proof cases
    case 1
    with assms True show ?thesis by (simp add: set_recording_def)
  next
    case 2
    then have "receiver_inv cfg (rv\<lparr>recording := True\<rparr>)"
      using rec by (intro inv_writer(3) [OF assms(1)]) (auto simp: records_ok_def)
    with 2 assms(2) True show ?thesis by (auto simp: set_recording_def)
  next
    case 3
    obtain good' cw w1 where op: "writer_open (re_capture env) (capture_file (rv_cfg rv)) kVersion (rv_writer rv) w = (good', cw, w1)"
      by (metis prod_cases3)
    then have "records_ok cw True (rv_stats rv)" if good' using rec 3 writer_open_result [OF 3(2) op] that by (auto simp: records_ok_def)
    moreover have "records_ok cw (recording rv) (rv_stats rv)" if "\<not> good'"
      using rec 3 writer_open_result [OF 3(2) op] that by (auto simp: records_ok_def)
    ultimately show ?thesis
      using 3 assms(2) True op inv_writer(1,2) [OF assms(1), of cw] by (cases good') (auto simp: set_recording_def)
  qed
qed

subsection \<open>Counters\<close>

lemma inv_on_rs:
  "receiver_inv cfg rv \<Longrightarrow> totals_ok (f (rv_stats rv)) \<Longrightarrow> records_ok (rv_writer rv) (recording rv) (f (rv_stats rv)) \<Longrightarrow>
   receiver_inv cfg (on_rs f rv)"
  by (simp add: receiver_inv_def)

lemma inv_totals: "receiver_inv cfg rv \<Longrightarrow> totals_ok (rv_stats rv)"
  by (simp add: receiver_inv_def)

lemma totals_maps: "totals_ok s \<Longrightarrow> maps_ok s" by (simp add: totals_ok_def)

lemma records_on_src:
  "maps_ok s \<Longrightarrow> (\<And>ss. ss_records_written (f ss) = ss_records_written ss) \<Longrightarrow> records_ok cw rec (on_src src f s) = records_ok cw rec s"
  by (simp add: records_ok_def src_sums maps_ok_def)

text \<open>Counters outside the totals: a change of them keeps the invariant.\<close>

lemma inv_plain [simp]:
  "receiver_inv cfg (rv\<lparr>malformed_log_budget := n\<rparr>) = receiver_inv cfg rv"
  "receiver_inv cfg (rv\<lparr>rv_frames := fs\<rparr>) = receiver_inv cfg rv"
  "receiver_inv cfg (rv\<lparr>kernel_drops_raw := d\<rparr>) = receiver_inv cfg rv"
  "receiver_inv cfg (rv\<lparr>next_stats_ns := t\<rparr>) = receiver_inv cfg rv"
  "receiver_inv cfg (rv\<lparr>next_sweep_ns := t\<rparr>) = receiver_inv cfg rv"
  "receiver_inv cfg (rv\<lparr>next_flush_ns := t\<rparr>) = receiver_inv cfg rv"
  by (simp_all add: receiver_inv_def)

lemma inv_plain_stats [simp]:
  "receiver_inv cfg (on_rs (\<lambda>s. s\<lparr>rs_commands := a s\<rparr>) rv) = receiver_inv cfg rv"
  "receiver_inv cfg (on_rs (\<lambda>s. s\<lparr>rs_oversize := a s\<rparr>) rv) = receiver_inv cfg rv"
  "receiver_inv cfg (on_rs (\<lambda>s. s\<lparr>rs_recv_errors := a s\<rparr>) rv) = receiver_inv cfg rv"
  "receiver_inv cfg (on_rs (\<lambda>s. s\<lparr>rs_kernel_drops := a s\<rparr>) rv) = receiver_inv cfg rv"
  "receiver_inv cfg (on_rs (\<lambda>s. s\<lparr>stats_published := a s\<rparr>) rv) = receiver_inv cfg rv"
  "receiver_inv cfg (on_rs (\<lambda>s. s\<lparr>stats_publish_failures := a s\<rparr>) rv) = receiver_inv cfg rv"
  "receiver_inv cfg (on_rs (\<lambda>s. s\<lparr>start_monotonic_ns := b, start_realtime_ns := c\<rparr>) rv) = receiver_inv cfg rv"
  by (simp_all add: receiver_inv_def totals_ok_def maps_ok_def reason_sum_def src_sum_def records_ok_def)

lemma handle_command_inv:
  assumes "receiver_inv cfg rv" "handle_command env cmd rv w = (b, rv', w')"
  shows "receiver_inv cfg rv'"
proof -
  define rv1 where "rv1 = on_rs (\<lambda>s. s\<lparr>rs_commands := rs_commands s + 1\<rparr>) rv"
  have inv1: "receiver_inv cfg rv1" using assms(1) by (simp add: rv1_def)
  show ?thesis
    using assms(2) inv1 unfolding handle_command_def Let_def rv1_def [symmetric]
    by (auto split: if_splits prod.splits bool.splits intro: inv_flushed set_recording_inv)
qed

lemma note_malformed_inv: "receiver_inv cfg rv \<Longrightarrow> receiver_inv cfg (note_malformed reason src hs rv)"
proof -
  define f :: "ReceiverStats \<Rightarrow> ReceiverStats" where "f = (\<lambda>s. s\<lparr>rs_malformed := rs_malformed s + 1, malformed_by_reason := smap_put reason
     ((case smap_get (malformed_by_reason s) reason of None \<Rightarrow> 0 | Some n \<Rightarrow> n) + 1) (malformed_by_reason s)\<rparr>)"
  assume inv: "receiver_inv cfg rv"
  have "records_ok (rv_writer rv) (recording rv) (f (rv_stats rv))"
    using inv_records [OF inv] by (auto simp: f_def records_ok_def src_sum_def)
  then have inv1: "receiver_inv cfg (on_rs f rv)"
    using totals_note_malformed [OF inv_totals [OF inv], of reason] by (intro inv_on_rs [OF inv]) (simp_all add: f_def)
  have "receiver_inv cfg (on_rs (on_src src (\<lambda>ss. ss\<lparr>ss_malformed := ss_malformed ss + 1\<rparr>)) (on_rs f rv))"
    using inv_totals [OF inv1] inv_records [OF inv1]
    by (intro inv_on_rs [OF inv1] totals_on_src_other) (simp_all add: records_on_src totals_maps)
  with inv1 show ?thesis by (simp add: note_malformed_def Let_def f_def [symmetric])
qed

lemma note_sequence_inv:
  assumes "receiver_inv cfg rv"
  shows "receiver_inv cfg (note_sequence hdr rv)"
proof (cases "observe (rv_sequences rv) (source_id hdr) (sequence hdr)")
  case (fields outcome missing sequences)
  then have "smap_inv sequences" using assms by (auto simp: receiver_inv_def observe_def Let_def split: prod.splits)
  then have inv: "receiver_inv cfg (rv\<lparr>rv_sequences := sequences\<rparr>)" using assms by (simp add: receiver_inv_def)
  have inv_src: "receiver_inv cfg (on_rs (on_src (source_id hdr) f) (rv\<lparr>rv_sequences := sequences\<rparr>))"
    if "totals_ok (on_src (source_id hdr) f (rv_stats rv))" "\<And>ss. ss_records_written (f ss) = ss_records_written ss" for f
    using that inv_records [OF inv] totals_maps [OF inv_totals [OF inv]] by (intro inv_on_rs [OF inv]) (simp_all add: records_on_src)
  have "totals_ok (rv_stats rv)" using inv_totals [OF assms] .
  then show ?thesis
    using inv by (cases outcome) (auto simp: note_sequence_def fields Let_def intro!: inv_src totals_on_src_other)
qed

lemma on_rs_on_rs: "on_rs g (on_rs f rv) = on_rs (\<lambda>s. g (f s)) rv"
  by (simp add: on_rs_def)

lemma reason_sum_frame [simp]:
  "reason_sum (s\<lparr>rs_datagrams := a, rs_datagram_bytes := b\<rparr>) = reason_sum s"
  "reason_sum (s\<lparr>rs_messages := a, rs_payload_bytes := b\<rparr>) = reason_sum s"
  "reason_sum (s\<lparr>rs_duplicates := a\<rparr>) = reason_sum s" "reason_sum (s\<lparr>rs_incomplete := a\<rparr>) = reason_sum s"
  "reason_sum (s\<lparr>rs_records_skipped := a\<rparr>) = reason_sum s"
  by (simp_all add: reason_sum_def)

text \<open>A total and the same counter of one source grow together.\<close>

lemma note_expired_inv: "receiver_inv cfg rv \<Longrightarrow> receiver_inv cfg (note_expired e rv)"
  unfolding note_expired_def on_rs_on_rs
  using inv_totals [of cfg rv] inv_records [of cfg rv]
  by (intro inv_on_rs) (auto simp: totals_ok_def maps_ok_def src_sums records_ok_def)

lemma note_duplicate_inv:
  "receiver_inv cfg rv \<Longrightarrow> receiver_inv cfg (on_rs (on_src src (\<lambda>ss. ss\<lparr>ss_duplicates := ss_duplicates ss + 1\<rparr>))
     (on_rs (\<lambda>s. s\<lparr>rs_duplicates := rs_duplicates s + 1\<rparr>) rv))"
  unfolding on_rs_on_rs
  using inv_totals [of cfg rv] inv_records [of cfg rv]
  by (intro inv_on_rs) (auto simp: totals_ok_def maps_ok_def src_sums records_ok_def)

lemma count_datagram_inv:
  "receiver_inv cfg rv \<Longrightarrow> receiver_inv cfg (on_rs (on_src src (\<lambda>ss. ss\<lparr>ss_datagrams := ss_datagrams ss + 1\<rparr>))
     (on_rs (\<lambda>s. s\<lparr>rs_datagrams := rs_datagrams s + 1, rs_datagram_bytes := rs_datagram_bytes s + n\<rparr>) rv))"
  unfolding on_rs_on_rs
  using inv_totals [of cfg rv] inv_records [of cfg rv]
  by (intro inv_on_rs) (auto simp: totals_ok_def maps_ok_def src_sums records_ok_def)

text \<open>A complete message: counted first, then recorded, skipped or lost.\<close>

definition count_message :: "CompletedMessage \<Rightarrow> ReceiverStats \<Rightarrow> ReceiverStats" where
  "count_message m s = on_src (m_source_id m) (\<lambda>ss. ss\<lparr>ss_messages := ss_messages ss + 1,
       ss_payload_bytes := ss_payload_bytes ss + of_nat (m_length m), ss_last_sequence := m_sequence m,
       ss_last_timestamp_ns := m_timestamp_ns m\<rparr>)
     (s\<lparr>rs_messages := rs_messages s + 1, rs_payload_bytes := rs_payload_bytes s + of_nat (m_length m)\<rparr>)"

lemma count_message_totals: "totals_ok s \<Longrightarrow> totals_ok (count_message m s)"
  by (auto simp: count_message_def totals_ok_def maps_ok_def src_sums)

lemma count_message_records:
  "totals_ok s \<Longrightarrow> src_sum ss_records_written (count_message m s) = src_sum ss_records_written s \<and>
   rs_messages (count_message m s) = rs_messages s + 1 \<and> rs_records_skipped (count_message m s) = rs_records_skipped s"
  by (simp add: count_message_def totals_ok_def maps_ok_def src_sums)

definition record_header_of :: "CompletedMessage \<Rightarrow> RecordHeader" where
  "record_header_of m = default_RecordHeader\<lparr>rh_source_id := m_source_id m, rh_sequence := m_sequence m,
     rh_timestamp_ns := m_timestamp_ns m, rh_flags := m_flags m\<rparr>"

lemma on_complete_eq:
  "on_complete env m rv w =
     (let s = count_message m (rv_stats rv) in
      if \<not> recording rv \<or> \<not> w_is_open (rv_writer rv) \<or> w_failed (rv_writer rv)
      then (rv\<lparr>rv_stats := s\<lparr>rs_records_skipped := rs_records_skipped s + 1\<rparr>\<rparr>, w)
      else case write_record (re_capture env) (record_header_of m) (take (m_length m) (m_data m)) (rv_writer rv) w of
          (False, cw, w) \<Rightarrow> (refresh_capture_stats (rv\<lparr>rv_writer := cw,
             rv_stats := s\<lparr>rs_write_errors := rs_write_errors s + 1\<rparr>, recording := False\<rparr>), w)
        | (True, cw, w) \<Rightarrow> (rv\<lparr>rv_writer := cw,
             rv_stats := on_src (m_source_id m) (\<lambda>ss. ss\<lparr>ss_records_written := ss_records_written ss + 1\<rparr>) s\<rparr>, w))"
  by (simp add: on_complete_def Let_def on_rs_def count_message_def record_header_of_def count_write_error_def
      split: prod.split bool.split)

lemma inv_parts:
  "receiver_inv cfg rv \<Longrightarrow> totals_ok s \<Longrightarrow> records_ok cw rec s \<Longrightarrow> receiver_inv cfg (rv\<lparr>rv_writer := cw, rv_stats := s, recording := rec\<rparr>)"
  "receiver_inv cfg rv \<Longrightarrow> totals_ok s \<Longrightarrow> records_ok cw (recording rv) s \<Longrightarrow> receiver_inv cfg (rv\<lparr>rv_writer := cw, rv_stats := s\<rparr>)"
  "receiver_inv cfg rv \<Longrightarrow> totals_ok s \<Longrightarrow> records_ok (rv_writer rv) (recording rv) s \<Longrightarrow> receiver_inv cfg (rv\<lparr>rv_stats := s\<rparr>)"
  by (simp_all add: receiver_inv_def)

lemma totals_skip [simp]: "totals_ok (s\<lparr>rs_records_skipped := n\<rparr>) = totals_ok s"
  by (simp add: totals_ok_def maps_ok_def)

lemma on_complete_inv:
  assumes "receiver_inv cfg rv" "on_complete env m rv w = (rv', w')"
  shows "receiver_inv cfg rv'"
proof -
  define s where "s = count_message m (rv_stats rv)"
  have totals: "totals_ok s" using count_message_totals [OF inv_totals [OF assms(1)]] by (simp add: s_def)
  note counts = count_message_records [OF inv_totals [OF assms(1)], of m, folded s_def]
  note rec = inv_records [OF assms(1)]
  show ?thesis
  proof (cases "\<not> recording rv \<or> \<not> w_is_open (rv_writer rv) \<or> w_failed (rv_writer rv)")
    case True
    have "records_ok (rv_writer rv) (recording rv) (s\<lparr>rs_records_skipped := rs_records_skipped s + 1\<rparr>)"
      using rec counts by (auto simp: records_ok_def)
    then have "receiver_inv cfg (rv\<lparr>rv_stats := s\<lparr>rs_records_skipped := rs_records_skipped s + 1\<rparr>\<rparr>)"
      using totals by (intro inv_parts(3) [OF assms(1)]) simp_all
    with assms(2) True show ?thesis by (simp add: on_complete_eq s_def Let_def)
  next
    case False
    then obtain b cw w1 where wr: "write_record (re_capture env) (record_header_of m)
        (take (m_length m) (m_data m)) (rv_writer rv) w = (b, cw, w1)" by (metis prod_cases3)
    have result: "w_is_open cw" "w_failed cw = (\<not> b)" "w_records cw = w_records (rv_writer rv) + (if b then 1 else 0)"
      using write_record_result [OF _ _ wr] False by auto
    show ?thesis
    proof (cases b)
      case True
      let ?s = "on_src (m_source_id m) (\<lambda>ss. ss\<lparr>ss_records_written := ss_records_written ss + 1\<rparr>) s"
      have "totals_ok ?s" by (intro totals_on_src_other totals) simp_all
      moreover have "records_ok cw (recording rv) ?s"
        using rec counts result True False totals by (auto simp: records_ok_def src_sums totals_ok_def maps_ok_def ac_simps)
      ultimately have "receiver_inv cfg (rv\<lparr>rv_writer := cw, rv_stats := ?s\<rparr>)" by (intro inv_parts(2) [OF assms(1)])
      with assms(2) False True wr show ?thesis by (simp add: on_complete_eq s_def Let_def)
    next
      case b: False
      have "records_ok cw False (s\<lparr>rs_write_errors := rs_write_errors s + 1\<rparr>)"
        unfolding count_write_error_stats using rec counts result b False by (auto simp: records_ok_def)
      then have "receiver_inv cfg (rv\<lparr>rv_writer := cw, rv_stats := s\<lparr>rs_write_errors := rs_write_errors s + 1\<rparr>, recording := False\<rparr>)"
        using totals by (intro inv_parts(1) [OF assms(1)]) (simp_all add: count_write_error_stats)
      with assms(2) False b wr show ?thesis by (auto simp: on_complete_eq s_def Let_def)
    qed
  qed
qed

lemma sweep_reassembly_inv:
  assumes "receiver_inv cfg rv" "sweep_reassembly env rv w = (rv', w')"
  shows "receiver_inv cfg rv'"
proof -
  obtain now w1 where clock: "re_monotonic env w = (now, w1)" by fastforce
  obtain reasm xs where ex: "expire now (rv_reassembler rv) = (reasm, xs)" by fastforce
  have "reasm_inv reasm" "r_cfg reasm = r_cfg (rv_reassembler rv)"
    using assms(1) expire_spec(1,6) [OF _ ex] by (auto simp: receiver_inv_def)
  then have "receiver_inv cfg (rv\<lparr>rv_reassembler := reasm\<rparr>)" using assms(1) by (simp add: receiver_inv_def)
  then have "receiver_inv cfg (fold note_expired ys (rv\<lparr>rv_reassembler := reasm\<rparr>))" for ys
    by (induction ys rule: rev_induct) (simp_all add: note_expired_inv)
  with assms(2) show ?thesis by (auto simp: sweep_reassembly_def clock ex)
qed

text \<open>The handler in two halves: an accepted datagram is counted and goes through the reassembler, then its result is dealt with.\<close>

definition after_add :: "Header \<Rightarrow> nat \<Rightarrow> bool \<Rightarrow> Reassembler \<Rightarrow> Receiver \<Rightarrow> Receiver" where
  "after_add hdr n new_message reasm rv =
     (let rv = (on_rs (on_src (source_id hdr) (\<lambda>ss. ss\<lparr>ss_datagrams := ss_datagrams ss + 1\<rparr>))
            (on_rs (\<lambda>s. s\<lparr>rs_datagrams := rs_datagrams s + 1, rs_datagram_bytes := rs_datagram_bytes s + of_nat n\<rparr>) rv))
          \<lparr>rv_reassembler := reasm\<rparr>
      in if new_message then note_sequence hdr rv else rv)"

lemma handle_datagram_rejected:
  "\<not> datagram_ok data \<Longrightarrow> \<exists>reason src hs. handle_datagram env data rv w = Some (note_malformed reason src hs rv, w)"
  using parse_datagram_accepts [of data default_Header] by (auto simp: handle_datagram_def split: prod.split)

lemma handle_datagram_accepted:
  assumes "datagram_ok data" "re_monotonic env w = (now, w1)"
    "add (header_at data) (drop kHeaderSize data) now (rv_reassembler rv) = Some (res, msg, nm, reasm)"
  shows "handle_datagram env data rv w = Some
    (let rv = after_add (header_at data) (length data) nm reasm rv in
     case res of
       Complete \<Rightarrow> on_complete env msg rv w1
     | Incomplete \<Rightarrow> (rv, w1)
     | Duplicate \<Rightarrow> (on_rs (on_src (source_id (header_at data)) (\<lambda>ss. ss\<lparr>ss_duplicates := ss_duplicates ss + 1\<rparr>))
                       (on_rs (\<lambda>s. s\<lparr>rs_duplicates := rs_duplicates s + 1\<rparr>) rv), w1)
     | Malformed \<Rightarrow> (note_malformed ''fragment_inconsistent'' (source_id (header_at data)) True rv, w1))"
  using assms(2,3) unfolding handle_datagram_def parse_datagram_accepted [OF assms(1)]
  by (cases res) (simp_all add: after_add_def Let_def)

lemma after_add_inv:
  assumes "receiver_inv cfg rv" "reasm_inv reasm" "r_cfg reasm = r_cfg (rv_reassembler rv)"
  shows "receiver_inv cfg (after_add hdr n nm reasm rv)"
proof -
  define rv1 where "rv1 = on_rs (on_src (source_id hdr) (\<lambda>ss. ss\<lparr>ss_datagrams := ss_datagrams ss + 1\<rparr>))
     (on_rs (\<lambda>s. s\<lparr>rs_datagrams := rs_datagrams s + 1, rs_datagram_bytes := rs_datagram_bytes s + of_nat n\<rparr>) rv)"
  have "receiver_inv cfg rv1" unfolding rv1_def by (rule count_datagram_inv [OF assms(1)])
  then have "receiver_inv cfg (rv1\<lparr>rv_reassembler := reasm\<rparr>)"
    using assms by (simp add: receiver_inv_def)
  then show ?thesis using note_sequence_inv by (simp add: after_add_def Let_def flip: rv1_def)
qed

lemma handle_datagram_returns_inv:
  assumes "receiver_inv cfg rv"
  shows "\<exists>rv' w'. handle_datagram env data rv w = Some (rv', w') \<and> receiver_inv cfg rv'"
proof (cases "datagram_ok data")
  case False
  then show ?thesis using handle_datagram_rejected [of data env rv w] note_malformed_inv [OF assms] by fastforce
next
  case True
  then have hdr: "header_ok (header_at data)" "length (drop kHeaderSize data) = unat (fragment_length (header_at data))"
    by (auto simp: datagram_ok_def)
  obtain now w1 where clock: "re_monotonic env w = (now, w1)" by fastforce
  have "reasm_inv (rv_reassembler rv)" using assms by (simp add: receiver_inv_def)
  then obtain res msg nm reasm where add: "add (header_at data) (drop kHeaderSize data) now (rv_reassembler rv) = Some (res, msg, nm, reasm)"
    "reasm_inv reasm" "r_cfg reasm = r_cfg (rv_reassembler rv)"
    by (rule add_returns_inv [OF _ hdr])
  define rv2 where "rv2 = after_add (header_at data) (length data) nm reasm rv"
  have inv2: "receiver_inv cfg rv2" unfolding rv2_def by (rule after_add_inv [OF assms add(2,3)])
  show ?thesis
    using inv2 on_complete_inv [OF inv2, of env msg w1] note_duplicate_inv [OF inv2] note_malformed_inv [OF inv2]
    unfolding handle_datagram_accepted [OF True clock add(1)] rv2_def [symmetric] Let_def
    by (cases res; cases "on_complete env msg rv2 w1") auto
qed

lemma publish_stats_inv:
  "receiver_inv cfg rv \<Longrightarrow> publish_stats env rv w = (rv', w') \<Longrightarrow> receiver_inv cfg rv'"
  by (auto simp: publish_stats_def split: prod.splits if_splits bool.splits)

text \<open>What the sweep, a flush and a publication keep, the timer work of an iteration keeps.\<close>

lemma periodic_keeps:
  assumes "P rv" "periodic env rv w = (rv', w')"
    and sweep: "\<And>r v r' v'. P r \<Longrightarrow> sweep_reassembly env r v = (r', v') \<Longrightarrow> P r'"
    and flush: "\<And>r sync v b cw v'. P r \<Longrightarrow> writer_flush (re_capture env) sync (rv_writer r) v = (b, cw, v') \<Longrightarrow> P (r\<lparr>rv_writer := cw\<rparr>)"
    and err: "\<And>r. P r \<Longrightarrow> P (count_write_error r)"
    and publish: "\<And>r v r' v'. P r \<Longrightarrow> publish_stats env r v = (r', v') \<Longrightarrow> P r'"
    and timers: "\<And>r t. P (r\<lparr>next_sweep_ns := t\<rparr>) = P r" "\<And>r t. P (r\<lparr>next_flush_ns := t\<rparr>) = P r"
      "\<And>r t. P (r\<lparr>next_stats_ns := t\<rparr>) = P r"
  shows "P rv'"
proof -
  obtain now w0 where clock: "re_monotonic env w = (now, w0)" by fastforce
  obtain rv1 w1 where 1: "(if now \<ge> next_sweep_ns rv
       then (case sweep_reassembly env rv w0 of (rv, w) \<Rightarrow> (rv\<lparr>next_sweep_ns := now + sweep_interval (rv_cfg rv)\<rparr>, w))
       else (rv, w0)) = (rv1, w1)" by fastforce
  have P1: "P rv1" using 1 assms(1) sweep [OF assms(1)] timers by (auto split: if_splits prod.splits)
  obtain rv2 w2 where 2: "(if capture_flush_interval_ms (rv_cfg rv1) > 0 \<and> now \<ge> next_flush_ns rv1
       then let (rv, w) = (if w_is_open (rv_writer rv1) \<and> \<not> w_failed (rv_writer rv1) then
                 (case writer_flush (re_capture env) (capture_sync_on_flush (rv_cfg rv1)) (rv_writer rv1) w1 of
                    (False, cw, w) \<Rightarrow> (count_write_error (rv1\<lparr>rv_writer := cw\<rparr>), w)
                  | (True, cw, w) \<Rightarrow> (rv1\<lparr>rv_writer := cw\<rparr>, w))
               else (rv1, w1))
            in (rv\<lparr>next_flush_ns := now + of_int (capture_flush_interval_ms (rv_cfg rv)) * kNsPerMs\<rparr>, w)
       else (rv1, w1)) = (rv2, w2)" by fastforce
  have P2: "P rv2"
    using 2 P1 flush [OF P1] err timers by (auto split: if_splits prod.splits bool.splits)
  show ?thesis
    using assms(2) P2 publish [OF P2] timers
    unfolding periodic_def clock prod.case Let_def 1 2 [unfolded Let_def]
    by (auto split: if_splits prod.splits)
qed

lemma periodic_inv:
  assumes "receiver_inv cfg rv" "periodic env rv w = (rv', w')"
  shows "receiver_inv cfg rv'"
  by (rule periodic_keeps [where P = "receiver_inv cfg", OF assms])
    (auto intro: sweep_reassembly_inv inv_flushed publish_stats_inv)

section \<open>Runs\<close>

datatype ReceiverEvent =
    Datagram "byte list"
  | Command string
  | Recording bool
  | Periodic

fun receiver_step :: "'w ReceiverEnv \<Rightarrow> Receiver \<times> 'w \<Rightarrow> ReceiverEvent \<Rightarrow> (Receiver \<times> 'w) option" where
  "receiver_step env (rv, w) (Datagram d) = handle_datagram env d rv w"
| "receiver_step env (rv, w) (Command c) = (case handle_command env c rv w of (_, rv, w) \<Rightarrow> Some (rv, w))"
| "receiver_step env (rv, w) (Recording b) = (case set_recording env b rv w of (_, rv, w) \<Rightarrow> Some (rv, w))"
| "receiver_step env (rv, w) Periodic = Some (periodic env rv w)"

interpretation rcv: partial_step_system "receiver_step env" "\<lambda>_. True" "\<lambda>s. receiver_inv cfg (fst s)" for env cfg
proof
  fix s :: "Receiver \<times> 'a" and e and env :: "'a ReceiverEnv" and cfg
  assume inv: "receiver_inv cfg (fst s)"
  obtain rv w where s: "s = (rv, w)" by fastforce
  have "\<exists>t. handle_datagram env d rv w = Some t" for d
    using handle_datagram_returns_inv [of cfg rv env d w] inv by (auto simp: s)
  then show "\<exists>t. receiver_step env s e = Some t" by (cases e) (auto simp: s split: prod.splits)
next
  fix s t :: "Receiver \<times> 'a" and e and env :: "'a ReceiverEnv" and cfg
  assume inv: "receiver_inv cfg (fst s)" and st: "receiver_step env s e = Some t"
  obtain rv w where s: "s = (rv, w)" by fastforce
  show "receiver_inv cfg (fst t)"
  proof (cases e)
    case (Datagram d)
    then show ?thesis using inv st handle_datagram_returns_inv [of cfg rv env d w] by (auto simp: s)
  next
    case Periodic
    then show ?thesis using inv st periodic_inv [of cfg rv env w] by (cases t) (auto simp: s)
  qed (use inv st in \<open>auto simp: s split: prod.splits dest: handle_command_inv set_recording_inv\<close>)
qed

lemma receiver_inv_new:
  "0 < reassembly_max_pending cfg \<Longrightarrow> receiver_inv cfg (new_Receiver cfg)"
  using reasm_inv_new [of "reassembler_config cfg"]
  by (simp add: receiver_inv_def new_Receiver_def totals_ok_def maps_ok_def records_ok_def src_sum_def reason_sum_def
      zero_ReceiverStats_def new_CaptureWriter_def new_Reassembler_def reassembler_config_def)

text \<open>The accounting identities: the totals over the reasons and the sources, and where every complete message went.\<close>

definition accounted :: "Receiver \<Rightarrow> bool" where
  "accounted rv \<longleftrightarrow>
     (let s = rv_stats rv; n = w_records (rv_writer rv) in
       rs_malformed s = (\<Sum>kv\<leftarrow>malformed_by_reason s. snd kv) \<and>
       rs_datagrams s = (\<Sum>kv\<leftarrow>rs_sources s. ss_datagrams (snd kv)) \<and>
       rs_messages s = (\<Sum>kv\<leftarrow>rs_sources s. ss_messages (snd kv)) \<and>
       rs_payload_bytes s = (\<Sum>kv\<leftarrow>rs_sources s. ss_payload_bytes (snd kv)) \<and>
       rs_duplicates s = (\<Sum>kv\<leftarrow>rs_sources s. ss_duplicates (snd kv)) \<and>
       rs_incomplete s = (\<Sum>kv\<leftarrow>rs_sources s. ss_incomplete (snd kv)) \<and>
       n = (\<Sum>kv\<leftarrow>rs_sources s. ss_records_written (snd kv)) \<and>
       (rs_messages s = n + rs_records_skipped s \<or>
        w_failed (rv_writer rv) \<and> rs_messages s = n + rs_records_skipped s + 1))"

lemma accounted_inv: "receiver_inv cfg rv \<Longrightarrow> accounted rv"
  unfolding receiver_inv_def totals_ok_def records_ok_def src_sum_def reason_sum_def accounted_def Let_def by blast

text \<open>C2: the receiver's counters account for everything. From the state after construction, whatever datagrams
  (malformed ones included), commands, recording requests and timer work arrive in whatever order, and whatever the
  clocks, the file system and the sockets answer, every step returns, and afterwards: rejected datagrams are the sum over the
  reasons; accepted datagrams, messages, payload bytes, duplicates and incomplete messages are the sums over the sources;
  every complete message is in the capture file, counted as skipped, or the single one whose write failed; and the
  records of the capture file are those counted per source (all in 64 bit arithmetic).\<close>

theorem receiver_accounts_for_everything:
  assumes "0 < reassembly_max_pending cfg"
  shows "\<exists>rv w'. run_opt (receiver_step env) (new_Receiver cfg, w) es = Some (rv, w') \<and> accounted rv"
  using rcv.run_returns [of cfg "(new_Receiver cfg, w)" es env] receiver_inv_new [OF assms] accounted_inv
  by (fastforce simp: list_all_iff)

section \<open>The main loop\<close>

lemma drain_udp_loop_inv:
  "receiver_inv cfg rv \<Longrightarrow> drain_udp_loop env n rv w = Some (rv', w') \<Longrightarrow> receiver_inv cfg rv'"
proof (induction n arbitrary: rv w)
  case (Suc n)
  obtain k buf drops w1 where rcv: "udp_receive (re_recvmsg env) (rv_buffer rv) (kernel_drops_raw rv) w = Some (k, buf, drops, w1)"
    using Suc.prems(2) by (auto split: option.splits)
  define rv1 where "rv1 = rv\<lparr>rv_buffer := buf, kernel_drops_raw := drops\<rparr>"
  have "length buf = length (rv_buffer rv)" using udp_receive_length [OF rcv] by simp
  then have inv1: "receiver_inv cfg rv1" using Suc.prems(1) by (simp add: rv1_def receiver_inv_def)
  have over: "receiver_inv cfg (note_malformed ''oversize'' 0 False (on_rs (\<lambda>s. s\<lparr>rs_oversize := rs_oversize s + 1\<rparr>) rv1))"
    using inv1 by (intro note_malformed_inv) simp
  note step = Suc.prems(2) [unfolded drain_udp_loop.simps rcv option.case prod.case Let_def rv1_def [symmetric]]
  show ?case
    using step inv1 over Suc.IH [OF over] handle_datagram_returns_inv [OF inv1, of env] Suc.IH
    by (auto simp: count_recv_error_def split: if_splits option.splits)
      (metis option.inject prod.inject)+
qed simp

lemma drain_udp_inv:
  "receiver_inv cfg rv \<Longrightarrow> drain_udp env rv w = Some (rv', w') \<Longrightarrow> receiver_inv cfg rv'"
  by (auto simp: drain_udp_def dest: drain_udp_loop_inv split: option.splits)

lemma drain_commands_loop_inv:
  "receiver_inv cfg rv \<Longrightarrow> drain_commands_loop env n rv w = Some (rv', w') \<Longrightarrow> receiver_inv cfg rv'"
proof (induction n arbitrary: rv w)
  case (Suc n)
  obtain rc fs w1 where rcv: "zmq_recv_multipart_nowait (re_recv_command env) w = Some (rc, fs, w1)"
    using Suc.prems(2) by (auto split: option.splits)
  define f where "f = (if length fs \<ge> 2 then fs ! 1 else fs ! 0)"
  obtain b rv1 w2 where cmd: "handle_command env (map (\<lambda>b. char_of (unat b)) f) (rv\<lparr>rv_frames := fs\<rparr>) w1 = (b, rv1, w2)"
    by (metis prod_cases3)
  have inv0: "receiver_inv cfg (rv\<lparr>rv_frames := fs\<rparr>)" using Suc.prems(1) by simp
  show ?case
  proof (cases "rc \<le> 0")
    case True
    then show ?thesis using Suc.prems inv0 by (simp add: rcv)
  next
    case False
    then have "drain_commands_loop env n rv1 w2 = Some (rv', w')"
      using Suc.prems(2) cmd by (simp add: rcv Let_def flip: f_def)
    then show ?thesis by (rule Suc.IH [OF handle_command_inv [OF inv0 cmd]])
  qed
qed simp

lemma receiver_poll_once_inv:
  assumes "receiver_inv cfg rv" "receiver_poll_once env t rv w = Some (b, rv', w')"
  shows "receiver_inv cfg rv'"
proof (cases "re_poll env (has_command_sub rv) t w")
  case (Pair res w0)
  show ?thesis
  proof (cases res)
    case (PollFailed err)
    with assms Pair show ?thesis by (simp add: receiver_poll_once_def)
  next
    case (Ready rc revents)
    obtain rv1 w1 where udp: "(if rc > 0 \<and> revents ! 0 then drain_udp env rv w0 else Some (rv, w0)) = Some (rv1, w1)"
      using assms(2) Pair Ready by (auto simp: receiver_poll_once_def split: option.splits)
    then have inv1: "receiver_inv cfg rv1" using assms(1) drain_udp_inv by (metis option.inject prod.inject)
    obtain rv2 w2 where cmd: "(if rc > 0 \<and> has_command_sub rv1 \<and> revents ! 1 then drain_commands env rv1 w1 else Some (rv1, w1)) = Some (rv2, w2)"
      using assms(2) Pair Ready udp unfolding receiver_poll_once_def by (auto split: option.splits)
    then have inv2: "receiver_inv cfg rv2"
      using inv1 drain_commands_loop_inv unfolding drain_commands_def by (metis option.inject prod.inject)
    show ?thesis
      using assms(2) Pair Ready udp cmd periodic_inv [OF inv2] unfolding receiver_poll_once_def by (auto split: prod.splits)
  qed
qed

lemma run_loop_inv:
  assumes "run_loop env rv w = Some r" "receiver_inv cfg rv"
  shows "receiver_inv cfg (fst r)"
proof -
  have "receiver_inv cfg rv \<longrightarrow> receiver_inv cfg (fst r)"
    by (rule run_loop.raw_induct [of "\<lambda>_ rv _ r. receiver_inv cfg rv \<longrightarrow> receiver_inv cfg (fst r)", OF _ assms(1)])
      (auto split: if_splits prod.splits option.splits dest: receiver_poll_once_inv)
  with assms(2) show ?thesis by simp
qed

lemma init_inv:
  assumes "receiver_inv cfg rv" "init env rv w = (None, rv', w')"
  shows "receiver_inv cfg rv'"
proof -
  have socket: "receiver_inv cfg (r\<lparr>has_stats_pub := b\<rparr>) = receiver_inv cfg r"
    "receiver_inv cfg (r\<lparr>has_command_sub := b\<rparr>) = receiver_inv cfg r" for r b
    by (simp_all add: receiver_inv_def)
  have stats: "receiver_inv cfg r'" if "receiver_inv cfg r" "init_stats_socket env r v = (None, r', v')" for r v r' v'
    using that by (auto simp: init_stats_socket_def socket Let_def split: if_splits prod.splits option.splits)
  have command: "receiver_inv cfg r'" if "receiver_inv cfg r" "init_command_socket env r v = (None, r', v')" for r v r' v'
    using that by (auto simp: init_command_socket_def socket Let_def split: if_splits prod.splits option.splits)
  obtain mono w1 where 1: "re_monotonic env w = (mono, w1)" by fastforce
  obtain real w2 where 2: "ce_realtime (re_capture env) w1 = (real, w2)" by fastforce
  define rv0 where "rv0 = on_rs (\<lambda>s. s\<lparr>start_monotonic_ns := mono, start_realtime_ns := real\<rparr>) rv"
  have inv0: "receiver_inv cfg rv0" using assms(1) by (simp add: rv0_def)
  obtain w3 where 3: "re_udp_open env w2 = (None, w3)"
    using assms(2) by (auto simp: init_def Let_def 1 2 split: prod.splits option.splits)
  obtain w4 where 4: "re_zmq_ctx_new env w3 = (None, w4)"
    using assms(2) by (auto simp: init_def Let_def 1 2 3 split: prod.splits option.splits)
  note unfolded = assms(2) [unfolded init_def Let_def 1 2 prod.case rv0_def [symmetric] 3 option.case 4]
  obtain rv1 w5 where 5: "init_stats_socket env rv0 w4 = (None, rv1, w5)"
    using unfolded by (auto split: prod.splits option.splits)
  obtain rv2 w6 where 6: "init_command_socket env rv1 w5 = (None, rv2, w6)"
    using unfolded by (auto simp: 5 split: prod.splits option.splits)
  have inv2: "receiver_inv cfg rv2" using command [OF stats [OF inv0 5] 6] .
  obtain good rv3 w7 where 7: "(if record_on_start (rv_cfg rv2) then set_recording env True rv2 w6 else (True, rv2, w6)) = (good, rv3, w7)"
    by (metis prod_cases3)
  have inv3: "receiver_inv cfg rv3" using 7 inv2 set_recording_inv [OF inv2] by (auto split: if_splits)
  show ?thesis
    using unfolded [unfolded 5 6 prod.case option.case 7] inv3 by (auto split: if_splits prod.splits)
qed

text \<open>The first result says that the program started; then its exit code, or that it did not return.\<close>

definition run_program :: "'w ReceiverEnv \<Rightarrow> ReceiverConfig \<Rightarrow> 'w \<Rightarrow> string + (int \<times> Receiver \<times> 'w) option" where
  "run_program env cfg w =
     (case init env (new_Receiver cfg) w of
        (Some err, _) \<Rightarrow> Inl err
      | (None, rv, w) \<Rightarrow> Inr (run_receiver env rv w))"

lemma run_receiver_accounts:
  assumes "receiver_inv cfg rv1" "run_receiver env rv1 w1 = Some (code, rv, w')"
  shows "accounted rv \<and> \<not> w_is_open (rv_writer rv) \<and> code \<in> {0, 1} \<and> (code = 1 \<longrightarrow> w_failed (rv_writer rv))"
proof -
  obtain rv2 w2 where loop: "run_loop env rv1 w1 = Some (rv2, w2)"
    using assms(2) by (auto simp: run_receiver_def split: option.splits)
  have inv2: "receiver_inv cfg rv2"
    using run_loop_inv [OF loop] assms(1) by simp
  obtain rv3 w3 where sweep: "sweep_reassembly env rv2 w2 = (rv3, w3)" by fastforce
  have inv3: "receiver_inv cfg rv3" by (rule sweep_reassembly_inv [OF inv2 sweep])
  obtain b cw w4 where close: "writer_close (re_capture env) (rv_writer rv3) w3 = (b, cw, w4)" by (metis prod_cases3)
  have closed: "w_records cw = w_records (rv_writer rv3)" "w_failed (rv_writer rv3) \<Longrightarrow> w_failed cw"
    "\<not> w_is_open cw" "\<not> b \<Longrightarrow> w_failed cw"
    using close by (auto simp: writer_close_def Let_def w_fail_def split: prod.splits option.splits if_splits)
  have rv: "(code, rv) = (if w_is_open (rv_writer rv3) then if b then (0, rv3\<lparr>rv_writer := cw\<rparr>)
       else (1, count_write_error (rv3\<lparr>rv_writer := cw\<rparr>)) else (0, rv3))"
    using assms(2) by (auto simp: run_receiver_def loop sweep close Let_def split: prod.splits if_splits bool.splits)
  have "accounted (rv3\<lparr>rv_writer := cw\<rparr>)" using accounted_inv [OF inv3] closed(1,2) by (auto simp: accounted_def Let_def)
  moreover have "accounted (count_write_error r) = accounted r" for r
    by (simp add: accounted_def count_write_error_def Let_def)
  ultimately show ?thesis
    using rv closed accounted_inv [OF inv3] by (auto split: if_splits)
qed

text \<open>The accounting holds for the program as a whole: after a successful start, a main loop of any length that ends
  with a shutdown request or a fatal poll error, the last sweep and the closing of the capture file, the final statistics
  are accounted for, the capture file is closed, and the exit code is 1 exactly when closing it failed.\<close>

theorem receiver_program_accounts:
  assumes "0 < reassembly_max_pending cfg" "run_program env cfg w = Inr (Some (code, rv, w'))"
  shows "accounted rv \<and> \<not> w_is_open (rv_writer rv) \<and> code \<in> {0, 1} \<and> (code = 1 \<longrightarrow> w_failed (rv_writer rv))"
proof -
  obtain rv1 w1 where start: "init env (new_Receiver cfg) w = (None, rv1, w1)" "run_receiver env rv1 w1 = Some (code, rv, w')"
    using assms(2) by (auto simp: run_program_def split: prod.splits option.splits)
  show ?thesis
    by (rule run_receiver_accounts [OF init_inv [OF receiver_inv_new [OF assms(1)] start(1)] start(2)])
qed

section \<open>Containment of rejected input and failed files\<close>


text \<open>A failed capture file stays failed: no event makes the receiver write records again.\<close>

definition latched :: "u64 \<Rightarrow> Receiver \<Rightarrow> bool" where
  "latched n rv \<longleftrightarrow> w_failed (rv_writer rv) \<and> w_records (rv_writer rv) = n"

lemma latched_on_rs [simp]: "latched n (on_rs f rv) = latched n rv"
  by (simp add: latched_def)

lemma latched_plain [simp]:
  "latched n (refresh_capture_stats rv) = latched n rv" "latched n (count_write_error rv) = latched n rv"
  "latched n (rv\<lparr>recording := b\<rparr>) = latched n rv" "latched n (rv\<lparr>rv_reassembler := r\<rparr>) = latched n rv"
  "latched n (rv\<lparr>next_sweep_ns := t\<rparr>) = latched n rv" "latched n (rv\<lparr>next_flush_ns := t\<rparr>) = latched n rv"
  "latched n (rv\<lparr>next_stats_ns := t\<rparr>) = latched n rv"
  "latched n (rv\<lparr>rv_writer := cw\<rparr>) \<longleftrightarrow> w_failed cw \<and> w_records cw = n"
  by (simp_all add: latched_def refresh_capture_stats_def)

lemma latched_handlers [simp]:
  "latched n (note_malformed reason src hs rv) = latched n rv" "latched n (note_sequence hdr rv) = latched n rv"
  "latched n (after_add hdr k nm reasm rv) = latched n rv" "latched n (note_expired e rv) = latched n rv"
  by (auto simp: note_malformed_def note_sequence_def after_add_def note_expired_def Let_def latched_def
      split: prod.split Outcome.split)

lemma latched_fold [simp]: "latched n (fold note_expired xs rv) = latched n rv"
  by (induction xs arbitrary: rv) simp_all

lemma latched_flush:
  "latched n rv \<Longrightarrow> writer_flush env sync (rv_writer rv) w = (b, cw, w') \<Longrightarrow> w_failed cw \<and> w_records cw = n"
  using writer_flush_result [of env sync "rv_writer rv" w b cw w'] by (simp add: latched_def)

lemma latched_set_recording:
  "latched n rv \<Longrightarrow> set_recording env b rv w = (good, rv', w') \<Longrightarrow> latched n rv' \<and> (b \<longrightarrow> \<not> good)"
  by (auto simp: set_recording_def Let_def dest: latched_flush split: if_splits prod.splits bool.splits)
    (simp add: latched_def)+

lemma latched_handle_command:
  assumes "latched n rv" "handle_command env cmd rv w = (good, rv', w')"
  shows "latched n rv'"
proof -
  define rv1 where "rv1 = on_rs (\<lambda>s. s\<lparr>rs_commands := rs_commands s + 1\<rparr>) rv"
  have l: "latched n rv1" using assms(1) by (simp add: rv1_def)
  show ?thesis
    using assms(2) l unfolding handle_command_def Let_def rv1_def [symmetric]
    by (auto split: if_splits prod.splits bool.splits dest: latched_set_recording [OF l] latched_flush [OF l])
qed

lemma latched_handle_datagram:
  assumes "latched n rv" "receiver_inv cfg rv" "handle_datagram env data rv w = Some (rv', w')"
  shows "latched n rv'"
proof (cases "datagram_ok data")
  case False
  then show ?thesis using handle_datagram_rejected [of data env rv w] assms(1,3) by auto
next
  case True
  obtain now w1 where clock: "re_monotonic env w = (now, w1)" by fastforce
  have "reasm_inv (rv_reassembler rv)" using assms(2) by (simp add: receiver_inv_def)
  moreover have "header_ok (header_at data)" "length (drop kHeaderSize data) = unat (fragment_length (header_at data))"
    using True by (auto simp: datagram_ok_def)
  ultimately obtain res msg nm reasm where add: "add (header_at data) (drop kHeaderSize data) now (rv_reassembler rv) = Some (res, msg, nm, reasm)"
    by (rule add_returns_inv)
  have keeps: "latched n r'" if "latched n r" "on_complete env msg r w1 = (r', w')" for r r'
    using that by (auto simp: on_complete_eq latched_def Let_def)
  show ?thesis
    using assms(1,3) unfolding handle_datagram_accepted [OF True clock add] Let_def
    by (cases res) (auto dest: keeps [rotated])
qed

lemma latched_periodic:
  assumes "latched n rv" "periodic env rv w = (rv', w')"
  shows "latched n rv'"
proof (rule periodic_keeps [where P = "latched n", OF assms])
  show "latched n r'" if "latched n r" "sweep_reassembly env r v = (r', v')" for r v r' v'
    using that by (auto simp: sweep_reassembly_def Let_def split: prod.splits)
  show "latched n r'" if "latched n r" "publish_stats env r v = (r', v')" for r v r' v'
    using that by (auto simp: publish_stats_def split: prod.splits if_splits bool.splits)
  show "latched n (r\<lparr>rv_writer := cw\<rparr>)"
    if "latched n r" "writer_flush (re_capture env) sync (rv_writer r) v = (b, cw, v')" for r sync v b cw v'
    using latched_flush [OF that] by simp
qed simp_all

lemma latched_step:
  "latched n rv \<Longrightarrow> receiver_inv cfg rv \<Longrightarrow> receiver_step env (rv, w) e = Some (rv', w') \<Longrightarrow> latched n rv'"
  by (cases e) (auto split: prod.splits dest: latched_handle_datagram latched_handle_command latched_set_recording latched_periodic)

lemma latched_run:
  "latched n rv \<Longrightarrow> receiver_inv cfg rv \<Longrightarrow> run_opt (receiver_step env) (rv, w) es = Some (rv', w') \<Longrightarrow> latched n rv'"
proof (induction es arbitrary: rv w)
  case (Cons e es)
  obtain rv1 w1 where step: "receiver_step env (rv, w) e = Some (rv1, w1)"
    using Cons.prems(3) by (auto split: option.splits)
  then have "receiver_inv cfg rv1" using rcv.step_inv [OF _ _ step, of cfg] Cons.prems(2) by simp
  with step Cons.prems show ?case by (intro Cons.IH [OF latched_step [OF Cons.prems(1,2) step]]) simp_all
qed simp


section \<open>A reference environment and witnesses\<close>

text \<open>The world is the content of the capture file, the clocks stand still, no datagram and no command is there, and
  a shutdown has been requested.\<close>

definition file_env :: "nat \<Rightarrow> u64 \<Rightarrow> (byte list) ReceiverEnv" where
  "file_env cap now = \<lparr>re_capture = disk_env cap now, re_monotonic = \<lambda>w. (now, w),
     re_recvmsg = \<lambda>w. (MsgFailed E_AGAIN, w), re_recv_command = \<lambda>w. (RecvFailed E_AGAIN, w),
     re_send_stats = \<lambda>s b w. (True, w), re_poll = \<lambda>c t w. (Ready 0 [False, False], w),
     re_shutdown_requested = \<lambda>w. True, re_udp_open = \<lambda>w. (None, w), re_zmq_ctx_new = \<lambda>w. (None, w),
     re_zmq_pub = \<lambda>w. (None, w), re_zmq_bind_pub = \<lambda>s w. (None, w), re_zmq_sub = \<lambda>s w. (None, w),
     re_zmq_attach_sub = \<lambda>b s w. (None, w), re_zmq_strerror = \<lambda>e. ''error''\<rparr>"

lemma receiver_accounts_for_everything_witness:
  "\<exists>rv w'. run_opt (receiver_step (file_env 100 5)) (new_Receiver default_ReceiverConfig, [])
     [Recording True, Datagram [1, 2, 3], Command ''record off'', Periodic] = Some (rv, w') \<and> accounted rv"
  by (rule receiver_accounts_for_everything) (simp add: default_ReceiverConfig_def)



lemma run_program_sample:
  "\<exists>code rv w'. run_program (file_env 100 5) (default_ReceiverConfig\<lparr>record_on_start := False\<rparr>) [] = Inr (Some (code, rv, w'))"
  by (simp add: run_program_def init_def file_env_def disk_env_def Let_def default_ReceiverConfig_def new_Receiver_def
      init_stats_socket_def init_command_socket_def run_receiver_def run_loop.simps split: prod.split)

lemma receiver_program_accounts_witness:
  "\<exists>code rv w'. run_program (file_env 100 5) (default_ReceiverConfig\<lparr>record_on_start := False\<rparr>) [] = Inr (Some (code, rv, w')) \<and>
     accounted rv"
  using run_program_sample receiver_program_accounts [of "default_ReceiverConfig\<lparr>record_on_start := False\<rparr>" "file_env 100 5" "[]"]
  by (fastforce simp: default_ReceiverConfig_def)

section \<open>Commands\<close>

definition is_separator :: "char \<Rightarrow> bool" where
  "is_separator c \<longleftrightarrow> c \<in> {CHR '' '', CHR ''_'', CHR ''='', CHR '':''}"

definition collapse_step :: "string \<Rightarrow> char \<Rightarrow> string" where
  "collapse_step acc c = (if c = CHR '' '' \<and> acc \<noteq> [] \<and> last acc = CHR '' '' then acc else acc @ [c])"

lemma collapse_foldl: "collapse_spaces s = foldl collapse_step [] s"
  unfolding collapse_spaces_def collapse_step_def ..

lemma collapse_word: "CHR '' '' \<notin> set t \<Longrightarrow> foldl collapse_step acc t = acc @ t"
  by (induction t arbitrary: acc) (auto simp: collapse_step_def)

lemma collapse_blanks: "foldl collapse_step (acc @ '' '') (replicate n (CHR '' '')) = acc @ '' ''"
  by (induction n) (simp_all add: collapse_step_def)

lemma separator_code: "is_separator d \<Longrightarrow> of_char d \<in> {32, 95, 61, 58 :: nat}"
  by (auto simp: is_separator_def)

lemma lower_not_separator: "\<not> is_separator c \<Longrightarrow> \<not> is_separator (to_lower_char c)"
proof -
  have "\<not> is_separator (char_of (of_char c + (32 :: nat)))" if *: "CHR ''A'' \<le> c" "c \<le> CHR ''Z''"
  proof
    assume sep: "is_separator (char_of (of_char c + (32 :: nat)))"
    have range: "65 \<le> (of_char c :: nat)" "(of_char c :: nat) \<le> 90" using * by (simp_all add: less_eq_char_def)
    have "of_char (char_of (of_char c + (32 :: nat)) :: char) = of_char c + (32 :: nat)" using range by simp
    moreover have "of_char (char_of (of_char c + (32 :: nat)) :: char) \<in> {32, 95, 61, 58 :: nat}"
      using separator_code [OF sep] .
    ultimately show False using range by auto
  qed
  then show "\<not> is_separator c \<Longrightarrow> \<not> is_separator (to_lower_char c)" by (simp add: to_lower_char_def)
qed

lemma blank_char_id: "\<not> is_separator c \<Longrightarrow> blank_separators (c # s) = c # blank_separators s"
  by (simp add: is_separator_def blank_separators_def)

lemma blank_word: "list_all (\<lambda>c. \<not> is_separator c) a \<Longrightarrow> blank_separators (to_lower a) = to_lower a \<and> CHR '' '' \<notin> set (to_lower a)"
proof (induction a)
  case (Cons c a)
  then have "\<not> is_separator (to_lower_char c)" using lower_not_separator by simp
  with Cons show ?case by (auto simp: to_lower_def blank_char_id) (auto simp: is_separator_def)
qed (simp add: blank_separators_def to_lower_def)

lemma words_append:
  "to_lower (s @ t) = to_lower s @ to_lower t" "blank_separators (s @ t) = blank_separators s @ blank_separators t"
  by (simp_all add: to_lower_def blank_separators_def)

lemma blank_seps: "list_all is_separator seps \<Longrightarrow> blank_separators (to_lower seps) = replicate (length seps) (CHR '' '')"
  by (induction seps) (auto simp: blank_separators_def to_lower_def is_separator_def to_lower_char_def less_eq_char_def)

lemma trim_padded:
  assumes "list_all is_space l" "list_all is_space r" "t \<noteq> []" "\<not> is_space (hd t)" "\<not> is_space (last t)"
  shows "trim (l @ t @ r) = t"
proof -
  have "dropWhile is_space (l @ t @ r) = t @ r"
    using assms(1,3,4) by (cases t) (simp_all add: list_all_iff)
  moreover have "dropWhile is_space (rev (t @ r)) = rev t"
    using assms(2,3,5) by (cases t rule: rev_cases) (simp_all add: list_all_iff dropWhile_append)
  ultimately show ?thesis by (simp add: trim_def)
qed

text \<open>The spelling of a command does not matter: whatever white space surrounds it, in whatever mixture of
  upper and lower case its two words are written, and whatever non-empty sequence of blanks, underscores, equals signs
  and colons stands between them, the command is normalised to the two words in lower case with one blank between them.\<close>

theorem command_spelling_is_normalised:
  assumes "list_all is_space l" "list_all is_space r" "list_all is_separator seps" "seps \<noteq> []"
    "a \<noteq> []" "b \<noteq> []" "list_all (\<lambda>c. \<not> is_separator c \<and> \<not> is_space c) (a @ b)"
  shows "normalise_command (l @ a @ seps @ b @ r) = to_lower a @ '' '' @ to_lower b"
proof -
  obtain n where n: "length seps = Suc n" using assms(4) by (cases seps) auto
  have words: "blank_separators (to_lower a) = to_lower a \<and> CHR '' '' \<notin> set (to_lower a)"
    "blank_separators (to_lower b) = to_lower b \<and> CHR '' '' \<notin> set (to_lower b)"
    using assms(7) by (auto intro!: blank_word simp: list_all_iff)
  have "trim (l @ (a @ seps @ b) @ r) = a @ seps @ b"
    using assms by (intro trim_padded) (cases a; cases b rule: rev_cases; simp)+
  then have "normalise_command (l @ a @ seps @ b @ r) =
      foldl collapse_step [] (to_lower a @ CHR '' '' # replicate n (CHR '' '') @ to_lower b)"
    using words blank_seps [OF assms(3)]
    by (simp add: normalise_command_def collapse_foldl words_append n)
  also have "\<dots> = foldl collapse_step (collapse_step (to_lower a) (CHR '' '')) (replicate n (CHR '' '') @ to_lower b)"
    using words(1) by (simp add: collapse_word)
  also have "collapse_step (to_lower a) (CHR '' '') = to_lower a @ '' ''"
    using words(1) assms(5) by (auto simp: collapse_step_def dest: last_in_set)
  finally show ?thesis using words(2) collapse_blanks [of "to_lower a" n] by (simp add: collapse_word)
qed

lemma command_spelling_is_normalised_witness:
  "normalise_command ('' '' @ ''Record'' @ ''_= '' @ ''ON'' @ []) = ''record on''"
proof -
  have "normalise_command ('' '' @ ''Record'' @ ''_= '' @ ''ON'' @ []) = to_lower ''Record'' @ '' '' @ to_lower ''ON''"
    by (rule command_spelling_is_normalised) (simp_all add: is_space_def is_separator_def)
  then show ?thesis by (simp add: to_lower_def to_lower_char_def less_eq_char_def char_of_def bit_0)
qed

end
