(* ===== verification/Relay_Path.thy ===== *)
theory Relay_Path
  imports Bridge Receiver_Invariant
begin

text \<open>
  The path of a message through the system: the datagrams the bridge puts on the wire for it, the receiver that
  reassembles them, and the record in the capture file.
\<close>

section \<open>Recording a complete message\<close>

definition alive :: "Receiver \<Rightarrow> bool" where
  "alive rv \<longleftrightarrow> recording rv \<and> w_is_open (rv_writer rv) \<and> \<not> w_failed (rv_writer rv)"

lemma after_add_fields [simp]:
  "rv_writer (after_add hdr n nm reasm rv) = rv_writer rv" "recording (after_add hdr n nm reasm rv) = recording rv"
  "rv_reassembler (after_add hdr n nm reasm rv) = reasm" "rv_cfg (after_add hdr n nm reasm rv) = rv_cfg rv"
  "rs_messages (rv_stats (after_add hdr n nm reasm rv)) = rs_messages (rv_stats rv)"
  by (auto simp: after_add_def note_sequence_def Let_def split: prod.split Outcome.split)

definition message_record :: "CompletedMessage \<Rightarrow> capture_record" where
  "message_record m = stamped (record_header_of m, take (m_length m) (m_data m))"

lemma file_env_simps [simp]:
  "re_capture (file_env cap now) = disk_env cap now" "re_monotonic (file_env cap now) w = (now, w)"
  by (simp_all add: file_env_def)

lemma on_complete_disk:
  assumes "alive rv" "length w + length (record_bytes (message_record m)) \<le> cap"
  shows "\<exists>rv'. on_complete (file_env cap now) m rv w = (rv', w @ record_bytes (message_record m)) \<and> alive rv' \<and>
    rv_reassembler rv' = rv_reassembler rv \<and> rs_messages (rv_stats rv') = rs_messages (rv_stats rv) + 1 \<and>
    w_records (rv_writer rv') = w_records (rv_writer rv) + 1"
proof -
  have "length w \<le> cap" "length (record_bytes (message_record m)) \<le> cap - length w" using assms(2) by linarith+
  with assms(1) show ?thesis
    using write_record_disk(1) [of "rv_writer rv" w cap "(record_header_of m, take (m_length m) (m_data m))" now]
    by (simp add: alive_def on_complete_eq message_record_def Let_def count_message_def)
qed

section \<open>The pieces of one message\<close>

definition completed_of :: "BridgeConfig \<Rightarrow> u32 \<Rightarrow> u64 \<Rightarrow> u64 \<Rightarrow> u16 \<Rightarrow> byte list \<Rightarrow> CompletedMessage" where
  "completed_of bc src seq ts flgs data =
     \<lparr>m_source_id = src, m_sequence = seq, m_timestamp_ns = ts,
      m_flags = (if 1 < pieces_of bc data then flgs OR kFlagFragmented else flgs), m_data = data, m_length = length data\<rparr>"

text \<open>A completing fragment of a larger message leaves no entry behind.\<close>

lemma add_complete_del:
  assumes "reasm_inv r" "header_ok h" "length (entries r) < max_pending (r_cfg r)" "fragment_count h \<noteq> 1"
    "add h p now r = (Some (Complete, out, nm, r'))"
  shows "smap_get (entries r') (Key (source_id h) (sequence h)) = None"
proof -
  have gone: "smap_get (entries r'') k = None"
    if "smap_inv (entries r1)" "add_to_entry h p nm0 k e r1 = (Complete, out', nm', r'')" for r1 r'' k e nm0 out' nm'
    using that by (auto simp: add_to_entry_def Let_def split: if_splits)
  show ?thesis
    using assms(2)
  proof (cases rule: add_cases [where p = p and now = now and r = r])
    case (old e)
    then show ?thesis using assms(5) gone [OF reasm_inv_smap [OF assms(1)]] by (auto dest: sym)
  next
    case new
    note w = with_new_entry_inv [OF assms(1,3) new(3), of now]
    show ?thesis using new assms(5) gone [OF w(2)] by (auto simp: make_room_space [OF assms(3)] dest: sym)
  qed (use assms in auto)
qed

text \<open>What a delivery leaves as it was: the configuration, and the entries of all other messages.\<close>

definition others_kept :: "Key \<Rightarrow> Receiver \<Rightarrow> Receiver \<Rightarrow> bool" where
  "others_kept k rv rv' \<longleftrightarrow> r_cfg (rv_reassembler rv') = r_cfg (rv_reassembler rv) \<and>
     (\<forall>j. j \<noteq> k \<longrightarrow> smap_get (entries (rv_reassembler rv')) j = smap_get (entries (rv_reassembler rv)) j)"

lemma others_kept_trans: "others_kept k a b \<Longrightarrow> others_kept k b c \<Longrightarrow> others_kept k a c"
  by (simp add: others_kept_def)

lemma deliver_piece:
  assumes inv: "receiver_inv cfg rv" and "alive rv" and prog: "progress c f S (rv_reassembler rv)" and "cut_ok c"
    and len: "length (c_data c) \<le> max_message_length (reassembler_config cfg)"
    and frag: "fragment_of c i h p" and "i \<notin> S"
    and room: "length (entries (rv_reassembler rv)) < max_pending (reassembler_config cfg)"
    and disk: "length w + 32 + length (c_data c) \<le> cap"
  shows "\<exists>rv' w'. handle_datagram (file_env cap now) (header_bytes h @ p) rv w = Some (rv', w') \<and> receiver_inv cfg rv' \<and>
    alive rv' \<and> others_kept (cut_key c) rv rv' \<and>
    (if insert i S = {..<c_count c}
     then w' = w @ record_bytes (message_record \<lparr>m_source_id = c_source c, m_sequence = c_sequence c,
              m_timestamp_ns = c_timestamp c, m_flags = c_flags c, m_data = c_data c, m_length = length (c_data c)\<rparr>) \<and>
       smap_get (entries (rv_reassembler rv')) (cut_key c) = None \<and>
       rs_messages (rv_stats rv') = rs_messages (rv_stats rv) + 1 \<and> w_records (rv_writer rv') = w_records (rv_writer rv) + 1
     else w' = w \<and> (\<exists>f'. progress c f' (insert i S) (rv_reassembler rv')) \<and>
       rs_messages (rv_stats rv') = rs_messages (rv_stats rv) \<and> w_records (rv_writer rv') = w_records (rv_writer rv))"
proof -
  let ?d = "header_bytes h @ p"
  have rinv: "reasm_inv (rv_reassembler rv)" and rcfg: "r_cfg (rv_reassembler rv) = reassembler_config cfg"
    using inv by (simp_all add: receiver_inv_def)
  have h: "header_ok h" "length p = unat (fragment_length h)" "Key (source_id h) (sequence h) = cut_key c" "fragment_count h \<noteq> 1"
    using frag assms(4) by (auto simp: fragment_of_def cut_key_def cut_ok_def)
  have d: "datagram_ok ?d" "header_at ?d = h" "drop kHeaderSize ?d = p"
    using datagram_ok_built [OF h(1,2)] by simp_all
  obtain res out nm r' where add: "add h p now (rv_reassembler rv) = Some (res, out, nm, r')" "reasm_inv r'"
    "r_cfg r' = r_cfg (rv_reassembler rv)"
    using add_returns_inv [OF rinv h(1,2)] by metis
  note handled = handle_datagram_accepted [OF d(1), of "file_env cap now" w now w rv res out nm r', unfolded d(2,3), OF _ add(1)]
  obtain rv' w' where ret: "handle_datagram (file_env cap now) ?d rv w = Some (rv', w')" "receiver_inv cfg rv'"
    using handle_datagram_returns_inv [OF inv, of "file_env cap now" ?d w] by auto
  note F = add_fragment_of [OF rinv _ prog assms(4) _ frag add(1)]
  note frame = add_frame [OF rinv h(1) _ add(1)]
  let ?rv1 = "after_add h (length ?d) nm r' rv"
  have alive1: "alive ?rv1" using assms(2) by (simp add: alive_def)
  have kept1: "others_kept (cut_key c) rv ?rv1" using frame add(3) room rcfg h(3) by (auto simp: others_kept_def)
  show ?thesis
  proof (cases "insert i S = {..<c_count c}")
    case True
    have res: "res = Complete" "out = \<lparr>m_source_id = c_source c, m_sequence = c_sequence c,
        m_timestamp_ns = c_timestamp c, m_flags = c_flags c, m_data = c_data c, m_length = length (c_data c)\<rparr>"
      using F(2) room rcfg len assms(7) True by simp_all
    have "length w + length (record_bytes (message_record out)) \<le> cap"
      using disk by (simp add: res(2) message_record_def length_record_bytes stamped_def)
    then obtain rv2 where rec: "on_complete (file_env cap now) out ?rv1 w = (rv2, w @ record_bytes (message_record out))" "alive rv2"
      "rv_reassembler rv2 = r'" "rs_messages (rv_stats rv2) = rs_messages (rv_stats rv) + 1"
      "w_records (rv_writer rv2) = w_records (rv_writer rv) + 1"
      using on_complete_disk [OF alive1, of w out cap now] by auto
    have "smap_get (entries r') (cut_key c) = None"
      using add_complete_del [OF rinv h(1) _ h(4), of p now out nm r'] add(1) res(1) room rcfg h(3) by simp
    moreover have "rv' = rv2" "w' = w @ record_bytes (message_record out)" using handled ret(1) res(1) rec(1) by (simp_all add: Let_def)
    moreover have "others_kept (cut_key c) rv rv2" using kept1 rec(3) by (simp add: others_kept_def)
    ultimately show ?thesis using True ret rec res(2) by (intro exI [of _ rv'] exI [of _ w']) simp
  next
    case False
    have prog': "progress c (first_at now f) (insert i S) r'"
      using F(1) room rcfg len False by simp
    then have "res \<noteq> Complete"
      using add_complete_del [OF rinv h(1) _ h(4), of p now out nm r'] add(1) room rcfg h(3) by (auto simp: progress_def)
    then have "w' = w" "alive rv'" "rv_reassembler rv' = r'" "rs_messages (rv_stats rv') = rs_messages (rv_stats rv)"
      "w_records (rv_writer rv') = w_records (rv_writer rv)"
      using handled ret(1) alive1 by (cases res; simp add: Let_def alive_def note_malformed_def)+
    moreover have "others_kept (cut_key c) rv rv'" using kept1 calculation(3) by (simp add: others_kept_def)
    ultimately show ?thesis using False ret prog' by (intro exI [of _ rv'] exI [of _ w']) auto
  qed
qed

lemma length_smap_card: "smap_inv m \<Longrightarrow> length m = card (dom (smap_get m))"
proof -
  assume inv: "smap_inv m"
  have "dom (smap_get m) = set (map fst m)" by (simp add: smap_get_def dom_map_of_conv_image_fst)
  with smap_inv_distinct [OF inv] show ?thesis by (metis distinct_card length_map)
qed

lemma others_kept_length:
  assumes "receiver_inv cfg rv" "receiver_inv cfg rv'" "others_kept k rv rv'"
  shows "length (entries (rv_reassembler rv')) \<le> Suc (length (entries (rv_reassembler rv)))"
    and "smap_get (entries (rv_reassembler rv')) k = None \<Longrightarrow>
      length (entries (rv_reassembler rv')) \<le> length (entries (rv_reassembler rv))"
proof -
  have inv: "smap_inv (entries (rv_reassembler rv))" "smap_inv (entries (rv_reassembler rv'))"
    using assms(1,2) by (simp_all add: receiver_inv_def reasm_inv_smap)
  note fin = finite_dom_map_of [of "entries (rv_reassembler rv)", folded smap_get_def]
  have sub: "dom (smap_get (entries (rv_reassembler rv'))) \<subseteq> insert k (dom (smap_get (entries (rv_reassembler rv))))"
    using assms(3) by (auto simp: others_kept_def)
  then show "length (entries (rv_reassembler rv')) \<le> Suc (length (entries (rv_reassembler rv)))"
    using card_mono [OF _ sub] card_insert_le_m1 fin
    by (simp add: length_smap_card [OF inv(1)] length_smap_card [OF inv(2)] card_insert_if split: if_splits)
  assume "smap_get (entries (rv_reassembler rv')) k = None"
  with sub have "dom (smap_get (entries (rv_reassembler rv'))) \<subseteq> dom (smap_get (entries (rv_reassembler rv)))" by auto
  then show "length (entries (rv_reassembler rv')) \<le> length (entries (rv_reassembler rv))"
    using card_mono [OF fin] by (simp add: length_smap_card [OF inv(1)] length_smap_card [OF inv(2)])
qed

text \<open>The pieces of a cut message in the order of the list \<open>is\<close>.\<close>

lemma deliver_pieces:
  assumes "cut_ok c" "length (c_data c) \<le> max_message_length (reassembler_config cfg)"
    and frags: "\<forall>i<c_count c. fragment_of c i (h i) (p i)"
    and disk: "length w + 32 + length (c_data c) \<le> cap"
    and room: "receiver_inv cfg rv0" "Suc (length (entries (rv_reassembler rv0))) < max_pending (reassembler_config cfg)"
  shows "receiver_inv cfg rv \<Longrightarrow> alive rv \<Longrightarrow> progress c f S (rv_reassembler rv) \<Longrightarrow> others_kept (cut_key c) rv0 rv \<Longrightarrow>
    distinct is \<Longrightarrow> is \<noteq> [] \<Longrightarrow> set is \<inter> S = {} \<Longrightarrow> set is \<union> S = {..<c_count c} \<Longrightarrow>
    \<exists>rv'. run_opt (receiver_step (file_env cap now)) (rv, w) (map (\<lambda>i. Datagram (header_bytes (h i) @ p i)) is) =
        Some (rv', w @ record_bytes (message_record \<lparr>m_source_id = c_source c, m_sequence = c_sequence c,
              m_timestamp_ns = c_timestamp c, m_flags = c_flags c, m_data = c_data c, m_length = length (c_data c)\<rparr>)) \<and>
      receiver_inv cfg rv' \<and> alive rv' \<and> others_kept (cut_key c) rv0 rv' \<and>
      smap_get (entries (rv_reassembler rv')) (cut_key c) = None \<and>
      rs_messages (rv_stats rv') = rs_messages (rv_stats rv) + 1 \<and> w_records (rv_writer rv') = w_records (rv_writer rv) + 1"
proof (induction "is" arbitrary: rv S f)
  case (Cons i js)
  have i: "i < c_count c" "i \<notin> S" using Cons.prems(7,8) by auto
  have "length (entries (rv_reassembler rv)) < max_pending (reassembler_config cfg)"
    using others_kept_length(1) [OF room(1) Cons.prems(1,4)] room(2) by simp
  from deliver_piece [OF Cons.prems(1-3) assms(1,2) frags [rule_format, OF i(1)] i(2) this disk, of now]
  obtain rv1 w1 where step: "handle_datagram (file_env cap now) (header_bytes (h i) @ p i) rv w = Some (rv1, w1)"
    and inv1: "receiver_inv cfg rv1" "alive rv1" "others_kept (cut_key c) rv rv1"
    and result: "if insert i S = {..<c_count c}
     then w1 = w @ record_bytes (message_record \<lparr>m_source_id = c_source c, m_sequence = c_sequence c,
              m_timestamp_ns = c_timestamp c, m_flags = c_flags c, m_data = c_data c, m_length = length (c_data c)\<rparr>) \<and>
       smap_get (entries (rv_reassembler rv1)) (cut_key c) = None \<and>
       rs_messages (rv_stats rv1) = rs_messages (rv_stats rv) + 1 \<and> w_records (rv_writer rv1) = w_records (rv_writer rv) + 1
     else w1 = w \<and> (\<exists>f'. progress c f' (insert i S) (rv_reassembler rv1)) \<and>
       rs_messages (rv_stats rv1) = rs_messages (rv_stats rv) \<and> w_records (rv_writer rv1) = w_records (rv_writer rv)"
    by (elim exE conjE, intro that) assumption+
  have kept1: "others_kept (cut_key c) rv0 rv1" by (rule others_kept_trans [OF Cons.prems(4) inv1(3)])
  show ?case
  proof (cases "js = []")
    case True
    then have "insert i S = {..<c_count c}" using Cons.prems(8) by auto
    with True step inv1 kept1 result show ?thesis by simp
  next
    case False
    obtain j where j: "j \<in> set js" using last_in_set [OF False] by blast
    then have "j \<in> {..<c_count c}" "j \<notin> insert i S" using Cons.prems(5,7,8) by (auto simp flip: Cons.prems(8))
    then have "insert i S \<noteq> {..<c_count c}" by blast
    then obtain f' where w1: "w1 = w" "progress c f' (insert i S) (rv_reassembler rv1)"
      "rs_messages (rv_stats rv1) = rs_messages (rv_stats rv)" "w_records (rv_writer rv1) = w_records (rv_writer rv)"
      using result by auto
    have "distinct js" "set js \<inter> insert i S = {}" "set js \<union> insert i S = {..<c_count c}" using Cons.prems(5,7,8) by auto
    from Cons.IH [OF inv1(1,2) w1(2) kept1 this(1) False this(2,3)] show ?thesis
      by (simp add: step w1(1,3,4))
  qed
qed simp

section \<open>One message, from its datagrams to its record\<close>

definition ready :: "ReceiverConfig \<Rightarrow> Receiver \<Rightarrow> bool" where
  "ready cfg rv \<longleftrightarrow> receiver_inv cfg rv \<and> alive rv \<and> Suc (length (entries (rv_reassembler rv))) < max_pending (reassembler_config cfg)"

lemma message_datagram_nth:
  "i < pieces_of bc data \<Longrightarrow> message_datagrams bc src seq ts flgs data ! i =
     header_bytes (message_header bc src seq ts flgs data i) @ piece_of bc data i"
  by (simp add: message_datagrams_def)

lemma deliver_single:
  assumes "bridge_config_ok bc" "\<not> oversize bc data" "\<not> bit flgs 0" "pieces_of bc data = 1" "ready cfg rv"
    "length w + 32 + length data \<le> cap"
  shows "\<exists>rv'. handle_datagram (file_env cap now) (message_datagrams bc src seq ts flgs data ! 0) rv w =
      Some (rv', w @ record_bytes (message_record (completed_of bc src seq ts flgs data))) \<and> receiver_inv cfg rv' \<and> alive rv' \<and>
    rv_reassembler rv' = rv_reassembler rv \<and> rs_messages (rv_stats rv') = rs_messages (rv_stats rv) + 1 \<and>
    w_records (rv_writer rv') = w_records (rv_writer rv) + 1"
proof -
  let ?h = "message_header bc src seq ts flgs data 0" and ?m = "completed_of bc src seq ts flgs data"
  have inv: "receiver_inv cfg rv" and "alive rv" using assms(5) by (simp_all add: ready_def)
  have piece: "piece_of bc data 0 = data"
    using concat_pieces [OF fragment_payload_bounds(2) [OF assms(1)], of data] assms(4) by simp
  have zero: "0 < pieces_of bc data" using assms(4) by simp
  note n = message_header_nat [OF assms(1,2) zero, where src = src and seq = seq and ts = ts and flgs = flgs]
  have hok: "header_ok ?h" by (rule message_header_ok [OF assms(1,2) zero assms(3)])
  have d: "datagram_ok (header_bytes ?h @ data)" "header_at (header_bytes ?h @ data) = ?h" "drop kHeaderSize (header_bytes ?h @ data) = data"
    using datagram_ok_built [OF hok] n(5) piece by simp_all
  have "fragment_count ?h = 1" using n(2) assms(4) by (simp add: word_eq_unat)
  then have add: "add ?h data now (rv_reassembler rv) = Some (Complete, ?m, True, rv_reassembler rv)"
    using n(5) piece assms(4) by (simp add: add_def completed_of_def) (simp add: message_header_def)
  let ?rv1 = "after_add ?h (length (header_bytes ?h @ data)) True (rv_reassembler rv) rv"
  have handled: "handle_datagram (file_env cap now) (header_bytes ?h @ data) rv w = Some (on_complete (file_env cap now) ?m ?rv1 w)"
    using handle_datagram_accepted [OF d(1), of "file_env cap now" w now w rv Complete ?m True "rv_reassembler rv", unfolded d(2,3), OF _ add]
    by (simp add: Let_def)
  have "alive ?rv1" using \<open>alive rv\<close> by (simp add: alive_def)
  moreover have "length w + length (record_bytes (message_record ?m)) \<le> cap"
    using assms(6) by (simp add: message_record_def completed_of_def length_record_bytes stamped_def)
  ultimately obtain rv' where rec: "on_complete (file_env cap now) ?m ?rv1 w = (rv', w @ record_bytes (message_record ?m))" "alive rv'"
    "rv_reassembler rv' = rv_reassembler rv" "rs_messages (rv_stats rv') = rs_messages (rv_stats rv) + 1"
    "w_records (rv_writer rv') = w_records (rv_writer rv) + 1"
    using on_complete_disk [of ?rv1 w ?m cap now] by auto
  moreover have "receiver_inv cfg rv'"
    using handle_datagram_returns_inv [OF inv, of "file_env cap now" "header_bytes ?h @ data" w] handled rec(1) by auto
  ultimately show ?thesis using handled piece zero by (simp add: message_datagram_nth)
qed

lemma deliver_message:
  assumes "bridge_config_ok bc" "\<not> oversize bc data" "\<not> bit flgs 0" "ready cfg rv"
    "smap_get (entries (rv_reassembler rv)) (Key src seq) = None"
    "length data \<le> max_message_length (reassembler_config cfg)" "length w + 32 + length data \<le> cap"
    "distinct is" "set is = {..<pieces_of bc data}"
  shows "\<exists>rv'. run_opt (receiver_step (file_env cap now)) (rv, w) (map (\<lambda>i. Datagram (message_datagrams bc src seq ts flgs data ! i)) is) =
      Some (rv', w @ record_bytes (message_record (completed_of bc src seq ts flgs data))) \<and> ready cfg rv' \<and>
    others_kept (Key src seq) rv rv' \<and> smap_get (entries (rv_reassembler rv')) (Key src seq) = None \<and>
    rs_messages (rv_stats rv') = rs_messages (rv_stats rv) + 1 \<and> w_records (rv_writer rv') = w_records (rv_writer rv) + 1"
proof (cases "pieces_of bc data = 1")
  case True
  have "is = [0]"
  proof -
    have "length is = 1" using distinct_card [OF assms(8)] assms(9) True by simp
    then obtain j where "is = [j]" by (cases "is") auto
    then show ?thesis using assms(9) True by auto
  qed
  with deliver_single [OF assms(1-3) True assms(4,7), of now src seq ts] assms(4,5) show ?thesis
    by (auto simp: ready_def others_kept_def)
next
  case False
  let ?c = "message_cut bc src seq ts flgs data"
  have many: "1 < pieces_of bc data" using False pieces_of_pos [OF fragment_payload_bounds(2) [OF assms(1)], of data] by linarith
  have c: "cut_key ?c = Key src seq" "c_count ?c = pieces_of bc data" "c_data ?c = data"
    by (simp_all add: message_cut_def cut_key_def)
  have inv: "receiver_inv cfg rv" "alive rv" "Suc (length (entries (rv_reassembler rv))) < max_pending (reassembler_config cfg)"
    using assms(4) by (simp_all add: ready_def)
  have "0 \<in> set is" unfolding assms(9) using many by simp
  then have "is \<noteq> []" by (metis list.set_cases neq_Nil_conv)
  have frags: "\<forall>i<c_count ?c. fragment_of ?c i (message_header bc src seq ts flgs data i) (piece_of bc data i)"
    using message_fragment_of [OF assms(1,2) _ assms(3) many] c(2) by simp
  have prog: "progress ?c None {} (rv_reassembler rv)" using assms(5) by (simp add: progress_def c(1))
  have pre: "length (c_data ?c) \<le> max_message_length (reassembler_config cfg)" "length w + 32 + length (c_data ?c) \<le> cap"
    "others_kept (cut_key ?c) rv rv" "set is \<inter> {} = {}" "set is \<union> {} = {..<c_count ?c}"
    using assms(6,7,9) c by (simp_all add: others_kept_def)
  obtain rv' where rv': "run_opt (receiver_step (file_env cap now)) (rv, w)
        (map (\<lambda>i. Datagram (header_bytes (message_header bc src seq ts flgs data i) @ piece_of bc data i)) is) =
        Some (rv', w @ record_bytes (message_record \<lparr>m_source_id = c_source ?c, m_sequence = c_sequence ?c,
              m_timestamp_ns = c_timestamp ?c, m_flags = c_flags ?c, m_data = c_data ?c, m_length = length (c_data ?c)\<rparr>))"
      "receiver_inv cfg rv'" "alive rv'" "others_kept (cut_key ?c) rv rv'" "smap_get (entries (rv_reassembler rv')) (cut_key ?c) = None"
      "rs_messages (rv_stats rv') = rs_messages (rv_stats rv) + 1" "w_records (rv_writer rv') = w_records (rv_writer rv) + 1"
    using deliver_pieces [OF message_cut_ok [OF assms(1) many] pre(1) frags pre(2) inv(1,3) inv(1,2) prog pre(3) assms(8)
        \<open>is \<noteq> []\<close> pre(4,5), of now] by (elim exE conjE, intro that) assumption+
  have m: "\<lparr>m_source_id = c_source ?c, m_sequence = c_sequence ?c, m_timestamp_ns = c_timestamp ?c, m_flags = c_flags ?c,
      m_data = c_data ?c, m_length = length (c_data ?c)\<rparr> = completed_of bc src seq ts flgs data"
    using many by (simp add: message_cut_def completed_of_def)
  have ds: "map (\<lambda>i. Datagram (header_bytes (message_header bc src seq ts flgs data i) @ piece_of bc data i)) is =
      map (\<lambda>i. Datagram (message_datagrams bc src seq ts flgs data ! i)) is"
    using assms(9) by (simp add: message_datagram_nth)
  have "ready cfg rv'"
    using rv'(2,3) others_kept_length(2) [OF inv(1) rv'(2,4,5)] inv(3) by (simp add: ready_def)
  then show ?thesis
    using rv'(1) [unfolded m ds] rv'(4-7) [unfolded c(1)] by (intro exI [of _ rv'] conjI) assumption+
qed

section \<open>A batch of messages\<close>

text \<open>The records a batch of messages leaves in the capture file: one per message that fits on the wire.\<close>

definition relayed_record :: "BridgeConfig \<Rightarrow> u32 \<Rightarrow> u64 \<Rightarrow> u64 \<Rightarrow> byte list list \<Rightarrow> capture_record" where
  "relayed_record bc src seq ts m =
     (\<lparr>rh_source_id = src, rh_sequence = seq, rh_timestamp_ns = ts, rh_payload_length = of_nat (length (concat m)),
       rh_flags = (if 1 < pieces_of bc (concat m) then flags_for m OR kFlagFragmented else flags_for m)\<rparr>, concat m)"

fun relayed_records :: "BridgeConfig \<Rightarrow> u32 \<Rightarrow> u64 \<Rightarrow> u64 \<Rightarrow> byte list list list \<Rightarrow> capture_record list" where
  "relayed_records bc src seq ts [] = []"
| "relayed_records bc src seq ts (m # ms) =
     (if oversize bc (concat m) then [] else [relayed_record bc src seq ts m]) @ relayed_records bc src (seq + 1) ts ms"

lemma message_record_completed: "message_record (completed_of bc src seq ts (flags_for m) (concat m)) = relayed_record bc src seq ts m"
  by (simp add: message_record_def completed_of_def relayed_record_def stamped_def record_header_of_def default_RecordHeader_def)

lemma flags_for_bit: "\<not> bit (flags_for m) 0"
  by (simp add: flags_for_def kFlagMultipart_def)

lemma deliver_batch:
  "bridge_config_ok bc \<Longrightarrow> ready cfg rv \<Longrightarrow> \<forall>q. smap_get (entries (rv_reassembler rv)) (Key src q) = None \<Longrightarrow>
   \<forall>m\<in>set ms. length (concat m) \<le> max_message_length (reassembler_config cfg) \<Longrightarrow>
   length w + length (records_bytes (relayed_records bc src seq ts ms)) \<le> cap \<Longrightarrow>
   \<exists>rv'. run_opt (receiver_step (file_env cap now)) (rv, w) (map Datagram (wire_of_all bc src seq ts ms)) =
       Some (rv', w @ records_bytes (relayed_records bc src seq ts ms)) \<and> ready cfg rv' \<and>
     rs_messages (rv_stats rv') = rs_messages (rv_stats rv) + of_nat (length (relayed_records bc src seq ts ms)) \<and>
     w_records (rv_writer rv') = w_records (rv_writer rv) + of_nat (length (relayed_records bc src seq ts ms))"
proof (induction ms arbitrary: rv w seq)
  case (Cons m ms)
  show ?case
  proof (cases "oversize bc (concat m)")
    case True
    with Cons.IH [OF Cons.prems(1-3), of w "seq + 1"] Cons.prems(4,5) show ?thesis by (simp add: wire_of_def)
  next
    case False
    let ?rec = "relayed_record bc src seq ts m"
    have rec_len: "length (record_bytes ?rec) = 32 + length (concat m)"
      by (simp add: relayed_record_def length_record_bytes)
    have fits: "length w + 32 + length (concat m) \<le> cap" "length (concat m) \<le> max_message_length (reassembler_config cfg)"
      using Cons.prems(4,5) False rec_len by simp_all
    obtain rv1 where rv1: "run_opt (receiver_step (file_env cap now)) (rv, w)
          (map (\<lambda>i. Datagram (message_datagrams bc src seq ts (flags_for m) (concat m) ! i)) [0..<pieces_of bc (concat m)]) =
          Some (rv1, w @ record_bytes (message_record (completed_of bc src seq ts (flags_for m) (concat m))))"
        "ready cfg rv1" "others_kept (Key src seq) rv rv1" "smap_get (entries (rv_reassembler rv1)) (Key src seq) = None"
        "rs_messages (rv_stats rv1) = rs_messages (rv_stats rv) + 1" "w_records (rv_writer rv1) = w_records (rv_writer rv) + 1"
      using deliver_message [OF Cons.prems(1) False flags_for_bit Cons.prems(2) _ fits(2,1), of src seq "[0..<pieces_of bc (concat m)]" now ts]
        Cons.prems(3) by (auto simp: atLeast0LessThan)
    have wire: "map (\<lambda>i. Datagram (message_datagrams bc src seq ts (flags_for m) (concat m) ! i)) [0..<pieces_of bc (concat m)] =
        map Datagram (wire_of bc src seq ts m)"
      using False by (simp add: wire_of_def message_datagrams_def)
    have "\<forall>q. smap_get (entries (rv_reassembler rv1)) (Key src q) = None"
      using rv1(3,4) Cons.prems(3) by (auto simp: others_kept_def) (metis Key.inject)
    from Cons.IH [OF Cons.prems(1) rv1(2) this, of "w @ record_bytes ?rec" "seq + 1"] Cons.prems(4,5) False
    obtain rv2 where rv2: "run_opt (receiver_step (file_env cap now)) (rv1, w @ record_bytes ?rec) (map Datagram (wire_of_all bc src (seq + 1) ts ms)) =
        Some (rv2, (w @ record_bytes ?rec) @ records_bytes (relayed_records bc src (seq + 1) ts ms))" "ready cfg rv2"
      "rs_messages (rv_stats rv2) = rs_messages (rv_stats rv1) + of_nat (length (relayed_records bc src (seq + 1) ts ms))"
      "w_records (rv_writer rv2) = w_records (rv_writer rv1) + of_nat (length (relayed_records bc src (seq + 1) ts ms))"
      by auto
    show ?thesis
      using rv1(1) [unfolded wire message_record_completed] rv1(5,6) rv2 False
      by (intro exI [of _ rv2]) (simp add: run_opt_append ac_simps)
  qed
qed simp

lemma relayed_records_ok: "\<forall>m\<in>set ms. length (concat m) < 2 ^ 32 \<Longrightarrow> list_all record_ok (relayed_records bc src seq ts ms)"
  by (induction ms arbitrary: seq) (simp_all add: record_ok_def relayed_record_def unat_of_nat)

end
