(* ===== verification/Json_Value.thy ===== *)
theory Json_Value
  imports Receiver_Stats
begin

text \<open>
  The JSON parser of the control tool (\<open>tools/ctl/backend/json_value.cpp\<close>). The position of the parser is
  the rest of the text; an error carries the rest at which it was found, from which the offset in the message follows.
  Every parsing function returns an error or a result together with the rest behind it. The mutual recursion of values,
  objects and arrays carries fuel; \<open>json_value_fuel\<close> shows how much is enough, and \<open>parse\<close> supplies it.
\<close>

section \<open>Values\<close>

text \<open>Of the fields of \<open>Value\<close>, only the one its type selects is ever read.\<close>

datatype Value =
    VNull
  | VBool bool
  | VNumber Double
  | VString string
  | VArray "Value list"
  | VObject "(string \<times> Value) list"

fun get :: "Value \<Rightarrow> string \<Rightarrow> Value option" where
  "get (VObject kvs) k = map_of kvs k"
| "get _ k = None"

section \<open>Lexical level\<close>

type_synonym 'a parsed = "string \<times> string + 'a \<times> string"

definition fail :: "string \<Rightarrow> string \<Rightarrow> 'a parsed" where
  "fail what rest = Inl (what, rest)"

definition is_ws :: "char \<Rightarrow> bool" where
  "is_ws c \<longleftrightarrow> c = CHR '' '' \<or> c = CHR 0x09 \<or> c = CHR 0x0A \<or> c = CHR 0x0D"

definition skip_ws :: "string \<Rightarrow> string" where
  "skip_ws = dropWhile is_ws"

definition literal :: "string \<Rightarrow> 'a \<Rightarrow> string \<Rightarrow> 'a parsed" where
  "literal word v rest =
     (if take (length word) rest = word then Inr (v, drop (length word) rest)
      else fail ''invalid literal'' rest)"

definition hex4 :: "string \<Rightarrow> u32 parsed" where
  "hex4 rest =
     (if length rest < 4 then fail (''truncated '' @ [CHR 0x5C] @ ''u escape'') rest
      else if \<exists>c\<in>set (take 4 rest). \<not> is_digit 16 c then fail (''invalid '' @ [CHR 0x5C] @ ''u escape'') rest
      else Inr (foldl (\<lambda>out c. push_bit 4 out OR of_nat (the (digit_value c))) 0 (take 4 rest), drop 4 rest))"

definition put_byte :: "u32 \<Rightarrow> char" where
  "put_byte b = char_of (unat (ucast b :: byte))"

definition append_utf8 :: "u32 \<Rightarrow> string" where
  "append_utf8 cp =
     (if cp < 0x80 then [put_byte cp]
      else if cp < 0x800 then [put_byte (0xC0 OR drop_bit 6 cp), put_byte (0x80 OR (cp AND 0x3F))]
      else if cp < 0x10000
      then [put_byte (0xE0 OR drop_bit 12 cp), put_byte (0x80 OR (drop_bit 6 cp AND 0x3F)), put_byte (0x80 OR (cp AND 0x3F))]
      else [put_byte (0xF0 OR drop_bit 18 cp), put_byte (0x80 OR (drop_bit 12 cp AND 0x3F)),
            put_byte (0x80 OR (drop_bit 6 cp AND 0x3F)), put_byte (0x80 OR (cp AND 0x3F))])"

text \<open>The characters an escape stands for, read behind the backslash.\<close>

definition unicode_escape :: "string \<Rightarrow> string parsed" where
  "unicode_escape rest =
     (case hex4 rest of Inl e \<Rightarrow> Inl e
      | Inr (cp, r) \<Rightarrow>
          if 0xD800 \<le> cp \<and> cp \<le> 0xDBFF then
            (if take 2 r \<noteq> [CHR 0x5C, CHR ''u''] then fail ''unpaired surrogate'' r
             else case hex4 (drop 2 r) of Inl e \<Rightarrow> Inl e
               | Inr (lo, r') \<Rightarrow>
                   if lo < 0xDC00 \<or> 0xDFFF < lo then fail ''unpaired surrogate'' r'
                   else Inr (append_utf8 (0x10000 + push_bit 10 (cp - 0xD800) + (lo - 0xDC00)), r'))
          else if 0xDC00 \<le> cp \<and> cp \<le> 0xDFFF then fail ''unpaired surrogate'' r
          else Inr (append_utf8 cp, r))"

text \<open>The cases of the \<open>switch\<close> other than \<open>u\<close>.\<close>

definition escape_table :: "(char \<times> char) list" where
  "escape_table =
     [(CHR 0x22, CHR 0x22), (CHR 0x5C, CHR 0x5C), (CHR ''/'', CHR ''/''), (CHR ''b'', CHR 0x08), (CHR ''f'', CHR 0x0C),
      (CHR ''n'', CHR 0x0A), (CHR ''r'', CHR 0x0D), (CHR ''t'', CHR 0x09)]"

definition json_escape :: "string \<Rightarrow> string parsed" where
  "json_escape rest =
     (case rest of [] \<Rightarrow> fail ''unterminated escape'' []
      | e # r \<Rightarrow>
          if e = CHR ''u'' then unicode_escape r
          else case map_of escape_table e of Some c \<Rightarrow> Inr ([c], r) | None \<Rightarrow> fail ''invalid escape'' r)"

lemma hex4_consumes: "hex4 rest = Inr (cp, r) \<Longrightarrow> length r < length rest"
  by (auto simp: hex4_def fail_def split: if_splits)

lemma unicode_escape_consumes:
  assumes "unicode_escape rest = Inr (cs, r)"
  shows "length r < length rest"
proof (cases "hex4 rest")
  case (Inr ok)
  obtain cp r1 where ok: "ok = (cp, r1)" by (cases ok)
  then have 1: "length r1 < length rest" using Inr hex4_consumes by simp
  show ?thesis
  proof (cases "hex4 (drop 2 r1)")
    case (Inr ok')
    obtain lo r2 where "ok' = (lo, r2)" by (cases ok')
    moreover from this have "length r2 < length rest" using Inr hex4_consumes [of "drop 2 r1"] 1 by fastforce
    ultimately show ?thesis
      using assms 1 Inr \<open>hex4 rest = Inr ok\<close> ok by (simp add: unicode_escape_def fail_def split: if_splits)
  qed (use assms 1 Inr ok in \<open>simp add: unicode_escape_def fail_def split: if_splits\<close>)
qed (use assms in \<open>simp add: unicode_escape_def\<close>)

lemma json_escape_consumes: "json_escape rest = Inr (cs, r) \<Longrightarrow> length r < length rest"
  by (cases rest) (auto simp: json_escape_def fail_def dest!: unicode_escape_consumes split: if_splits option.splits)

text \<open>A string from behind its opening quote.\<close>

function json_string :: "string \<Rightarrow> string \<Rightarrow> string parsed" where
  "json_string out [] = fail ''unterminated string'' []"
| "json_string out (c # r) =
     (if c = CHR 0x22 then Inr (out, r)
      else if (of_char c :: nat) < 0x20 then fail ''control character in string'' r
      else if c \<noteq> CHR 0x5C then json_string (out @ [c]) r
      else case json_escape r of Inl e \<Rightarrow> Inl e | Inr (cs, r') \<Rightarrow> json_string (out @ cs) r')"
  by pat_completeness auto
termination
  by (relation "measure (\<lambda>(out, r). length r)") (auto dest!: json_escape_consumes)

text \<open>Digits: the rest behind them, if there is at least one.\<close>

definition digits :: "string \<Rightarrow> string option" where
  "digits rest = (let r = dropWhile (is_digit 10) rest in if length r < length rest then Some r else None)"

text \<open>\<open>std::strtod\<close> of a text that the grammar of numbers accepts.\<close>

definition pow10 :: "int \<Rightarrow> rat" where
  "pow10 e = (if 0 \<le> e then 10 ^ nat e else 1 / 10 ^ nat (- e))"

definition exponent_value :: "string \<Rightarrow> int" where
  "exponent_value r =
     (case r of CHR ''-'' # ds \<Rightarrow> - int (digits_value 10 ds)
      | CHR ''+'' # ds \<Rightarrow> int (digits_value 10 ds)
      | ds \<Rightarrow> int (digits_value 10 ds))"

definition strtod :: "string \<Rightarrow> Double" where
  "strtod s =
     (let neg = take 1 s = ''-'';
          body = (if neg then tl s else s);
          whole = takeWhile (is_digit 10) body;
          r = dropWhile (is_digit 10) body;
          point = take 1 r = ''.'';
          frac = (if point then takeWhile (is_digit 10) (tl r) else []);
          r = (if point then dropWhile (is_digit 10) (tl r) else r);
          e = (if r = [] then 0 else exponent_value (tl r));
          x = of_nat (digits_value 10 (whole @ frac)) * pow10 (e - int (length frac))
      in round_double (if neg then - x else x))"

definition skip_sign :: "string \<Rightarrow> string" where
  "skip_sign r = (if r \<noteq> [] \<and> (hd r = CHR ''+'' \<or> hd r = CHR ''-'') then tl r else r)"

definition after_fraction :: "string \<Rightarrow> string \<Rightarrow> string parsed" where
  "after_fraction start r =
     (if r \<noteq> [] \<and> (hd r = CHR ''e'' \<or> hd r = CHR ''E'') then
        (case digits (skip_sign (tl r)) of None \<Rightarrow> fail ''invalid number'' (skip_sign (tl r))
         | Some r' \<Rightarrow> Inr (take (length start - length r') start, r'))
      else Inr (take (length start - length r) start, r))"

text \<open>The whole part: a single \<open>0\<close> or digits.\<close>

definition whole_digits :: "string \<Rightarrow> string option" where
  "whole_digits r = (if hd r = CHR ''0'' then Some (tl r) else digits r)"

definition number_text :: "string \<Rightarrow> string parsed" where
  "number_text start =
     (let r = (if start \<noteq> [] \<and> hd start = CHR ''-'' then tl start else start)
      in if r = [] then fail ''invalid number'' r
         else case whole_digits r of
             None \<Rightarrow> fail ''invalid value'' r
           | Some r \<Rightarrow>
               if r \<noteq> [] \<and> hd r = CHR ''.'' then
                 (case digits (tl r) of None \<Rightarrow> fail ''invalid number'' (tl r)
                  | Some r' \<Rightarrow> after_fraction start r')
               else after_fraction start r)"

definition number :: "string \<Rightarrow> Value parsed" where
  "number start =
     (case number_text start of Inl e \<Rightarrow> Inl e | Inr (s, r) \<Rightarrow> Inr (VNumber (strtod s), r))"

section \<open>Values, objects and arrays\<close>

text \<open>One level of the recursive descent, over the functions for the level below: \<open>value_step\<close> is the dispatch in
  \<open>value\<close>, \<open>open_bracket\<close> the beginning of \<open>object\<close> and \<open>array\<close>, \<open>members_step\<close> and \<open>items_step\<close> are one round of
  their loops, with the members or elements read so far.\<close>

definition open_bracket :: "char \<Rightarrow> Value \<Rightarrow> (string \<Rightarrow> Value parsed option) \<Rightarrow> bool \<Rightarrow> string \<Rightarrow> Value parsed option" where
  "open_bracket close nothing loop too_deep rest =
     (if too_deep then Some (fail ''nesting too deep'' rest)
      else let r = skip_ws (tl rest)
           in if r \<noteq> [] \<and> hd r = close then Some (Inr (nothing, tl r)) else loop r)"

definition value_step ::
  "(string \<Rightarrow> Value parsed option) \<Rightarrow> (string \<Rightarrow> Value parsed option) \<Rightarrow> bool \<Rightarrow> string \<Rightarrow> Value parsed option"
where
  "value_step members items too_deep rest =
     (if rest = [] then Some (fail ''unexpected end of input'' [])
      else if hd rest = CHR ''{'' then open_bracket (CHR ''}'') (VObject []) members too_deep rest
      else if hd rest = CHR ''['' then open_bracket (CHR '']'') (VArray []) items too_deep rest
      else if hd rest = CHR 0x22 then
        Some (case json_string [] (tl rest) of Inl e \<Rightarrow> Inl e | Inr (s, r) \<Rightarrow> Inr (VString s, r))
      else if hd rest = CHR ''t'' then Some (literal ''true'' (VBool True) rest)
      else if hd rest = CHR ''f'' then Some (literal ''false'' (VBool False) rest)
      else if hd rest = CHR ''n'' then Some (literal ''null'' VNull rest)
      else Some (number rest))"

definition quote_char :: "char \<Rightarrow> string" where
  "quote_char c = [CHR 0x27, c, CHR 0x27]"

definition expected_or :: "char \<Rightarrow> string" where
  "expected_or close = ''expected '' @ quote_char (CHR '','') @ '' or '' @ quote_char close"

definition members_step ::
  "(string \<Rightarrow> Value parsed option) \<Rightarrow> ((string \<times> Value) list \<Rightarrow> string \<Rightarrow> Value parsed option) \<Rightarrow>
   (string \<times> Value) list \<Rightarrow> string \<Rightarrow> Value parsed option"
where
  "members_step val loop kvs rest =
     (let r = skip_ws rest
      in if r = [] \<or> hd r \<noteq> CHR 0x22 then Some (fail ''expected object key'' r)
         else case json_string [] (tl r) of Inl e \<Rightarrow> Some (Inl e)
           | Inr (k, r) \<Rightarrow>
               let r = skip_ws r
               in if r = [] \<or> hd r \<noteq> CHR '':'' then Some (fail (''expected '' @ quote_char (CHR '':'')) r)
                  else (case val (skip_ws (tl r)) of
                      None \<Rightarrow> None
                    | Some (Inl e) \<Rightarrow> Some (Inl e)
                    | Some (Inr (v, r)) \<Rightarrow>
                        let kvs = kvs @ [(k, v)]; r = skip_ws r
                        in if r = [] then Some (fail ''unterminated object'' r)
                           else if hd r = CHR '','' then loop kvs (tl r)
                           else if hd r = CHR ''}'' then Some (Inr (VObject kvs, tl r))
                           else Some (fail (expected_or (CHR ''}'')) r)))"

definition items_step ::
  "(string \<Rightarrow> Value parsed option) \<Rightarrow> (Value list \<Rightarrow> string \<Rightarrow> Value parsed option) \<Rightarrow>
   Value list \<Rightarrow> string \<Rightarrow> Value parsed option"
where
  "items_step val loop vs rest =
     (case val (skip_ws rest) of
        None \<Rightarrow> None
      | Some (Inl e) \<Rightarrow> Some (Inl e)
      | Some (Inr (v, r)) \<Rightarrow>
          let vs = vs @ [v]; r = skip_ws r
          in if r = [] then Some (fail ''unterminated array'' r)
             else if hd r = CHR '','' then loop vs (tl r)
             else if hd r = CHR '']'' then Some (Inr (VArray vs, tl r))
             else Some (fail (expected_or (CHR '']'')) r))"

fun json_value :: "nat \<Rightarrow> int \<Rightarrow> int \<Rightarrow> string \<Rightarrow> Value parsed option"
  and json_members :: "nat \<Rightarrow> int \<Rightarrow> int \<Rightarrow> (string \<times> Value) list \<Rightarrow> string \<Rightarrow> Value parsed option"
  and json_items :: "nat \<Rightarrow> int \<Rightarrow> int \<Rightarrow> Value list \<Rightarrow> string \<Rightarrow> Value parsed option"
where
  "json_value 0 max_depth depth rest = None"
| "json_value (Suc n) max_depth depth rest =
     value_step (json_members n max_depth (depth + 1) []) (json_items n max_depth (depth + 1) [])
       (max_depth < depth + 1) rest"
| "json_members 0 max_depth depth kvs rest = None"
| "json_members (Suc n) max_depth depth kvs rest =
     members_step (json_value n max_depth depth) (json_members n max_depth depth) kvs rest"
| "json_items 0 max_depth depth vs rest = None"
| "json_items (Suc n) max_depth depth vs rest =
     items_step (json_value n max_depth depth) (json_items n max_depth depth) vs rest"

definition at_offset :: "string \<Rightarrow> string \<Rightarrow> string" where
  "at_offset s rest = '' at offset '' @ dec_digits (length s - length rest)"

definition document :: "nat \<Rightarrow> int \<Rightarrow> string \<Rightarrow> (string + Value) option" where
  "document fuel max_depth s =
     (case json_value fuel max_depth 0 (skip_ws s) of None \<Rightarrow> None
      | Some (Inl (what, rest)) \<Rightarrow> Some (Inl (what @ at_offset s rest))
      | Some (Inr (v, r)) \<Rightarrow>
          let r = skip_ws r in Some (if r \<noteq> [] then Inl (''trailing characters'' @ at_offset s r) else Inr v))"

definition parse :: "string \<Rightarrow> int \<Rightarrow> (string + Value) option" where
  "parse s max_depth = document (2 * length s + 2) max_depth s"

end
