(* ===== verification/Utf8.thy ===== *)
theory Utf8
  imports Relay_Prelude
begin

text \<open>
  What a well-formed UTF-8 text is, which WebSocket text messages must be: the yardstick for the strings that the
  JSON parser and the control server produce. Nothing here models code.
\<close>

section \<open>UTF-8\<close>

definition continuation :: "char \<Rightarrow> bool" where
  "continuation c \<longleftrightarrow> 0x80 \<le> (of_char c :: nat) \<and> (of_char c :: nat) < 0xC0"

definition ascii :: "char \<Rightarrow> bool" where
  "ascii c \<longleftrightarrow> (of_char c :: nat) < 0x80"

text \<open>The well-formed byte sequences of one character (Unicode, table 3-7).\<close>

definition utf8_2 :: "char \<Rightarrow> char \<Rightarrow> bool" where
  "utf8_2 a b \<longleftrightarrow> 0xC2 \<le> (of_char a :: nat) \<and> (of_char a :: nat) < 0xE0 \<and> continuation b"

definition utf8_3 :: "char \<Rightarrow> char \<Rightarrow> char \<Rightarrow> bool" where
  "utf8_3 a b c \<longleftrightarrow> 0xE0 \<le> (of_char a :: nat) \<and> (of_char a :: nat) < 0xF0 \<and> continuation b \<and> continuation c \<and>
     (of_char a = (0xE0 :: nat) \<longrightarrow> 0xA0 \<le> (of_char b :: nat)) \<and> (of_char a = (0xED :: nat) \<longrightarrow> (of_char b :: nat) < 0xA0)"

definition utf8_4 :: "char \<Rightarrow> char \<Rightarrow> char \<Rightarrow> char \<Rightarrow> bool" where
  "utf8_4 a b c d \<longleftrightarrow> 0xF0 \<le> (of_char a :: nat) \<and> (of_char a :: nat) < 0xF5 \<and> continuation b \<and> continuation c \<and> continuation d \<and>
     (of_char a = (0xF0 :: nat) \<longrightarrow> 0x90 \<le> (of_char b :: nat)) \<and> (of_char a = (0xF4 :: nat) \<longrightarrow> (of_char b :: nat) < 0x90)"

fun utf8 :: "string \<Rightarrow> bool" where
  "utf8 [] = True"
| "utf8 (a # r) =
     (ascii a \<and> utf8 r \<or>
      (case r of [] \<Rightarrow> False
       | b # r \<Rightarrow> utf8_2 a b \<and> utf8 r \<or>
         (case r of [] \<Rightarrow> False
          | c # r \<Rightarrow> utf8_3 a b c \<and> utf8 r \<or>
            (case r of [] \<Rightarrow> False | d # r \<Rightarrow> utf8_4 a b c d \<and> utf8 r))))"

declare utf8.simps(2) [simp del]

lemma utf8_intros:
  "ascii a \<Longrightarrow> utf8 r \<Longrightarrow> utf8 (a # r)" "utf8_2 a b \<Longrightarrow> utf8 r \<Longrightarrow> utf8 (a # b # r)"
  "utf8_3 a b c \<Longrightarrow> utf8 r \<Longrightarrow> utf8 (a # b # c # r)" "utf8_4 a b c d \<Longrightarrow> utf8 r \<Longrightarrow> utf8 (a # b # c # d # r)"
  by (simp_all add: utf8.simps)

text \<open>Case analysis by characters instead of bytes.\<close>

lemma utf8_Cons:
  "utf8 (a # r) \<longleftrightarrow>
     ascii a \<and> utf8 r \<or> (\<exists>b r'. r = b # r' \<and> utf8_2 a b \<and> utf8 r') \<or>
     (\<exists>b c r'. r = b # c # r' \<and> utf8_3 a b c \<and> utf8 r') \<or>
     (\<exists>b c d r'. r = b # c # d # r' \<and> utf8_4 a b c d \<and> utf8 r')"
  unfolding utf8.simps(2) [of a r] by (cases r; cases "tl r"; cases "tl (tl r)") auto

lemma utf8_cases:
  assumes "utf8 s"
  obtains "s = []"
  | a r where "s = a # r" "ascii a" "utf8 r"
  | a b r where "s = a # b # r" "utf8_2 a b" "utf8 r"
  | a b c r where "s = a # b # c # r" "utf8_3 a b c" "utf8 r"
  | a b c d r where "s = a # b # c # d # r" "utf8_4 a b c d" "utf8 r"
proof (cases s)
  case (Cons x t)
  from assms [unfolded Cons utf8_Cons] show ?thesis
    by (elim disjE exE conjE) (use that Cons in simp_all)
qed (rule that(1))

lemma utf8_append: "utf8 s \<Longrightarrow> utf8 t \<Longrightarrow> utf8 (s @ t)"
proof (induction "length s" arbitrary: s rule: less_induct)
  case less
  from less.prems(1) show ?case
    by (cases rule: utf8_cases) (auto intro!: utf8_intros less.hyps less.prems(2))
qed

lemma not_ascii: "utf8_2 a b \<Longrightarrow> \<not> ascii a \<and> \<not> ascii b" "utf8_3 a b c \<Longrightarrow> \<not> ascii a \<and> \<not> ascii b \<and> \<not> ascii c"
  "utf8_4 a b c d \<Longrightarrow> \<not> ascii a \<and> \<not> ascii b \<and> \<not> ascii c \<and> \<not> ascii d"
  by (auto simp: utf8_2_def utf8_3_def utf8_4_def continuation_def ascii_def)

text \<open>An ASCII byte is always a character of its own.\<close>

lemma utf8_split: "utf8 (s @ x # t) \<Longrightarrow> ascii x \<Longrightarrow> utf8 s \<and> utf8 t"
proof (induction "length s" arbitrary: s rule: less_induct)
  case less
  from less.prems(1) show ?case
  proof (cases rule: utf8_cases)
    case (2 a r)
    then show ?thesis using less.hyps [of "tl s"] less.prems(2) by (cases s) (auto intro: utf8_intros)
  next
    case (3 a b r)
    with not_ascii(1) less.prems(2) obtain s' where "s = a # b # s'" "r = s' @ x # t"
      by (cases s; cases "tl s") auto
    with 3 show ?thesis using less.hyps [of s'] less.prems(2) by (auto intro: utf8_intros)
  next
    case (4 a b c r)
    with not_ascii(2) less.prems(2) obtain s' where "s = a # b # c # s'" "r = s' @ x # t"
      by (cases s; cases "tl s"; cases "tl (tl s)") auto
    with 4 show ?thesis using less.hyps [of s'] less.prems(2) by (auto intro: utf8_intros)
  next
    case (5 a b c d r)
    with not_ascii(3) less.prems(2) obtain s' where "s = a # b # c # d # s'" "r = s' @ x # t"
      by (cases s; cases "tl s"; cases "tl (tl s)"; cases "tl (tl (tl s))") auto
    with 5 show ?thesis using less.hyps [of s'] less.prems(2) by (auto intro: utf8_intros)
  qed simp
qed

lemma utf8_behind: "utf8 (s @ t) \<Longrightarrow> \<forall>c\<in>set s. ascii c \<Longrightarrow> utf8 t"
  by (induction s) (auto dest: utf8_split [where s = "[]", simplified])

end
