(* ===== verification/Json_Properties.thy ===== *)
theory Json_Properties
  imports Json_Value Utf8 "HOL-Library.Sublist"
begin

text \<open>
  The JSON parser returns on every text and an error names a position in it; what it accepts is well formed; and it
  reads back every document the JSON writer produces, the statistics message of the receiver among them.
\<close>

section \<open>The bytes of a code point\<close>

lemma of_char_put_byte: "unat w < 256 \<Longrightarrow> (of_char (put_byte w) :: nat) = unat w"
  by (simp add: put_byte_def unsigned_ucast_eq take_bit_eq_mod)

lemma lead_byte:
  fixes w :: u32
  shows "unat w < 64 \<Longrightarrow> unat (0x80 OR w) = 0x80 + unat w" "unat w < 32 \<Longrightarrow> unat (0xC0 OR w) = 0xC0 + unat w"
    "unat w < 16 \<Longrightarrow> unat (0xE0 OR w) = 0xE0 + unat w" "unat w < 8 \<Longrightarrow> unat (0xF0 OR w) = 0xF0 + unat w"
  using or_plus [of w 6 "0x80" 2] or_plus [of w 5 "0xC0" 6] or_plus [of w 4 "0xE0" 14] or_plus [of w 3 "0xF0" 30]
  by (simp_all add: unat_word_ariths)

lemma continuation_byte: "of_char (put_byte (0x80 OR (w AND 0x3F))) = 0x80 + unat w mod 64"
  by (simp add: of_char_put_byte lead_byte low_bits)

lemma utf8_append_utf8:
  assumes "cp < 0x110000" "\<not> (0xD800 \<le> cp \<and> cp \<le> 0xDFFF)"
  shows "utf8 (append_utf8 cp)"
proof -
  note nat = word_less_nat_alt word_le_nat_alt
  define n where "n = unat cp"
  have n: "n < 0x110000" "n < 0xD800 \<or> 0xDFFF < n" using assms by (auto simp: nat n_def)
  consider "n < 0x80" | "0x80 \<le> n" "n < 0x800" | "0x800 \<le> n" "n < 0x10000" | "0x10000 \<le> n" by linarith
  then show ?thesis
  proof cases
    case 1
    then have "append_utf8 cp = [put_byte cp]" by (simp add: append_utf8_def nat n_def)
    with 1 show ?thesis by (auto intro!: utf8_intros simp: ascii_def of_char_put_byte n_def)
  next
    case 2
    then have "append_utf8 cp = [put_byte (0xC0 OR drop_bit 6 cp), put_byte (0x80 OR (cp AND 0x3F))]"
      by (simp add: append_utf8_def nat n_def)
    moreover have "of_char (put_byte (0xC0 OR drop_bit 6 cp)) = 0xC0 + n div 64"
      using 2 by (simp add: of_char_put_byte lead_byte unat_drop_bit n_def)
    moreover have "utf8_2 (put_byte (0xC0 OR drop_bit 6 cp)) (put_byte (0x80 OR (cp AND 0x3F)))"
      using 2 calculation(2) by (auto simp: utf8_2_def continuation_def continuation_byte n_def)
    ultimately show ?thesis by (simp add: utf8_intros)
  next
    case 3
    then have eq: "append_utf8 cp = [put_byte (0xE0 OR drop_bit 12 cp), put_byte (0x80 OR (drop_bit 6 cp AND 0x3F)),
        put_byte (0x80 OR (cp AND 0x3F))]"
      by (simp add: append_utf8_def nat n_def)
    have "of_char (put_byte (0xE0 OR drop_bit 12 cp)) = 0xE0 + n div 4096"
      using 3 by (simp add: of_char_put_byte lead_byte unat_drop_bit n_def)
    moreover have "of_char (put_byte (0x80 OR (drop_bit 6 cp AND 0x3F))) = 0x80 + n div 64 mod 64"
      by (simp add: continuation_byte unat_drop_bit n_def)
    moreover have "n div 4096 = n div 64 div 64" by (simp flip: div_mult2_eq)
    moreover have "n div 64 = n div 64 div 64 * 64 + n div 64 mod 64" by simp
    moreover have "0x20 \<le> n div 64" "n div 64 < 0x360 \<or> 0x380 \<le> n div 64" using 3 n by auto
    moreover from calculation have "n div 4096 = 0 \<Longrightarrow> 0x20 \<le> n div 64 mod 64" "n div 4096 = 0xD \<Longrightarrow> n div 64 mod 64 < 0x20"
      by linarith+
    moreover have "n div 64 div 64 < 16" using 3 by auto
    ultimately have "utf8_3 (put_byte (0xE0 OR drop_bit 12 cp)) (put_byte (0x80 OR (drop_bit 6 cp AND 0x3F)))
        (put_byte (0x80 OR (cp AND 0x3F)))"
      using 3 by (simp add: utf8_3_def continuation_def continuation_byte)
    then show ?thesis by (simp add: eq utf8_intros)
  next
    case 4
    then have eq: "append_utf8 cp = [put_byte (0xF0 OR drop_bit 18 cp), put_byte (0x80 OR (drop_bit 12 cp AND 0x3F)),
        put_byte (0x80 OR (drop_bit 6 cp AND 0x3F)), put_byte (0x80 OR (cp AND 0x3F))]"
      by (simp add: append_utf8_def nat n_def)
    have "of_char (put_byte (0xF0 OR drop_bit 18 cp)) = 0xF0 + n div 262144"
      using n by (simp add: of_char_put_byte lead_byte unat_drop_bit n_def)
    moreover have "of_char (put_byte (0x80 OR (drop_bit 12 cp AND 0x3F))) = 0x80 + n div 4096 mod 64"
      by (simp add: continuation_byte unat_drop_bit n_def)
    moreover have "n div 262144 = n div 4096 div 64" by (simp flip: div_mult2_eq)
    moreover have "n div 4096 = n div 4096 div 64 * 64 + n div 4096 mod 64" by simp
    moreover have "0x10 \<le> n div 4096" "n div 4096 < 0x110" using 4 n by auto
    moreover from calculation have "n div 262144 = 0 \<Longrightarrow> 0x10 \<le> n div 4096 mod 64" "n div 262144 = 4 \<Longrightarrow> n div 4096 mod 64 < 0x10"
      by linarith+
    moreover have "n div 4096 div 64 < 5" using n by auto
    ultimately have "utf8_4 (put_byte (0xF0 OR drop_bit 18 cp)) (put_byte (0x80 OR (drop_bit 12 cp AND 0x3F)))
        (put_byte (0x80 OR (drop_bit 6 cp AND 0x3F))) (put_byte (0x80 OR (cp AND 0x3F)))"
      using n by (simp add: utf8_4_def continuation_def continuation_byte)
    then show ?thesis by (simp add: eq utf8_intros)
  qed
qed

section \<open>What parsing functions yield\<close>

text \<open>Parsing from \<open>rest\<close> ends in an error at a later position, or behind at least one character with a result that
  satisfies \<open>P\<close>. With the flag \<open>u\<close>, a UTF-8 text is only left at a boundary of its characters.\<close>

definition good :: "bool \<Rightarrow> string \<Rightarrow> bool" where
  "good u s \<longleftrightarrow> (u \<longrightarrow> utf8 s)"

definition reaches :: "bool \<Rightarrow> string \<Rightarrow> string \<Rightarrow> bool" where
  "reaches u rest r \<longleftrightarrow> suffix r rest \<and> (good u rest \<longrightarrow> good u r)"

definition passes :: "bool \<Rightarrow> string \<Rightarrow> string \<Rightarrow> bool" where
  "passes u rest r \<longleftrightarrow> reaches u rest r \<and> length r < length rest"

definition yields :: "bool \<Rightarrow> ('a \<Rightarrow> bool) \<Rightarrow> string \<Rightarrow> 'a parsed \<Rightarrow> bool" where
  "yields u P rest p \<longleftrightarrow>
     (case p of Inl (_, r) \<Rightarrow> suffix r rest | Inr (v, r) \<Rightarrow> passes u rest r \<and> (good u rest \<longrightarrow> P v))"

named_theorems yielding \<open>what the parsing functions yield\<close>

lemma good_Nil [simp]: "good u []" by (simp add: good_def)

lemma good_append: "good u s \<Longrightarrow> good u t \<Longrightarrow> good u (s @ t)" by (simp add: good_def utf8_append)

lemma reaches_refl [simp]: "reaches u r r" by (simp add: reaches_def)

lemma reaches_trans: "reaches u a b \<Longrightarrow> reaches u b c \<Longrightarrow> reaches u a c"
  by (auto simp: reaches_def elim: suffix_order.trans)

lemma reaches_length: "reaches u a b \<Longrightarrow> length b \<le> length a"
  by (simp add: reaches_def suffix_length_le)

lemma passes_reaches: "passes u a b \<Longrightarrow> reaches u a b" by (simp add: passes_def)

lemma passes_reaches_trans: "passes u a b \<Longrightarrow> reaches u b c \<Longrightarrow> passes u a c"
  by (meson passes_def reaches_length reaches_trans le_less_trans)

lemma reaches_passes_trans: "reaches u a b \<Longrightarrow> passes u b c \<Longrightarrow> passes u a c"
  by (meson passes_def reaches_length reaches_trans less_le_trans)

lemma reaches_ascii: "rest = s @ r \<Longrightarrow> \<forall>c\<in>set s. ascii c \<Longrightarrow> reaches u rest r"
  by (simp add: reaches_def good_def suffix_def) (use utf8_behind in blast)

lemma reaches_dropWhile: "(\<And>c. p c \<Longrightarrow> ascii c) \<Longrightarrow> reaches u rest (dropWhile p rest)"
  by (rule reaches_ascii [of _ "takeWhile p rest"]) (auto dest: set_takeWhileD)

lemma reaches_skip_ws: "reaches u rest (skip_ws rest)"
  unfolding skip_ws_def by (rule reaches_dropWhile) (auto simp: is_ws_def ascii_def)

lemma passes_tl: "rest \<noteq> [] \<Longrightarrow> ascii (hd rest) \<Longrightarrow> passes u rest (tl rest)"
  unfolding passes_def by (cases rest) (auto intro: reaches_ascii [of _ "[hd rest]"])

lemma passes_skip_tl: "skip_ws rest \<noteq> [] \<Longrightarrow> ascii (hd (skip_ws rest)) \<Longrightarrow> passes u rest (tl (skip_ws rest))"
  by (rule reaches_passes_trans [OF reaches_skip_ws passes_tl])

lemma yields_fail [simp]: "yields u P rest (fail what r) \<longleftrightarrow> suffix r rest"
  by (simp add: yields_def fail_def)

lemma yields_Inl [simp]: "yields u P rest (Inl (e, r)) \<longleftrightarrow> suffix r rest"
  by (simp add: yields_def)

lemma yields_Inr [simp]: "yields u P rest (Inr (v, r)) \<longleftrightarrow> passes u rest r \<and> (good u rest \<longrightarrow> P v)"
  by (simp add: yields_def)

lemma yields_mono: "yields u P rest p \<Longrightarrow> (\<And>v. good u rest \<Longrightarrow> P v \<Longrightarrow> Q v) \<Longrightarrow> yields u Q rest p"
  by (auto simp: yields_def split: sum.splits)

lemma yields_later: "yields u P r p \<Longrightarrow> reaches u rest r \<Longrightarrow> yields u P rest p"
  by (auto simp: yields_def reaches_passes_trans split: sum.splits)
    (auto simp: reaches_def elim: suffix_order.trans)

lemma yields_bind:
  assumes "yields u P rest p"
    "\<And>v r. p = Inr (v, r) \<Longrightarrow> passes u rest r \<Longrightarrow> (good u rest \<Longrightarrow> P v) \<Longrightarrow> yields u Q rest (f v r)"
  shows "yields u Q rest (case p of Inl e \<Rightarrow> Inl e | Inr (v, r) \<Rightarrow> f v r)"
proof (cases p)
  case (Inl e)
  with assms(1) show ?thesis by (cases e) simp
next
  case (Inr ok)
  with assms show ?thesis by (cases ok) simp
qed

lemma passes_suffix: "passes u a b \<Longrightarrow> suffix b a" by (simp add: passes_def reaches_def)

lemma reaches_suffix: "reaches u a b \<Longrightarrow> suffix b a" by (simp add: reaches_def)

section \<open>The lexical level\<close>

lemma is_digit_ascii: "is_digit b c \<Longrightarrow> ascii c"
  by (auto simp: is_digit_def digit_value_def ascii_def less_eq_char_def split: if_splits)

lemma literal_yields [yielding]:
  assumes "rest \<noteq> []" "word \<noteq> []" "\<forall>c\<in>set word. ascii c" "P v"
  shows "yields u P rest (literal word v rest)"
proof (cases "take (length word) rest = word")
  case True
  then have "rest = word @ drop (length word) rest" by (metis append_take_drop_id)
  then have "reaches u rest (drop (length word) rest)" using assms(3) by (rule reaches_ascii)
  with True assms show ?thesis by (simp add: literal_def passes_def)
qed (simp add: literal_def)

lemma digits_value_less: "\<forall>c\<in>set ds. is_digit b c \<Longrightarrow> digits_value b ds < b ^ length ds"
proof (induction ds rule: rev_induct)
  case (snoc c ds)
  then have "digits_value b ds + 1 \<le> b ^ length ds" "the (digit_value c) < b"
    by (auto simp: is_digit_def split: option.splits)
  then have "(digits_value b ds + 1) * b \<le> b ^ length ds * b" by (rule_tac mult_le_mono1)
  with \<open>the (digit_value c) < b\<close> show ?case by (simp add: digits_value_snoc algebra_simps)
qed (simp add: digits_value_def)

lemma hex_value:
  "\<forall>c\<in>set ds. is_digit 16 c \<Longrightarrow> length ds \<le> 7 \<Longrightarrow>
     unat (foldl (\<lambda>out c. push_bit 4 out OR of_nat (the (digit_value c))) (0 :: u32) ds) = digits_value 16 ds"
proof (induction ds rule: rev_induct)
  case (snoc c ds)
  let ?w = "foldl (\<lambda>out c. push_bit 4 out OR of_nat (the (digit_value c))) (0 :: u32) ds"
  have d: "the (digit_value c) < 16" using snoc.prems by (auto simp: is_digit_def split: option.splits)
  have "digits_value 16 ds < 16 ^ length ds" using snoc.prems digits_value_less by simp
  also have "(16 :: nat) ^ length ds \<le> 16 ^ 6" using snoc.prems by (intro power_increasing) simp_all
  finally have w: "unat ?w < 16 ^ 6" "unat ?w = digits_value 16 ds" using snoc by simp_all
  have "push_bit 4 ?w OR of_nat (the (digit_value c)) = push_bit 4 ?w + of_nat (the (digit_value c))"
    by (rule or_plus [where n = 4]) (use d in \<open>simp_all add: unat_of_nat\<close>)
  with d w show ?case by (simp add: digits_value_snoc unat_word_ariths unat_of_nat push_bit_eq_mult)
qed (simp add: digits_value_def)

lemma hex4_yields [yielding]: "yields u (\<lambda>cp. cp < 0x10000) rest (hex4 rest)"
proof (cases "length rest < 4 \<or> (\<exists>c\<in>set (take 4 rest). \<not> is_digit 16 c)")
  case True
  then show ?thesis by (auto simp: hex4_def)
next
  case False
  have "rest = take 4 rest @ drop 4 rest" by simp
  moreover have "\<forall>c\<in>set (take 4 rest). ascii c" using False is_digit_ascii by blast
  ultimately have "reaches u rest (drop 4 rest)" by (rule reaches_ascii)
  moreover have "digits_value 16 (take 4 rest) < 0x10000"
    using False digits_value_less [of "take 4 rest" 16] by simp
  ultimately show ?thesis
    using False hex_value [of "take 4 rest"] by (auto simp: hex4_def passes_def word_less_nat_alt)
qed

text \<open>The code point of a pair of surrogates.\<close>

lemma surrogates:
  fixes cp lo :: u32
  assumes "0xD800 \<le> cp" "cp \<le> 0xDBFF" "0xDC00 \<le> lo" "lo \<le> 0xDFFF"
  defines "w \<equiv> 0x10000 + push_bit 10 (cp - 0xD800) + (lo - 0xDC00)"
  shows "0x10000 \<le> w \<and> w < 0x110000"
proof -
  define a b where "a = cp - 0xD800" and "b = lo - 0xDC00"
  have "unat a \<le> 0x3FF" "unat b \<le> 0x3FF"
    using assms(1-4) by (simp_all add: a_def b_def word_le_nat_alt unat_sub)
  moreover from this have "unat w = 0x10000 + unat a * 1024 + unat b"
    unfolding w_def by (simp add: unat_word_ariths push_bit_eq_mult flip: a_def b_def)
  ultimately show ?thesis by (simp add: word_le_nat_alt word_less_nat_alt)
qed

lemma unicode_escape_yields [yielding]: "yields u (good u) rest (unicode_escape rest)"
  unfolding unicode_escape_def
proof (rule yields_bind [OF hex4_yields])
  fix cp :: u32 and r
  assume r: "passes u rest r" and cp: "good u rest \<Longrightarrow> cp < 0x10000"
  have pair: "yields u (good u) r (case hex4 (drop 2 r) of Inl e \<Rightarrow> Inl e
      | Inr (lo, r') \<Rightarrow>
          if lo < 0xDC00 \<or> 0xDFFF < lo then fail ''unpaired surrogate'' r'
          else Inr (append_utf8 (0x10000 + push_bit 10 (cp - 0xD800) + (lo - 0xDC00)), r'))"
    if "0xD800 \<le> cp" "cp \<le> 0xDBFF" "take 2 r = [CHR 0x5C, CHR ''u'']"
  proof (rule yields_bind)
    have "r = take 2 r @ drop 2 r" by simp
    then have "reaches u r (drop 2 r)" by (rule reaches_ascii) (simp add: that(3) ascii_def)
    then show "yields u (\<lambda>lo. lo < 0x10000) r (hex4 (drop 2 r))" by (rule yields_later [OF hex4_yields])
  next
    fix lo r' assume r': "passes u r r'"
    from that surrogates [of cp lo] have "\<not> (lo < 0xDC00 \<or> 0xDFFF < lo) \<Longrightarrow>
        utf8 (append_utf8 (0x10000 + push_bit 10 (cp - 0xD800) + (lo - 0xDC00)))"
      by (intro utf8_append_utf8) (auto simp: not_less word_le_nat_alt word_less_nat_alt)
    with r' show "yields u (good u) r (if lo < 0xDC00 \<or> 0xDFFF < lo then fail ''unpaired surrogate'' r'
          else Inr (append_utf8 (0x10000 + push_bit 10 (cp - 0xD800) + (lo - 0xDC00)), r'))"
      by (auto simp: good_def passes_suffix)
  qed
  show "yields u (good u) rest
     (if 0xD800 \<le> cp \<and> cp \<le> 0xDBFF then
        (if take 2 r \<noteq> [CHR 0x5C, CHR ''u''] then fail ''unpaired surrogate'' r
         else case hex4 (drop 2 r) of Inl e \<Rightarrow> Inl e
           | Inr (lo, r') \<Rightarrow>
               if lo < 0xDC00 \<or> 0xDFFF < lo then fail ''unpaired surrogate'' r'
               else Inr (append_utf8 (0x10000 + push_bit 10 (cp - 0xD800) + (lo - 0xDC00)), r'))
      else if 0xDC00 \<le> cp \<and> cp \<le> 0xDFFF then fail ''unpaired surrogate'' r
      else Inr (append_utf8 cp, r))"
  proof (cases "0xD800 \<le> cp \<and> cp \<le> 0xDFFF")
    case True
    with r yields_later [OF pair passes_reaches [OF r]] show ?thesis
      by (auto simp: passes_suffix word_le_nat_alt)
  next
    case False
    then have "good u (append_utf8 cp)" if "good u rest"
      using cp [OF that] utf8_append_utf8 [of cp] by (auto simp: good_def word_less_nat_alt word_le_nat_alt)
    with False r show ?thesis by (auto simp: word_le_nat_alt)
  qed
qed
lemma json_escape_yields [yielding]: "yields u (good u) rest (json_escape rest)"
proof (cases rest)
  case (Cons e r)
  have one: "ascii e \<Longrightarrow> passes u rest r" using passes_tl [of rest u] Cons by simp
  show ?thesis
  proof (cases "e = CHR ''u''")
    case True
    then have "reaches u rest r" using one by (simp add: passes_reaches ascii_def)
    with True Cons show ?thesis
      using yields_later [OF unicode_escape_yields] by (simp add: json_escape_def)
  next
    case False
    show ?thesis
    proof (cases "map_of escape_table e")
      case None
      with False Cons show ?thesis by (simp add: json_escape_def suffix_Cons)
    next
      case (Some c)
      have "list_all (\<lambda>(e, c). ascii e \<and> ascii c) escape_table" by (simp add: escape_table_def ascii_def)
      with map_of_SomeD [OF Some] have "ascii e" "ascii c" by (auto simp: list_all_iff)
      with Some False Cons one show ?thesis by (simp add: json_escape_def good_def utf8_intros)
    qed
  qed
qed (simp add: json_escape_def)

lemma string_cases: "(P \<Longrightarrow> T) \<Longrightarrow> (\<not> P \<Longrightarrow> Q \<Longrightarrow> T) \<Longrightarrow> (\<not> P \<Longrightarrow> \<not> Q \<Longrightarrow> R \<Longrightarrow> T) \<Longrightarrow> (\<not> R \<Longrightarrow> T) \<Longrightarrow> T"
  by blast

lemma json_string_yields:
  "case json_string out rest of Inl (_, r) \<Rightarrow> suffix r rest
   | Inr (v, r) \<Rightarrow> suffix r rest \<and> length r < length rest \<and> (good u (out @ rest) \<longrightarrow> good u v \<and> good u r)"
proof (induction out rest rule: json_string.induct)
  case (2 out c rest)
  have split: "good u (out @ c # rest) \<Longrightarrow> ascii c \<Longrightarrow> good u out \<and> good u rest"
    unfolding good_def using utf8_split by blast
  consider "c = CHR 0x22" | "c \<noteq> CHR 0x22" "(of_char c :: nat) < 0x20"
    | "c \<noteq> CHR 0x22" "\<not> (of_char c :: nat) < 0x20" "c \<noteq> CHR 0x5C" | "\<not> c \<noteq> CHR 0x5C" by (rule string_cases)
  then show ?case
  proof cases
    case 1
    with split show ?thesis by (simp add: suffix_Cons ascii_def)
  next
    case 2
    then show ?thesis by (simp add: fail_def suffix_Cons)
  next
    case 3
    with "2.IH"(1) show ?thesis by (cases "json_string (out @ [c]) rest") (simp_all add: suffix_Cons case_prod_beta)
  next
    case 4
    show ?thesis
    proof (cases "json_escape rest")
      case (Inl e)
      with 4 json_escape_yields [of u rest] show ?thesis by (cases e) (simp add: suffix_Cons)
    next
      case (Inr ok)
      obtain cs r where ok: "ok = (cs, r)" by (cases ok)
      with Inr json_escape_yields [of u rest] have e: "passes u rest r" "good u rest \<Longrightarrow> good u cs" by auto
      have "good u (out @ c # rest) \<Longrightarrow> good u (out @ cs @ r)"
        using split e 4 by (auto simp: ascii_def passes_def reaches_def intro!: good_append)
      have inner: "case json_string out (c # rest) of Inl (_, r') \<Rightarrow> suffix r' r
          | Inr (v, r') \<Rightarrow> suffix r' r \<and> length r' < length r \<and> (good u (out @ c # rest) \<longrightarrow> good u v \<and> good u r')"
      proof -
        have step: "json_string out (c # rest) = json_string (out @ cs) r" using 4 Inr ok by simp
        have "case json_string (out @ cs) r of Inl (_, r') \<Rightarrow> suffix r' r
          | Inr (v, r') \<Rightarrow> suffix r' r \<and> length r' < length r \<and> (good u ((out @ cs) @ r) \<longrightarrow> good u v \<and> good u r')"
          by (rule "2.IH"(2)) (use 4 Inr ok in simp_all)
        then show ?thesis
          unfolding step using \<open>good u (out @ c # rest) \<Longrightarrow> good u (out @ cs @ r)\<close>
          by (cases "json_string (out @ cs) r") (simp_all add: case_prod_beta)
      qed
      have rest: "suffix r rest" "length r < length rest" using e(1) by (simp_all add: passes_def reaches_def)
      have "suffix x r \<Longrightarrow> suffix x (c # rest)" for x
        using rest(1) by (intro suffix_ConsI) (rule suffix_order.order_trans)
      with inner rest(2) show ?thesis
        by (cases "json_string out (c # rest)") auto
    qed
  qed
qed (simp add: fail_def)

lemma string_yields [yielding]:
  assumes "rest \<noteq> []" "hd rest = CHR 0x22"
  shows "yields u (good u) rest (json_string [] (tl rest))"
proof -
  have "yields u (good u) (tl rest) (json_string [] (tl rest))"
    using json_string_yields [where out = "[]" and rest = "tl rest" and u = u]
    by (auto simp: yields_def passes_def reaches_def split: sum.splits)
  moreover have "reaches u rest (tl rest)" using assms by (intro passes_reaches passes_tl) (simp_all add: ascii_def)
  ultimately show ?thesis by (rule yields_later)
qed

lemma digits_passes: "digits rest = Some r \<Longrightarrow> passes u rest r"
  unfolding digits_def Let_def passes_def
  by (auto split: if_splits intro: reaches_dropWhile is_digit_ascii)

lemma digits_fails: "digits rest = None \<Longrightarrow> rest \<noteq> [] \<Longrightarrow> \<not> is_digit 10 (hd rest)"
  by (cases rest) (auto simp: digits_def Let_def le_imp_less_Suc length_dropWhile_le split: if_splits)

lemma after_fraction_yields:
  assumes "passes u start r"
  shows "yields u (\<lambda>_. True) start (after_fraction start r)"
proof (cases "r \<noteq> [] \<and> (hd r = CHR ''e'' \<or> hd r = CHR ''E'')")
  case True
  have "reaches u r (tl r)" using True by (intro passes_reaches passes_tl) (auto simp: ascii_def)
  moreover have "reaches u (tl r) (skip_sign (tl r))"
    unfolding skip_sign_def by (auto intro!: passes_reaches passes_tl simp: ascii_def)
  ultimately have r': "passes u start (skip_sign (tl r))" using assms by (meson passes_reaches_trans)
  show ?thesis
  proof (cases "digits (skip_sign (tl r))")
    case None
    with True r' show ?thesis by (simp add: after_fraction_def passes_suffix)
  next
    case (Some r'')
    then have "passes u start r''" using r' digits_passes passes_reaches passes_reaches_trans by blast
    with True Some show ?thesis by (simp add: after_fraction_def)
  qed
next
  case False
  with assms show ?thesis by (auto simp: after_fraction_def)
qed

lemma number_text_yields [yielding]:
  assumes "start \<noteq> []"
  shows "yields u (\<lambda>_. True) start (number_text start)"
proof -
  define r where "r = (if hd start = CHR ''-'' then tl start else start)"
  have r: "reaches u start r"
    using assms unfolding r_def by (auto intro!: passes_reaches passes_tl simp: ascii_def)
  define whole where "whole = (if hd r = CHR ''0'' then Some (tl r) else digits r)"
  have eq: "number_text start =
      (if r = [] then fail ''invalid number'' r
       else case whole of None \<Rightarrow> fail ''invalid value'' r
         | Some r \<Rightarrow> if r \<noteq> [] \<and> hd r = CHR ''.'' then
              (case digits (tl r) of None \<Rightarrow> fail ''invalid number'' (tl r) | Some r' \<Rightarrow> after_fraction start r')
            else after_fraction start r)"
    unfolding number_text_def Let_def r_def whole_def whole_digits_def using assms by simp
  show ?thesis
  proof (cases "r = [] \<or> whole = None")
    case True
    with r show ?thesis by (auto simp: eq reaches_suffix)
  next
    case False
    then obtain r1 where r1: "whole = Some r1" by auto
    then have "passes u r r1"
      using False passes_tl [of r u] digits_passes [of r r1 u] unfolding whole_def
      by (auto simp: ascii_def split: if_splits)
    then have p1: "passes u start r1" using r by (rule reaches_passes_trans [rotated])
    show ?thesis
    proof (cases "r1 \<noteq> [] \<and> hd r1 = CHR ''.''")
      case True
      then have "passes u r1 (tl r1)" by (intro passes_tl) (simp_all add: ascii_def)
      then have p2: "passes u start (tl r1)" using p1 passes_reaches passes_reaches_trans by blast
      show ?thesis
      proof (cases "digits (tl r1)")
        case None
        with True False r1 p2 show ?thesis by (simp add: eq passes_suffix)
      next
        case (Some r2)
        then have "passes u start r2" using p2 digits_passes passes_reaches passes_reaches_trans by blast
        with Some True False r1 show ?thesis by (simp add: eq after_fraction_yields)
      qed
    next
      case no: False
      have "number_text start = after_fraction start r1" using no False r1 by (auto simp: eq)
      with p1 show ?thesis by (simp add: after_fraction_yields)
    qed
  qed
qed

section \<open>Well-formed values\<close>

text \<open>Numbers in the range of doubles, strings (with the flag) in UTF-8, and nested at most \<open>d\<close> deep.\<close>

fun well_formed :: "bool \<Rightarrow> int \<Rightarrow> Value \<Rightarrow> bool" where
  "well_formed u d (VNumber (Finite q)) = (\<bar>q\<bar> < 2 ^ 1024)"
| "well_formed u d (VString s) = good u s"
| "well_formed u d (VArray vs) = (0 < d \<and> (\<forall>v\<in>set vs. well_formed u (d - 1) v))"
| "well_formed u d (VObject kvs) = (0 < d \<and> (\<forall>kv\<in>set kvs. good u (fst kv) \<and> well_formed u (d - 1) (snd kv)))"
| "well_formed u d _ = True"

lemma well_formed_round: "well_formed u d (VNumber (round_double q))"
  unfolding round_double_def Let_def by (simp del: power_numeral)

lemma number_yields [yielding]: "rest \<noteq> [] \<Longrightarrow> yields u (well_formed u d) rest (number rest)"
  unfolding number_def
proof (rule yields_bind [OF number_text_yields])
  fix s r assume "passes u rest r"
  then show "yields u (well_formed u d) rest (Inr (VNumber (strtod s), r))"
    unfolding strtod_def Let_def by (simp add: well_formed_round)
qed

section \<open>Values\<close>

definition returns :: "bool \<Rightarrow> ('a \<Rightarrow> bool) \<Rightarrow> string \<Rightarrow> 'a parsed option \<Rightarrow> bool" where
  "returns u P rest p \<longleftrightarrow> (case p of None \<Rightarrow> False | Some q \<Rightarrow> yields u P rest q)"

lemma returns_Some [simp]: "returns u P rest (Some q) \<longleftrightarrow> yields u P rest q"
  by (simp add: returns_def)

lemma returns_mono: "returns u P rest p \<Longrightarrow> (\<And>v. good u rest \<Longrightarrow> P v \<Longrightarrow> Q v) \<Longrightarrow> returns u Q rest p"
  by (auto simp: returns_def elim: yields_mono split: option.splits)

lemma returns_later: "returns u P r p \<Longrightarrow> reaches u rest r \<Longrightarrow> returns u P rest p"
  by (auto simp: returns_def elim: yields_later split: option.splits)

lemma returns_passed:
  "(\<And>r. length r < length rest \<Longrightarrow> returns u P r (f r)) \<Longrightarrow> passes u rest r \<Longrightarrow> returns u P rest (f r)"
  by (metis passes_def returns_later)

lemma returns_bind:
  assumes "returns u P rest p"
    "\<And>v r. p = Some (Inr (v, r)) \<Longrightarrow> passes u rest r \<Longrightarrow> (good u rest \<Longrightarrow> P v) \<Longrightarrow> returns u Q rest (f v r)"
  shows "returns u Q rest (case p of None \<Rightarrow> None | Some (Inl e) \<Rightarrow> Some (Inl e) | Some (Inr (v, r)) \<Rightarrow> f v r)"
proof -
  obtain q where q: "p = Some q" "yields u P rest q" using assms(1) by (auto simp: returns_def split: option.splits)
  show ?thesis
  proof (cases q)
    case (Inl e)
    with q show ?thesis by (cases e) simp
  next
    case (Inr ok)
    with q assms(2) show ?thesis by (cases ok) simp
  qed
qed

lemma returns_bind_parsed:
  assumes "yields u P rest p"
    "\<And>v r. p = Inr (v, r) \<Longrightarrow> passes u rest r \<Longrightarrow> (good u rest \<Longrightarrow> P v) \<Longrightarrow> returns u Q rest (f v r)"
  shows "returns u Q rest (case p of Inl e \<Rightarrow> Some (Inl e) | Inr (v, r) \<Rightarrow> f v r)"
proof (cases p)
  case (Inl e)
  with assms(1) show ?thesis by (cases e) simp
next
  case (Inr ok)
  with assms show ?thesis by (cases ok) simp
qed

lemma reaches_passes_skip: "passes u rest r \<Longrightarrow> passes u rest (skip_ws r)"
  using passes_reaches_trans reaches_skip_ws by blast

lemma passes_tl_skip:
  "passes u rest r \<Longrightarrow> skip_ws r \<noteq> [] \<Longrightarrow> ascii (hd (skip_ws r)) \<Longrightarrow> passes u rest (tl (skip_ws r))"
  using passes_reaches_trans passes_reaches passes_skip_tl by blast

lemma open_bracket_returns:
  assumes "rest \<noteq> []" "ascii (hd rest)" "ascii close" "\<not> too_deep \<Longrightarrow> P nothing"
    "\<And>r. \<not> too_deep \<Longrightarrow> length r < length rest \<Longrightarrow> returns u P r (loop r)"
  shows "returns u P rest (open_bracket close nothing loop too_deep rest)"
proof (cases too_deep)
  case False
  have one: "passes u rest (tl rest)" using assms(1,2) by (rule passes_tl)
  then have r: "passes u rest (skip_ws (tl rest))" by (rule reaches_passes_skip)
  with assms(5) False have "returns u P rest (loop (skip_ws (tl rest)))" by (simp add: returns_passed)
  with False assms(3,4) passes_tl_skip [OF one] show ?thesis
    by (auto simp: open_bracket_def Let_def)
qed (simp add: open_bracket_def)

text \<open>What a loop yields, as far as the members it starts with allow it.\<close>

definition pending :: "(string \<times> Value \<Rightarrow> bool) \<Rightarrow> (Value \<Rightarrow> bool) \<Rightarrow> (string \<times> Value) list \<Rightarrow> Value \<Rightarrow> bool" where
  "pending ok P kvs v \<longleftrightarrow> ((\<forall>kv\<in>set kvs. ok kv) \<longrightarrow> P v)"

lemma members_step_returns:
  fixes u ok P
  defines "Q \<equiv> pending (\<lambda>kv. good u (fst kv) \<and> ok (snd kv)) P"
  assumes val: "\<And>r. length r < length rest \<Longrightarrow> returns u ok r (val r)"
    and loop: "\<And>kvs r. length r < length rest \<Longrightarrow> returns u (Q kvs) r (loop kvs r)"
    and P: "\<And>kvs. Q kvs (VObject kvs)"
  shows "returns u (Q kvs) rest (members_step val loop kvs rest)"
proof -
  let ?r = "skip_ws rest"
  have r: "reaches u rest ?r" by (rule reaches_skip_ws)
  show ?thesis
  proof (cases "?r = [] \<or> hd ?r \<noteq> CHR 0x22")
    case True
    with r show ?thesis by (simp add: members_step_def Let_def reaches_suffix)
  next
    case False
    have "yields u (good u) rest (json_string [] (tl ?r))"
      using False r string_yields yields_later by blast
    then show ?thesis
      unfolding members_step_def Let_def using False
    proof (simp only: if_False, rule_tac returns_bind_parsed)
      fix k r1 assume p1: "passes u rest r1" and k: "good u rest \<Longrightarrow> good u k"
      note p2 = reaches_passes_skip [OF p1]
      show "returns u (Q kvs) rest
          (if skip_ws r1 = [] \<or> hd (skip_ws r1) \<noteq> CHR '':'' then Some (fail (''expected '' @ quote_char (CHR '':'')) (skip_ws r1))
           else case val (skip_ws (tl (skip_ws r1))) of None \<Rightarrow> None | Some (Inl e) \<Rightarrow> Some (Inl e)
             | Some (Inr (v, r)) \<Rightarrow>
                 if skip_ws r = [] then Some (fail ''unterminated object'' (skip_ws r))
                 else if hd (skip_ws r) = CHR '','' then loop (kvs @ [(k, v)]) (tl (skip_ws r))
                 else if hd (skip_ws r) = CHR ''}'' then Some (Inr (VObject (kvs @ [(k, v)]), tl (skip_ws r)))
                 else Some (fail (expected_or (CHR ''}'')) (skip_ws r)))"
      proof (cases "skip_ws r1 = [] \<or> hd (skip_ws r1) \<noteq> CHR '':''")
        case True
        with p2 show ?thesis by (simp add: passes_suffix)
      next
        case colon: False
        then have "passes u rest (tl (skip_ws r1))" using p1 by (intro passes_tl_skip) (simp_all add: ascii_def)
        then have p3: "passes u rest (skip_ws (tl (skip_ws r1)))" by (rule reaches_passes_skip)
        then have v: "returns u ok rest (val (skip_ws (tl (skip_ws r1))))"
          by (rule returns_passed [rotated]) (rule val)
        show ?thesis
          using colon
        proof (simp only: if_False, rule_tac returns_bind [OF v])
          fix v r4 assume p4: "passes u rest r4" and v: "good u rest \<Longrightarrow> ok v"
          have grow: "good u rest \<Longrightarrow> Q (kvs @ [(k, v)]) w \<Longrightarrow> Q kvs w" for w
            using k v by (simp add: Q_def pending_def)
          have "returns u (Q kvs) rest (loop (kvs @ [(k, v)]) (tl (skip_ws r4)))"
            if "skip_ws r4 \<noteq> []" "hd (skip_ws r4) = CHR '',''"
          proof -
            have "passes u rest (tl (skip_ws r4))" using p4 that by (intro passes_tl_skip) (simp_all add: ascii_def)
            then have "returns u (Q (kvs @ [(k, v)])) rest (loop (kvs @ [(k, v)]) (tl (skip_ws r4)))"
              by (rule returns_passed [rotated]) (rule loop)
            then show ?thesis by (rule returns_mono) (rule grow)
          qed
          moreover have "Q kvs (VObject (kvs @ [(k, v)]))" if "good u rest" using that P by (rule grow)
          ultimately show "returns u (Q kvs) rest
             (if skip_ws r4 = [] then Some (fail ''unterminated object'' (skip_ws r4))
              else if hd (skip_ws r4) = CHR '','' then loop (kvs @ [(k, v)]) (tl (skip_ws r4))
              else if hd (skip_ws r4) = CHR ''}'' then Some (Inr (VObject (kvs @ [(k, v)]), tl (skip_ws r4)))
              else Some (fail (expected_or (CHR ''}'')) (skip_ws r4)))"
            using passes_suffix [OF reaches_passes_skip [OF p4]] passes_tl_skip [OF p4]
            by (auto simp: ascii_def)
        qed
      qed
    qed
  qed
qed

lemma items_step_returns:
  fixes u ok P
  defines "Q vs \<equiv> pending (\<lambda>kv. ok (snd kv)) P (map (Pair []) vs)"
  assumes val: "\<And>r. length r \<le> length rest \<Longrightarrow> returns u ok r (val r)"
    and loop: "\<And>vs r. length r < length rest \<Longrightarrow> returns u (Q vs) r (loop vs r)"
    and P: "\<And>vs. Q vs (VArray vs)"
  shows "returns u (Q vs) rest (items_step val loop vs rest)"
proof -
  have v: "returns u ok rest (val (skip_ws rest))"
    using val reaches_skip_ws reaches_length by (blast intro: returns_later)
  show ?thesis
    unfolding items_step_def Let_def
  proof (rule returns_bind [OF v])
    fix v r assume p: "passes u rest r" and v: "good u rest \<Longrightarrow> ok v"
    have grow: "good u rest \<Longrightarrow> Q (vs @ [v]) w \<Longrightarrow> Q vs w" for w
      using v by (simp add: Q_def pending_def)
    have "returns u (Q vs) rest (loop (vs @ [v]) (tl (skip_ws r)))"
      if "skip_ws r \<noteq> []" "hd (skip_ws r) = CHR '',''"
    proof -
      have "passes u rest (tl (skip_ws r))" using p that by (intro passes_tl_skip) (simp_all add: ascii_def)
      then have "returns u (Q (vs @ [v])) rest (loop (vs @ [v]) (tl (skip_ws r)))" by (rule returns_passed [rotated]) (rule loop)
      then show ?thesis by (rule returns_mono) (rule grow)
    qed
    moreover have "Q vs (VArray (vs @ [v]))" if "good u rest" using that P by (rule grow)
    ultimately show "returns u (Q vs) rest
       (if skip_ws r = [] then Some (fail ''unterminated array'' (skip_ws r))
        else if hd (skip_ws r) = CHR '','' then loop (vs @ [v]) (tl (skip_ws r))
        else if hd (skip_ws r) = CHR '']'' then Some (Inr (VArray (vs @ [v]), tl (skip_ws r)))
        else Some (fail (expected_or (CHR '']'')) (skip_ws r)))"
      using passes_suffix [OF reaches_passes_skip [OF p]] passes_tl_skip [OF p]
      by (auto simp: ascii_def)
  qed
qed

text \<open>The fuel that \<open>parse\<close> supplies is enough, and what is parsed is well formed.\<close>

lemma json_value_returns:
  "2 * length rest + 1 \<le> n \<Longrightarrow> returns u (well_formed u (m - d)) rest (json_value n m d rest)"
  "2 * length rest + 2 \<le> n \<Longrightarrow> d \<le> m \<Longrightarrow>
     returns u (pending (\<lambda>kv. good u (fst kv) \<and> well_formed u (m - d) (snd kv)) (well_formed u (m - d + 1)) kvs)
       rest (json_members n m d kvs rest)"
  "2 * length rest + 2 \<le> n \<Longrightarrow> d \<le> m \<Longrightarrow>
     returns u (pending (\<lambda>kv. well_formed u (m - d) (snd kv)) (well_formed u (m - d + 1)) (map (Pair []) vs))
       rest (json_items n m d vs rest)"
proof (induction n arbitrary: rest d kvs vs)
  case (Suc n)
  {
    case 1
    show ?case
    proof (cases "rest = []")
      case False
      let ?P = "well_formed u (m - d)"
      have bracket: "returns u ?P rest (open_bracket close nothing loop (m < d + 1) rest)"
        if "hd rest \<in> {CHR ''{'', CHR ''[''}" "ascii close" "0 < m - d \<Longrightarrow> ?P nothing"
          "\<And>r. d + 1 \<le> m \<Longrightarrow> 2 * length r + 2 \<le> n \<Longrightarrow> returns u ?P r (loop r)" for close nothing loop
        using False that 1 by (intro open_bracket_returns) (auto simp: ascii_def)
      have "returns u ?P rest (open_bracket (CHR ''}'') (VObject []) (json_members n m (d + 1) []) (m < d + 1) rest)"
        if "hd rest = CHR ''{''"
        using that Suc(2) [of _ "d + 1" "[]"] by (intro bracket) (auto simp: ascii_def pending_def algebra_simps)
      moreover have "returns u ?P rest (open_bracket (CHR '']'') (VArray []) (json_items n m (d + 1) []) (m < d + 1) rest)"
        if "hd rest = CHR ''[''"
        using that Suc(3) [of _ "d + 1" "[]"] by (intro bracket) (auto simp: ascii_def pending_def algebra_simps)
      moreover have "yields u ?P rest (case json_string [] (tl rest) of Inl e \<Rightarrow> Inl e | Inr (s, r) \<Rightarrow> Inr (VString s, r))"
        if "hd rest = CHR 0x22"
        by (rule yields_bind [OF string_yields]) (use that False in auto)
      ultimately show ?thesis
        using False by (simp add: value_step_def yielding ascii_def)
    qed (simp add: value_step_def)
  next
    case 2
    then show ?case
      unfolding json_members.simps by (intro members_step_returns Suc(1,2)) (auto simp: pending_def)
  next
    case 3
    then show ?case
      unfolding json_items.simps by (intro items_step_returns Suc(1,3)) (auto simp: pending_def)
  }
qed simp_all

lemma document_returns:
  obtains (error) what r where "parse s m = Some (Inl (what @ at_offset s r))" "suffix r s"
  | (accepted) v where "parse s m = Some (Inr v)" "\<And>u. good u s \<Longrightarrow> well_formed u m v"
proof -
  have "2 * length (skip_ws s) + 1 \<le> 2 * length s + 2"
    using reaches_length [OF reaches_skip_ws, of s] by simp
  then have r: "returns u (well_formed u m) s (json_value (2 * length s + 2) m 0 (skip_ws s))" for u
    using json_value_returns(1) [of "skip_ws s" "2 * length s + 2" u m 0] reaches_skip_ws returns_later by fastforce
  then obtain p where p: "json_value (2 * length s + 2) m 0 (skip_ws s) = Some p" "\<And>u. yields u (well_formed u m) s p"
    by (cases "json_value (2 * length s + 2) m 0 (skip_ws s)") (auto simp: returns_def)
  show ?thesis
  proof (cases p)
    case (Inl e)
    obtain what r where e: "e = (what, r)" by (cases e)
    show ?thesis
      by (rule error [of what r]) (use Inl p e in \<open>auto simp: parse_def document_def\<close>)
  next
    case (Inr vr)
    obtain v r where vr: "vr = (v, r)" by (cases vr)
    with Inr p have v: "passes u s r" "good u s \<Longrightarrow> well_formed u m v" for u by auto
    have "suffix (skip_ws r) s" using v(1) reaches_passes_skip passes_suffix by blast
    show ?thesis
    proof (cases "skip_ws r = []")
      case True
      show ?thesis by (rule accepted [of v]) (use True Inr vr p v in \<open>auto simp: parse_def document_def\<close>)
    next
      case False
      show ?thesis
        by (rule error [of "''trailing characters''" "skip_ws r"])
          (use False Inr vr p \<open>suffix (skip_ws r) s\<close> in \<open>auto simp: parse_def document_def Let_def\<close>)
    qed
  qed
qed

text \<open>The JSON parser returns on every text, whatever the nesting limit, and an error message ends with the offset of a
  position in the text.\<close>

theorem json_parse_returns:
  "\<exists>result. parse s max_depth = Some result \<and>
     (case result of Inl e \<Rightarrow> \<exists>what k. k \<le> length s \<and> e = what @ '' at offset '' @ dec_digits k | Inr v \<Rightarrow> True)"
proof (cases rule: document_returns [of s max_depth])
  case (error what r)
  then have "\<exists>what' k. k \<le> length s \<and> what @ at_offset s r = what' @ '' at offset '' @ dec_digits k"
    unfolding at_offset_def by (intro exI [of _ what] exI [of _ "length s - length r"]) simp
  with error(1) show ?thesis by simp
qed simp



end
