(* ===== verification/Json_Roundtrip.thy ===== *)
theory Json_Roundtrip
  imports Json_Properties
begin

text \<open>
  The JSON writer and the JSON parser fit together: every tree is read back from its rendering, and so is the statistics
  message of the receiver, with its counters exact up to 2 ^ 53.
\<close>

section \<open>Strings\<close>

lemma digit_value_hex: "n < 16 \<Longrightarrow> digit_value (hex_digit n) = Some n"
  by (auto simp: digit_value_def hex_digit_def less_eq_char_def)

lemma control_char_roundtrip:
  assumes "(of_char c :: nat) < 0x20"
  shows "json_escape ([CHR ''u'', CHR ''0'', CHR ''0'', hex_digit (of_char c div 16), hex_digit (of_char c mod 16)] @ r) =
    Inr ([c], r)"
proof -
  let ?n = "of_char c :: nat" and ?ds = "[CHR ''0'', CHR ''0'', hex_digit (of_char c div 16), hex_digit (of_char c mod 16)]"
  have hi: "?n div 16 < 16" using assms by linarith
  have dv: "digit_value (CHR ''0'') = Some 0" by (simp add: digit_value_def less_eq_char_def)
  have ds: "\<forall>d\<in>set ?ds. is_digit 16 d" by (simp add: is_digit_def dv digit_value_hex hi)
  define cp :: u32 where "cp = foldl (\<lambda>out c. push_bit 4 out OR of_nat (the (digit_value c))) 0 ?ds"
  have "unat cp = digits_value 16 ?ds" unfolding cp_def by (rule hex_value [OF ds]) simp
  then have "unat cp = ?n" by (simp add: digits_value_def dv digit_value_hex hi)
  then have cp: "cp < 0x80" "put_byte cp = c" using assms
    by (simp_all add: word_less_nat_alt put_byte_def unsigned_ucast_eq take_bit_eq_mod)
  have "hex4 (?ds @ r) = Inr (cp, r)" using ds by (simp add: hex4_def cp_def)
  then have "unicode_escape (?ds @ r) = Inr (append_utf8 cp, r)"
    using cp(1) unfolding unicode_escape_def by (simp add: word_le_nat_alt word_less_nat_alt)
  moreover have "append_utf8 cp = [c]" using cp by (simp add: append_utf8_def)
  ultimately show ?thesis by (simp add: json_escape_def)
qed

lemma json_string_escape_char: "json_string out (escape_char c @ r) = json_string (out @ [c]) r"
proof (cases "c \<in> {CHR 0x22, CHR 0x5C, CHR 0x0A, CHR 0x0D, CHR 0x09}")
  case True
  then show ?thesis by (auto simp: escape_char_def json_escape_def escape_table_def)
next
  case False
  show ?thesis
  proof (cases "(of_char c :: nat) < 0x20")
    case True
    then show ?thesis using False control_char_roundtrip [of c r] by (simp add: escape_char_def)
  next
    case plain: False
    then show ?thesis using False by (simp add: escape_char_def)
  qed
qed

lemma json_string_escape: "json_string out (concat (map escape_char s) @ CHR 0x22 # r) = Inr (out @ s, r)"
proof (induction s arbitrary: out)
  case (Cons c s)
  then show ?case using json_string_escape_char [of out c] by simp
qed simp

lemma escape_roundtrip: "json_string [] (tl (escape s @ r)) = Inr (s, r)"
  using json_string_escape [of "[]"] by (simp add: escape_def)

section \<open>Numbers\<close>

text \<open>What can follow a number in a document.\<close>

definition stops :: "string \<Rightarrow> bool" where
  "stops r \<longleftrightarrow> r = [] \<or> hd r \<in> {CHR '','', CHR ''}'', CHR '']''}"

definition is_number :: "string \<Rightarrow> bool" where
  "is_number s \<longleftrightarrow> number_text s = Inr (s, [])"

lemma stops_digit: "stops r \<Longrightarrow> r \<noteq> [] \<Longrightarrow> \<not> is_digit 10 (hd r)"
  by (auto simp: stops_def is_digit_def digit_value_def less_eq_char_def)

lemma digits_append: "stops t \<Longrightarrow> digits s = Some r \<Longrightarrow> digits (s @ t) = Some (r @ t)"
  using stops_digit [of t] unfolding digits_def Let_def
  by (cases t) (auto simp: dropWhile_append3 split: if_splits)

lemma after_fraction_append:
  assumes "stops t" "after_fraction s r = Inr (s, [])" "length r \<le> length s"
  shows "after_fraction (s @ t) (r @ t) = Inr (s, t)"
proof (cases "r \<noteq> [] \<and> (hd r = CHR ''e'' \<or> hd r = CHR ''E'')")
  case True
  then obtain r' where r': "digits (skip_sign (tl r)) = Some r'" "r' = []" "length r' \<le> length s"
    using assms(2) by (auto simp: after_fraction_def fail_def split: option.splits)
  have "tl r \<noteq> []" using r'(1) by (auto simp: digits_def skip_sign_def)
  then have "skip_sign (tl r @ t) = skip_sign (tl r) @ t" by (simp add: skip_sign_def)
  with r' True digits_append [OF assms(1) r'(1)] show ?thesis by (simp add: after_fraction_def)
next
  case False
  then have "after_fraction s r = Inr (take (length s - length r) s, r)"
    unfolding after_fraction_def by (rule if_not_P)
  then have "r = []" using assms(2) by simp
  moreover have "\<not> (t \<noteq> [] \<and> (hd t = CHR ''e'' \<or> hd t = CHR ''E''))" using assms(1) by (auto simp: stops_def)
  then have "after_fraction (s @ t) t = Inr (take (length (s @ t) - length t) (s @ t), t)"
    unfolding after_fraction_def by (rule if_not_P)
  ultimately show ?thesis by simp
qed

lemma number_text_append:
  assumes "is_number s" "stops t"
  shows "number_text (s @ t) = Inr (s, t)"
proof -
  have s: "number_text s = Inr (s, [])" using assms(1) by (simp add: is_number_def)
  then have "s \<noteq> []" by (auto simp: number_text_def fail_def)
  define r where "r = (if hd s = CHR ''-'' then tl s else s)"
  define start where "start = whole_digits"
  define rest where "rest w w' = (if w' \<noteq> [] \<and> hd w' = CHR ''.'' then
       (case digits (tl w') of None \<Rightarrow> fail ''invalid number'' (tl w') | Some r' \<Rightarrow> after_fraction w r')
     else after_fraction w w')" for w w'
  have eq: "number_text w = (let w' = if hd w = CHR ''-'' then tl w else w
      in if w' = [] then fail ''invalid number'' w'
         else case start w' of None \<Rightarrow> fail ''invalid value'' w' | Some r \<Rightarrow> rest w r)" if "w \<noteq> []" for w
    using that unfolding number_text_def start_def rest_def by simp
  have "r \<noteq> []" using s \<open>s \<noteq> []\<close> by (auto simp: eq Let_def r_def fail_def)
  then obtain r1 where r1: "start r = Some r1" "rest s r1 = Inr (s, [])"
    using s \<open>s \<noteq> []\<close> by (auto simp: eq Let_def fail_def simp flip: r_def split: option.splits)
  have "start (r @ t) = Some (r1 @ t)"
    using r1(1) \<open>r \<noteq> []\<close> digits_append [OF assms(2)] by (auto simp: start_def whole_digits_def split: if_splits)
  have len: "length r1 \<le> length s"
    using r1(1) unfolding start_def r_def by (auto simp: whole_digits_def digits_def Let_def split: if_splits)
  have rest: "rest (s @ t) (r1 @ t) = Inr (s, t)"
  proof (cases "r1 \<noteq> [] \<and> hd r1 = CHR ''.''")
    case True
    then obtain r2 where r2: "digits (tl r1) = Some r2" "after_fraction s r2 = Inr (s, [])"
      using r1(2) by (auto simp: rest_def fail_def split: option.splits)
    then have "length r2 \<le> length s" using len by (auto simp: digits_def Let_def split: if_splits)
    with True r2 digits_append [OF assms(2) r2(1)] show ?thesis
      by (simp add: rest_def after_fraction_append assms(2))
  next
    case False
    then have "after_fraction s r1 = Inr (s, [])" using r1(2) by (auto simp: rest_def)
    moreover have "\<not> (r1 @ t \<noteq> [] \<and> hd (r1 @ t) = CHR ''.'')"
      using False assms(2) by (cases r1) (auto simp: stops_def)
    ultimately show ?thesis using len by (auto simp: rest_def after_fraction_append assms(2))
  qed
  have "(if hd (s @ t) = CHR ''-'' then tl (s @ t) else s @ t) = r @ t" using \<open>s \<noteq> []\<close> by (simp add: r_def)
  then show ?thesis
    using \<open>s \<noteq> []\<close> \<open>r \<noteq> []\<close> \<open>start (r @ t) = Some (r1 @ t)\<close> rest by (simp add: eq Let_def)
qed

lemma number_start:
  assumes "is_number s"
  shows "s \<noteq> [] \<and> (hd s = CHR ''-'' \<or> is_digit 10 (hd s))"
proof -
  have s: "number_text s = Inr (s, [])" using assms by (simp add: is_number_def)
  then have "s \<noteq> []" by (auto simp: number_text_def fail_def)
  moreover have "is_digit 10 (hd s)" if "hd s \<noteq> CHR ''-''"
  proof (rule ccontr)
    assume "\<not> ?thesis"
    then have "digits s = None" "hd s \<noteq> CHR ''0''"
      using \<open>s \<noteq> []\<close> by (cases s; auto simp: digits_def is_digit_def digit_value_def less_eq_char_def)+
    with s \<open>s \<noteq> []\<close> that show False by (simp add: number_text_def whole_digits_def fail_def)
  qed
  ultimately show ?thesis by blast
qed

section \<open>Trees\<close>

fun value_of :: "Jval \<Rightarrow> Value" where
  "value_of JNull = VNull"
| "value_of (JBool b) = VBool b"
| "value_of (JNumber n) = VNumber (strtod n)"
| "value_of (JString s) = VString s"
| "value_of (JArray vs) = VArray (map value_of vs)"
| "value_of (JObject kvs) = VObject (map (\<lambda>kv. (fst kv, value_of (snd kv))) kvs)"

text \<open>Trees whose numbers are texts of JSON numbers, nested at most \<open>d\<close> deep.\<close>

fun renderable :: "int \<Rightarrow> Jval \<Rightarrow> bool" where
  "renderable d (JNumber n) = is_number n"
| "renderable d (JArray vs) = (0 < d \<and> (\<forall>v\<in>set vs. renderable (d - 1) v))"
| "renderable d (JObject kvs) = (0 < d \<and> (\<forall>kv\<in>set kvs. renderable (d - 1) (snd kv)))"
| "renderable d _ = True"

definition starts_value :: "string \<Rightarrow> bool" where
  "starts_value s \<longleftrightarrow> s \<noteq> [] \<and> \<not> is_ws (hd s) \<and> hd s \<noteq> CHR '']''"

lemma render_starts: "renderable d v \<Longrightarrow> starts_value (render v @ r)"
proof (cases v)
  case (JNumber n)
  moreover assume "renderable d v"
  ultimately have "n \<noteq> []" "hd n = CHR ''-'' \<or> is_digit 10 (hd n)" using number_start [of n] by auto
  then show ?thesis using JNumber
    by (auto simp: starts_value_def is_ws_def is_digit_def digit_value_def less_eq_char_def)
next
  case (JArray vs)
  then show ?thesis by (cases vs) (simp_all add: starts_value_def is_ws_def)
next
  case (JObject kvs)
  then show ?thesis by (cases "(JObject kvs)" rule: render.cases) (auto simp: starts_value_def is_ws_def)
qed (simp_all add: starts_value_def is_ws_def escape_def)

lemma skip_ws_starts: "starts_value s \<Longrightarrow> skip_ws s = s"
  by (cases s) (simp_all add: skip_ws_def starts_value_def)

lemma skip_ws_hd [simp]: "skip_ws [] = []" "skip_ws (CHR '','' # s) = CHR '','' # s" "skip_ws (CHR ''}'' # s) = CHR ''}'' # s"
  "skip_ws (CHR '']'' # s) = CHR '']'' # s" "skip_ws (CHR '':'' # s) = CHR '':'' # s" "skip_ws (CHR 0x22 # s) = CHR 0x22 # s"
  by (simp_all add: skip_ws_def is_ws_def)

lemma stops_Cons [simp]: "stops []" "stops (CHR '','' # s)" "stops (CHR ''}'' # s)" "stops (CHR '']'' # s)"
  by (simp_all add: stops_def)

lemma number_dispatch:
  assumes "is_number s" "stops t"
  shows "value_step members items deep (s @ t) = Some (Inr (VNumber (strtod s), t))"
proof -
  have s: "s \<noteq> []" "hd s = CHR ''-'' \<or> is_digit 10 (hd s)" using number_start [OF assms(1)] by auto
  then have "hd s \<notin> {CHR ''{'', CHR ''['', CHR 0x22, CHR ''t'', CHR ''f'', CHR ''n''}"
    by (auto simp: is_digit_def digit_value_def less_eq_char_def)
  then have "value_step members items deep (s @ t) = Some (number (s @ t))"
    using s(1) by (simp add: value_step_def)
  then show ?thesis by (simp add: number_def number_text_append [OF assms])
qed

lemma length_escape: "length (escape s) = Suc (Suc (length (concat (map escape_char s))))"
  by (simp add: escape_def)

lemma escape_Cons: "escape s @ r = CHR 0x22 # tl (escape s @ r)"
  by (simp add: escape_def)

lemma render_nonempty: "renderable d v \<Longrightarrow> 0 < length (render v)"
  using render_starts [of d v "[]"] by (simp add: starts_value_def)

text \<open>The text of the members or elements that are left, up to the closing bracket.\<close>

definition left_members :: "(string \<times> Jval) list \<Rightarrow> string" where
  "left_members kvs = render_members kvs @ ''}''"

definition left_items :: "Jval list \<Rightarrow> string" where
  "left_items vs = render_items vs @ '']''"

lemma left_members_simps:
  "left_members [] = ''}''" "left_members ((k, v) # kvs) = CHR '','' # escape k @ CHR '':'' # render v @ left_members kvs"
  "left_items [] = '']''" "left_items (v # vs) = CHR '','' # render v @ left_items vs"
  by (simp_all add: left_members_def left_items_def)

lemma stops_left: "stops (left_members kvs @ r)" "stops (left_items vs @ r)"
  by (cases kvs; auto simp: left_members_simps split: prod.splits) (cases vs; simp add: left_members_simps)

lemma render_brackets:
  "render (JObject ((k, v) # kvs)) = CHR ''{'' # escape k @ CHR '':'' # render v @ left_members kvs"
  "render (JArray (v # vs)) = CHR ''['' # render v @ left_items vs"
  by (simp_all add: left_members_def left_items_def)

lemma json_value_render:
  "renderable (m - d) v \<Longrightarrow> stops r \<Longrightarrow> 2 * length (render v) + 1 \<le> n \<Longrightarrow>
     json_value n m d (render v @ r) = Some (Inr (value_of v, r))"
  "renderable (m - d) v \<Longrightarrow> \<forall>kv\<in>set kvs. renderable (m - d) (snd kv) \<Longrightarrow>
     2 * length (escape k @ CHR '':'' # render v @ left_members kvs) + 2 \<le> n \<Longrightarrow>
     json_members n m d done (escape k @ CHR '':'' # render v @ left_members kvs @ r) =
     Some (Inr (VObject (done @ map (\<lambda>kv. (fst kv, value_of (snd kv))) ((k, v) # kvs)), r))"
  "renderable (m - d) v \<Longrightarrow> \<forall>v\<in>set vs. renderable (m - d) v \<Longrightarrow>
     2 * length (render v @ left_items vs) + 2 \<le> n \<Longrightarrow>
     json_items n m d read (render v @ left_items vs @ r) = Some (Inr (VArray (read @ map value_of (v # vs)), r))"
proof (induction n arbitrary: d v r k kvs vs "done" read)
  case (Suc n)
  {
    case 1
    show ?case
    proof (cases v)
      case (JNumber t)
      with 1 show ?thesis by (simp add: number_dispatch)
    next
      case (JString s)
      then show ?thesis by (simp add: value_step_def escape_def json_string_escape)
    next
      case (JArray vs)
      show ?thesis
      proof (cases vs)
        case Nil
        with JArray 1 show ?thesis by (simp add: value_step_def open_bracket_def Let_def)
      next
        case (Cons w ws)
        have deep: "\<not> m < d + 1" "renderable (m - (d + 1)) w" "\<forall>v\<in>set ws. renderable (m - (d + 1)) v"
          using 1(1) JArray Cons by (simp_all add: algebra_simps)
        then have "json_items n m (d + 1) [] (render w @ left_items ws @ r) = Some (Inr (VArray (map value_of vs), r))"
          using 1(3) JArray Cons Suc(3) [of "d + 1" w ws "[]" r] by (simp add: render_brackets del: render.simps)
        moreover have "skip_ws (render w @ left_items ws @ r) = render w @ left_items ws @ r"
          "hd (render w @ left_items ws @ r) \<noteq> CHR '']''"
          using render_starts [OF deep(2)] skip_ws_starts by (auto simp: starts_value_def)
        ultimately show ?thesis
          using deep JArray Cons
          by (simp add: render_brackets value_step_def open_bracket_def Let_def del: render.simps)
      qed
    next
      case (JObject kvs)
      show ?thesis
      proof (cases kvs)
        case Nil
        with JObject 1 show ?thesis by (simp add: value_step_def open_bracket_def Let_def)
      next
        case (Cons kv ws)
        obtain k w where kv: "kv = (k, w)" by (cases kv)
        have deep: "\<not> m < d + 1" "renderable (m - (d + 1)) w" "\<forall>kv\<in>set ws. renderable (m - (d + 1)) (snd kv)"
          using 1(1) JObject Cons kv by (simp_all add: algebra_simps)
        then have "json_members n m (d + 1) [] (escape k @ CHR '':'' # render w @ left_members ws @ r) =
            Some (Inr (value_of v, r))"
          using 1(3) JObject Cons kv Suc(2) [of "d + 1" w ws k "[]" r] by (simp add: render_brackets del: render.simps)
        moreover have "skip_ws (escape k @ x) = escape k @ x" "hd (escape k @ x) = CHR 0x22" "escape k @ x \<noteq> []" for x
          by (simp_all add: escape_def)
        ultimately show ?thesis
          using deep JObject Cons kv
          by (simp add: render_brackets value_step_def open_bracket_def Let_def del: render.simps)
      qed
    qed (simp_all add: value_step_def literal_def)
  next
    case 2
    have v: "json_value n m d (render v @ left_members kvs @ r) = Some (Inr (value_of v, left_members kvs @ r))"
      using 2 by (intro Suc(1)) (simp_all add: stops_left)
    have "json_members (Suc n) m d done (escape k @ CHR '':'' # render v @ left_members kvs @ r) =
        (let kvs' = done @ [(k, value_of v)]; r' = skip_ws (left_members kvs @ r)
         in if r' = [] then Some (fail ''unterminated object'' r')
            else if hd r' = CHR '','' then json_members n m d kvs' (tl r')
            else if hd r' = CHR ''}'' then Some (Inr (VObject kvs', tl r'))
            else Some (fail (expected_or (CHR ''}'')) r'))"
      using v skip_ws_starts [OF render_starts [OF 2(1)]]
      by (simp add: members_step_def Let_def escape_def json_string_escape)
    also have "\<dots> = Some (Inr (VObject (done @ map (\<lambda>kv. (fst kv, value_of (snd kv))) ((k, v) # kvs)), r))"
    proof (cases kvs)
      case Nil
      then show ?thesis by (simp add: left_members_simps)
    next
      case (Cons kv ws)
      obtain k' w where kv: "kv = (k', w)" by (cases kv)
      with Cons 2 Suc(2) [of d w ws k' "done @ [(k, value_of v)]" r] show ?thesis
        by (simp add: left_members_simps)
    qed
    finally show ?case .
  next
    case 3
    have v: "json_value n m d (render v @ left_items vs @ r) = Some (Inr (value_of v, left_items vs @ r))"
      using 3 by (intro Suc(1)) (simp_all add: stops_left)
    have "json_items (Suc n) m d read (render v @ left_items vs @ r) =
        (let vs' = read @ [value_of v]; r' = skip_ws (left_items vs @ r)
         in if r' = [] then Some (fail ''unterminated array'' r')
            else if hd r' = CHR '','' then json_items n m d vs' (tl r')
            else if hd r' = CHR '']'' then Some (Inr (VArray vs', tl r'))
            else Some (fail (expected_or (CHR '']'')) r'))"
      using v skip_ws_starts [OF render_starts [OF 3(1)]] by (simp add: items_step_def)
    also have "\<dots> = Some (Inr (VArray (read @ map value_of (v # vs)), r))"
    proof (cases vs)
      case Nil
      then show ?thesis by (simp add: left_members_simps)
    next
      case (Cons w ws)
      with 3 Suc(3) [of d w ws "read @ [value_of v]" r] show ?thesis
        by (simp add: left_members_simps)
    qed
    finally show ?case .
  }
qed simp_all

lemma parse_render:
  assumes "renderable m v"
  shows "parse (render v) m = Some (Inr (value_of v))"
proof -
  have "skip_ws (render v) = render v" using skip_ws_starts render_starts [OF assms, of "[]"] by simp
  moreover have "json_value (2 * length (render v) + 2) m 0 (render v) = Some (Inr (value_of v, []))"
    using json_value_render(1) [of m 0 v "[]" "2 * length (render v) + 2"] assms by (simp del: json_value.simps)
  ultimately show ?thesis by (simp add: parse_def document_def del: json_value.simps)
qed

section \<open>Numbers the writer prints\<close>

lemma dec_digits_0: "dec_digits 0 = ''0''"
  by (subst dec_digits.simps) (simp add: char_of_def bit_0)

lemma takeWhile_dec [simp]:
  "takeWhile (is_digit 10) (dec_digits n) = dec_digits n" "dropWhile (is_digit 10) (dec_digits n) = []"
  using dec_digits_digits [of n] by (simp_all add: takeWhile_eq_all_conv dropWhile_eq_Nil_conv)

lemma takeWhile_dec_append:
  "takeWhile (is_digit 10) (dec_digits n @ s) = dec_digits n @ takeWhile (is_digit 10) s"
  "dropWhile (is_digit 10) (dec_digits n @ s) = dropWhile (is_digit 10) s"
  using dec_digits_digits [of n] by (simp_all add: takeWhile_append2 dropWhile_append2)

lemma dec_digits_nonempty [simp]: "dec_digits n \<noteq> []"
  using dec_digits_clean [of n] by simp

lemma dec_digits_no_sign: "hd (dec_digits n @ s) \<noteq> CHR ''-''"
  using dec_digits_clean [of n] by simp

text \<open>The whole part of a number that \<open>std::to_string\<close> printed.\<close>

lemma whole_part:
  "whole_digits (dec_digits n @ s) = Some (dropWhile (is_digit 10) s)" if "s = [] \<or> \<not> is_digit 10 (hd s)"
proof (cases "n = 0")
  case True
  with that show ?thesis by (cases s) (simp_all add: whole_digits_def dec_digits_0)
next
  case False
  with dec_digits_hd [of n] have "hd (dec_digits n) \<noteq> CHR ''0''" "dec_digits n \<noteq> []" by auto
  moreover have "length (dropWhile (is_digit 10) s) < length (dec_digits n) + length s"
    using length_dropWhile_le [of "is_digit 10" s] by (simp add: add.commute add_strict_increasing2 le_less_trans)
  ultimately show ?thesis by (simp add: whole_digits_def digits_def takeWhile_dec_append)
qed

lemma is_number_dec: "is_number (dec_digits n)"
  using whole_part [of "[]" n] dec_digits_no_sign [of n "[]"]
  by (simp add: is_number_def number_text_def after_fraction_def)

lemma strtod_dec: "n < 2 ^ 53 \<Longrightarrow> strtod (dec_digits n) = Finite (of_nat n)"
proof -
  assume n: "n < 2 ^ 53"
  have "take 1 (dec_digits n) \<noteq> ''-''" using dec_digits_no_sign [of n "[]"] by (cases "dec_digits n") auto
  then have "strtod (dec_digits n) = round_double (of_nat n)"
    by (simp add: strtod_def digits_value_dec pow10_def)
  moreover have "n < 2 ^ 1024" by (rule less_le_trans [OF n power_increasing]) simp_all
  ultimately show ?thesis using to_double_exact [OF n] by (simp add: round_double_def Let_def del: power_numeral)
qed

lemma is_number_fixed:
  assumes "ds \<noteq> []" "\<forall>c\<in>set ds. is_digit 10 c"
  shows "is_number (dec_digits n @ CHR ''.'' # ds)"
proof -
  have point: "\<not> is_digit 10 (CHR ''.'')" by (simp add: is_digit_def digit_value_def less_eq_char_def)
  have "digits ds = Some []" using assms by (simp add: digits_def dropWhile_eq_Nil_conv [THEN iffD2])
  with whole_part [of "CHR ''.'' # ds" n] point dec_digits_no_sign [of n "CHR ''.'' # ds"] show ?thesis
    by (simp add: is_number_def number_text_def after_fraction_def)
qed

lemma length_dec_digits: "n < 10 ^ k \<Longrightarrow> 0 < k \<Longrightarrow> length (dec_digits n) \<le> k"
proof (induction k arbitrary: n)
  case (Suc k)
  show ?case
  proof (cases "n < 10")
    case True
    then show ?thesis by (subst dec_digits.simps) simp
  next
    case False
    then have "0 < k" using Suc.prems by (cases k) auto
    moreover have "n div 10 < 10 ^ k" using Suc.prems(1) by (simp add: div_less_iff_less_mult mult.commute)
    ultimately have "length (dec_digits (n div 10)) \<le> k" using Suc.IH by simp
    with False show ?thesis by (subst dec_digits.simps) simp
  qed
qed simp

lemma pad3_digits: "pad3 (dec_digits n) \<noteq> [] \<and> (\<forall>c\<in>set (pad3 (dec_digits n)). is_digit 10 c)"
proof -
  have "is_digit 10 (CHR ''0'')" by (simp add: is_digit_def digit_value_def less_eq_char_def)
  with dec_digits_digits [of n] show ?thesis by (auto simp: pad3_def)
qed

lemma is_number_print_fixed3:
  assumes "0 \<le> x" "x < 10 ^ 40"
  shows "is_number (take 63 (print_fixed3 (Finite x)))"
proof -
  define n where "n = nat (round_half_even (x * 1000))"
  have "round_half_even (x * 1000) < 10 ^ 44"
  proof -
    have "(of_int (round_half_even (x * 1000)) :: rat) \<le> x * 1000 + 1 / 2"
      by (rule round_half_even_le)
    also have "\<dots> < of_int (10 ^ 44)" using assms(2) by simp
    finally show ?thesis by (simp only: of_int_less_iff)
  qed
  then have "n < 10 ^ 44" by (simp add: n_def nat_less_iff)
  then have len: "length (dec_digits (n div 1000)) \<le> 44"
    by (intro length_dec_digits) (simp_all add: div_less_iff_less_mult)
  have "length (dec_digits (n mod 1000)) \<le> 3" by (rule length_dec_digits) simp_all
  then have "length (print_fixed3 (Finite x)) \<le> 63"
    using len assms(1) by (simp add: print_thousandths_def pad3_def flip: n_def)
  then have "take 63 (print_fixed3 (Finite x)) = dec_digits (n div 1000) @ CHR ''.'' # pad3 (dec_digits (n mod 1000))"
    using assms(1) by (simp add: print_thousandths_def n_def)
  with pad3_digits [of "n mod 1000"] show ?thesis by (simp add: is_number_fixed)
qed

section \<open>The statistics message\<close>

lemma uptime_bounds: "0 \<le> uptime_seconds ns \<and> uptime_seconds ns < 10 ^ 40"
proof -
  let ?a = "to_double (of_nat (unat ns))"
  have "(of_nat (unat ns) :: rat) \<le> of_nat (2 ^ 64)"
    using unat_less_2p [of ns] by (intro of_nat_mono less_imp_le) simp
  then have a: "0 \<le> ?a" "?a \<le> 3 / 2 * 2 ^ 64 + 1 / 2"
    using to_double_bounds [of "of_nat (unat ns)"] by (simp_all del: of_nat_unat)
  then have "0 \<le> to_double (?a / 1000000000) \<and> to_double (?a / 1000000000) \<le> 3 / 2 * (?a / 1000000000) + 1 / 2"
    by (intro to_double_bounds) simp
  with a show ?thesis by (simp add: uptime_seconds_def)
qed

lemma renderable_stats: "renderable 64 (stats_value s m r)"
proof -
  have n: "renderable d (num k)" for d k by (simp add: num_def is_number_dec)
  have one: "is_number ''1''" by (simp add: is_number_def number_text_def whole_digits_def digits_def after_fraction_def
        is_digit_def digit_value_def less_eq_char_def)
  have up: "is_number (take 63 (print_fixed3 (Finite (uptime_seconds ns))))" for ns
    using is_number_print_fixed3 uptime_bounds by blast
  have "renderable 62 (source_value ss)" for ss by (simp add: source_value_def n)
  moreover have "renderable 63 (recording_value s)" by (simp add: recording_value_def n)
  ultimately show ?thesis
    by (simp add: stats_value_def n one up case_prod_beta del: print_fixed3.simps)
qed

text \<open>The counters at the top level of the message.\<close>

definition counters :: "ReceiverStats \<Rightarrow> (string \<times> u64) list" where
  "counters s =
     [(''packets_received'', rs_datagrams s), (''packet_bytes'', rs_datagram_bytes s),
      (''messages_received'', rs_messages s), (''payload_bytes'', rs_payload_bytes s),
      (''malformed_packets'', rs_malformed s), (''incomplete_fragments'', rs_incomplete s),
      (''duplicate_fragments'', rs_duplicates s), (''oversize_packets'', rs_oversize s),
      (''receive_errors'', rs_recv_errors s), (''kernel_drops'', rs_kernel_drops s),
      (''reassembly_pending'', rs_reassembly_pending s), (''commands_received'', rs_commands s),
      (''stats_published'', stats_published s), (''stats_publish_failures'', stats_publish_failures s)]"

lemma get_counters: "\<forall>(k, n)\<in>set (counters s). get (value_of (stats_value s m r)) k = Some (VNumber (strtod (dec_digits (unat n))))"
  by (simp add: counters_def stats_value_def num_def)

text \<open>C28: the statistics message of the receiver is always accepted by the JSON parser of the control tool, as the tree that
  lists the statistics, and every counter below 2 ^ 53 is read back exactly although it passes through a double.\<close>

theorem statistics_message_is_read_back:
  "\<exists>v. parse (stats_to_json s now_monotonic_ns now_realtime_ns) 64 = Some (Inr v) \<and>
     v = value_of (stats_value s now_monotonic_ns now_realtime_ns) \<and>
     (\<forall>(k, n)\<in>set (counters s). unat n < 2 ^ 53 \<longrightarrow> get v k = Some (VNumber (Finite (of_nat (unat n)))))"
proof (intro exI conjI)
  let ?v = "value_of (stats_value s now_monotonic_ns now_realtime_ns)"

  show "parse (stats_to_json s now_monotonic_ns now_realtime_ns) 64 = Some (Inr ?v)"
    unfolding stats_to_json_written by (rule parse_render [OF renderable_stats])
  show "\<forall>(k, n)\<in>set (counters s). unat n < 2 ^ 53 \<longrightarrow> get ?v k = Some (VNumber (Finite (of_nat (unat n))))"
    using get_counters [of s now_monotonic_ns now_realtime_ns] strtod_dec by fastforce
qed simp

text \<open>C30: whatever tree is written, the parser reads it back: the rendering of a tree whose numbers are JSON numbers and that
  is nested no deeper than the limit parses to the same tree.\<close>

theorem json_roundtrip:
  assumes "renderable max_depth v"
  shows "parse (render v) max_depth = Some (Inr (value_of v))"
  using assms by (rule parse_render)

lemma json_roundtrip_witness:
  "parse (render (JObject [(''a'', JArray [JNull, JString [CHR 0x0A, CHR 0x22]])])) 2 =
     Some (Inr (VObject [(''a'', VArray [VNull, VString [CHR 0x0A, CHR 0x22]])]))"
  using json_roundtrip [of 2 "JObject [(''a'', JArray [JNull, JString [CHR 0x0A, CHR 0x22]])]"] by simp

lemma statistics_message_is_read_back_witness:
  "\<exists>v. parse (stats_to_json (zero_ReceiverStats\<lparr>rs_datagrams := 7\<rparr>) 0 0) 64 = Some (Inr v) \<and>
     get v ''packets_received'' = Some (VNumber (Finite 7))"
proof -
  have "(''packets_received'', 7) \<in> set (counters (zero_ReceiverStats\<lparr>rs_datagrams := 7\<rparr>))"
    by (simp add: counters_def)
  then show ?thesis
    using statistics_message_is_read_back [of "zero_ReceiverStats\<lparr>rs_datagrams := 7\<rparr>" 0 0] by fastforce
qed

end
