(* ===== verification/Websocket.thy ===== *)
theory Websocket
  imports Config
begin

text \<open>
  The WebSocket primitives of the control tool (\<open>tools/ctl/backend/websocket.hpp\<close> and \<open>websocket.cpp\<close>): the digest and
  the Base64 text of the handshake, the parser of client frames and the encoder of server frames. A
  \<open>std::string\<close> of bytes is a list of characters.
\<close>

definition byte_of :: "char \<Rightarrow> byte" where
  "byte_of c = of_nat (of_char c)"

definition to_char :: "byte \<Rightarrow> char" where
  "to_char b = char_of (unat b)"

section \<open>SHA-1\<close>

definition rotl :: "u32 \<Rightarrow> nat \<Rightarrow> u32" where
  "rotl v n = push_bit n v OR drop_bit (32 - n) v"

lemma pad_measure:
  "k \<noteq> 56 \<Longrightarrow> k < 64 \<Longrightarrow> k' = (if k = 63 then 0 else Suc k) \<Longrightarrow>
     (if k' \<le> 56 then 56 - k' else 120 - k') < (if k \<le> 56 then 56 - k else 120 - (k :: nat))"
  by (auto split: if_splits)

function pad_zeros :: "byte list \<Rightarrow> byte list" where
  "pad_zeros m = (if length m mod 64 \<noteq> 56 then pad_zeros (m @ [0]) else m)"
  by pat_completeness auto
termination
proof (relation "measure (\<lambda>m. if length m mod 64 \<le> 56 then 56 - length m mod 64 else 120 - length m mod 64)")
  fix m :: "byte list"
  assume "length m mod 64 \<noteq> 56"
  moreover have "length m mod 64 < 64" by simp
  moreover have "length (m @ [0]) mod 64 = (if length m mod 64 = 63 then 0 else Suc (length m mod 64))"
    by (simp add: mod_Suc)
  ultimately show "(m @ [0], m) \<in>
      measure (\<lambda>m. if length m mod 64 \<le> 56 then 56 - length m mod 64 else 120 - length m mod 64)"
    unfolding in_measure by (rule pad_measure)
qed simp

declare pad_zeros.simps [simp del]

definition big_endian_64 :: "u64 \<Rightarrow> byte list" where
  "big_endian_64 v = map (\<lambda>i. ucast (drop_bit (56 - 8 * i) v)) [0..<8]"

definition sha1_padded :: "string \<Rightarrow> byte list" where
  "sha1_padded data = pad_zeros (map byte_of data @ [0x80]) @ big_endian_64 (of_nat (length data) * 8)"

definition big_endian_32 :: "byte list \<Rightarrow> nat \<Rightarrow> u32" where
  "big_endian_32 m p =
     push_bit 24 (ucast (m ! p)) OR push_bit 16 (ucast (m ! (p + 1))) OR push_bit 8 (ucast (m ! (p + 2))) OR ucast (m ! (p + 3))"

definition sha1_schedule :: "byte list \<Rightarrow> nat \<Rightarrow> u32 list" where
  "sha1_schedule m off =
     foldl (\<lambda>w i. w @ [rotl (w ! (i - 3) XOR w ! (i - 8) XOR w ! (i - 14) XOR w ! (i - 16)) 1])
       (map (\<lambda>i. big_endian_32 m (off + 4 * i)) [0..<16]) [16..<80]"

type_synonym sha1_state = "u32 \<times> u32 \<times> u32 \<times> u32 \<times> u32"

definition sha1_round :: "u32 list \<Rightarrow> sha1_state \<Rightarrow> nat \<Rightarrow> sha1_state" where
  "sha1_round ws = (\<lambda>(a, b, c, d, e) i.
     let (f, k) =
       (if i < 20 then ((b AND c) OR (NOT b AND d), 0x5A827999)
        else if i < 40 then (b XOR c XOR d, 0x6ED9EBA1)
        else if i < 60 then ((b AND c) OR (b AND d) OR (c AND d), 0x8F1BBCDC)
        else (b XOR c XOR d, 0xCA62C1D6));
       t = rotl a 5 + f + e + k + ws ! i
     in (t, a, rotl b 30, c, d))"

definition sha1_block :: "byte list \<Rightarrow> sha1_state \<Rightarrow> nat \<Rightarrow> sha1_state" where
  "sha1_block m h off =
     (let (h0, h1, h2, h3, h4) = h; (a, b, c, d, e) = foldl (sha1_round (sha1_schedule m off)) h [0..<80]
      in (h0 + a, h1 + b, h2 + c, h3 + d, h4 + e))"

definition sha1 :: "string \<Rightarrow> string" where
  "sha1 data =
     (let m = sha1_padded data;
          (h0, h1, h2, h3, h4) = foldl (sha1_block m) (0x67452301, 0xEFCDAB89, 0x98BADCFE, 0x10325476, 0xC3D2E1F0)
            (map (\<lambda>k. 64 * k) [0..<(length m + 63) div 64])
      in concat (map (\<lambda>v. map (\<lambda>s. to_char (ucast (drop_bit s v))) [24, 16, 8, 0]) [h0, h1, h2, h3, h4]))"

section \<open>Base64\<close>

definition kTable :: string where
  "kTable = ''ABCDEFGHIJKLMNOPQRSTUVWXYZabcdefghijklmnopqrstuvwxyz0123456789+/''"

definition sextet :: "u32 \<Rightarrow> nat \<Rightarrow> char" where
  "sextet v n = kTable ! unat (drop_bit n v AND 63)"

text \<open>The argument is the data from the position of the loop on.\<close>

fun base64_encode :: "string \<Rightarrow> string" where
  "base64_encode [] = []"
| "base64_encode (x # r) =
     (let v = push_bit 16 (ucast (byte_of x));
          v = (case r of [] \<Rightarrow> v | y # _ \<Rightarrow> v OR push_bit 8 (ucast (byte_of y)));
          v = (case r of _ # z # _ \<Rightarrow> v OR ucast (byte_of z) | _ \<Rightarrow> v)
      in [sextet v 18, sextet v 12, if r = [] then CHR ''='' else sextet v 6,
          if length r < 2 then CHR ''='' else sextet v 0] @ base64_encode (drop 2 r))"

definition websocket_accept_key :: "string \<Rightarrow> string" where
  "websocket_accept_key client_key = base64_encode (sha1 (client_key @ ''258EAFA5-E914-47DA-95CA-C5AB0DC85B11''))"

section \<open>Frames\<close>

definition kContinuation :: byte where [const_defs]: "kContinuation = 0x0"
definition kText :: byte where [const_defs]: "kText = 0x1"
definition kBinary :: byte where [const_defs]: "kBinary = 0x2"
definition kClose :: byte where [const_defs]: "kClose = 0x8"
definition kPing :: byte where [const_defs]: "kPing = 0x9"
definition kPong :: byte where [const_defs]: "kPong = 0xA"

definition kGoingAway :: u16 where [const_defs]: "kGoingAway = 1001"
definition kProtocolError :: u16 where [const_defs]: "kProtocolError = 1002"
definition kUnsupportedData :: u16 where [const_defs]: "kUnsupportedData = 1003"
definition kTooBig :: u16 where [const_defs]: "kTooBig = 1009"

record WsFrame =
  ws_fin :: bool
  ws_opcode :: byte
  ws_payload :: string

text \<open>The result together with the frame and the bytes it occupied, or the error text.\<close>

datatype WsParse = WsNeedMore | WsFrameAt WsFrame nat | WsError string

text \<open>The payload length and the position behind it, once its bytes are there.\<close>

definition ws_length :: "string \<Rightarrow> byte \<Rightarrow> (u64 \<times> nat) option" where
  "ws_length buf b1 =
     (let payload_len = ucast (b1 AND 0x7F) :: u64 in
      if payload_len = 126 then
        (if length buf < 4 then None
         else Some (push_bit 8 (ucast (byte_of (buf ! 2))) OR ucast (byte_of (buf ! 3)), 4))
      else if payload_len = 127 then
        (if length buf < 10 then None
         else Some (foldl (\<lambda>v i. push_bit 8 v OR ucast (byte_of (buf ! (2 + i)))) 0 [0..<8], 10))
      else Some (payload_len, 2))"

definition ws_unmask :: "string \<Rightarrow> nat \<Rightarrow> nat \<Rightarrow> string" where
  "ws_unmask buf mask_pos n =
     map (\<lambda>i. to_char (byte_of (buf ! (mask_pos + 4 + i)) XOR byte_of (buf ! (mask_pos + i mod 4)))) [0..<n]"

definition ws_header_error :: "byte \<Rightarrow> byte \<Rightarrow> string option" where
  "ws_header_error b0 b1 =
     (if b0 AND 0x70 \<noteq> 0 then Some ''reserved bits set (no extensions negotiated)''
      else if b0 AND 0x0F \<notin> {kContinuation, kText, kBinary, kClose, kPing, kPong}
      then Some (''unknown opcode '' @ dec_digits (unat (b0 AND 0x0F)))
      else if b1 AND 0x80 = 0 then Some ''client frame is not masked''
      else None)"

definition ws_length_error :: "byte \<Rightarrow> u64 \<Rightarrow> nat \<Rightarrow> string option" where
  "ws_length_error b0 payload_len max_payload =
     (if b0 AND 0x0F AND 0x08 \<noteq> 0 \<and> (b0 AND 0x80 = 0 \<or> 125 < payload_len) then Some ''invalid control frame''
      else if max_payload < unat payload_len
      then Some (''frame payload of '' @ dec_digits (unat payload_len) @ '' bytes exceeds limit'')
      else None)"

definition ws_parse_frame :: "string \<Rightarrow> nat \<Rightarrow> WsParse" where
  "ws_parse_frame buf max_payload =
     (if length buf < 2 then WsNeedMore
      else let b0 = byte_of (buf ! 0); b1 = byte_of (buf ! 1) in
      case ws_header_error b0 b1 of Some error \<Rightarrow> WsError error
      | None \<Rightarrow>
        case ws_length buf b1 of None \<Rightarrow> WsNeedMore
        | Some (payload_len, mask_pos) \<Rightarrow>
          case ws_length_error b0 payload_len max_payload of Some error \<Rightarrow> WsError error
          | None \<Rightarrow>
            if length buf < mask_pos + 4 \<or> length buf - (mask_pos + 4) < unat payload_len then WsNeedMore
            else WsFrameAt
                \<lparr>ws_fin = (b0 AND 0x80 \<noteq> 0), ws_opcode = b0 AND 0x0F, ws_payload = ws_unmask buf mask_pos (unat payload_len)\<rparr>
                (mask_pos + 4 + unat payload_len))"

definition ws_encode_frame :: "byte \<Rightarrow> string \<Rightarrow> string" where
  "ws_encode_frame opcode payload =
     (let n = length payload in
      [to_char (0x80 OR (opcode AND 0x0F))] @
      (if n < 126 then [to_char (of_nat n)]
       else if n \<le> 0xFFFF then [to_char 126, to_char (of_nat (n div 256)), to_char (of_nat n)]
       else to_char 127 # map to_char (big_endian_64 (of_nat n))) @
      payload)"

definition ws_close_payload :: "u16 \<Rightarrow> string \<Rightarrow> string" where
  "ws_close_payload code reason = [to_char (ucast (drop_bit 8 code)), to_char (ucast code)] @ take 123 reason"

end
