(* ===== verification/Websocket_Properties.thy ===== *)
theory Websocket_Properties
  imports Websocket
begin

text \<open>
  Frames survive the byte stream: what the parser decides about a buffer does not change when more bytes arrive, a
  frame that a client sends is read back whatever follows it, and no earlier prefix is mistaken for a frame. Base64 is decoded by
  a reference decoder.
\<close>

section \<open>Bytes and characters\<close>

lemma byte_of_to_char [simp]: "byte_of (to_char b) = b"
  using unat_less_2p [of b] by (simp add: byte_of_def to_char_def)

lemma to_char_byte_of [simp]: "to_char (byte_of c) = c"
  by (simp add: byte_of_def to_char_def unat_of_nat)

section \<open>The parser and the stream\<close>

lemma ws_length_append: "ws_length buf b1 = Some r \<Longrightarrow> ws_length (buf @ x) b1 = Some r"
proof -
  assume some: "ws_length buf b1 = Some r"
  have "10 \<le> length buf \<Longrightarrow> map (\<lambda>i. byte_of ((buf @ x) ! (2 + i))) [0..<8] = map (\<lambda>i. byte_of (buf ! (2 + i))) [0..<8]"
    by (simp add: nth_append)
  then have "10 \<le> length buf \<Longrightarrow> foldl (\<lambda>v i. push_bit 8 v OR ucast (byte_of ((buf @ x) ! (2 + i)))) (0 :: u64) [0..<8] =
      foldl (\<lambda>v i. push_bit 8 v OR ucast (byte_of (buf ! (2 + i)))) 0 [0..<8]"
    by (intro foldl_cong) (auto simp: nth_append)
  with some show ?thesis
    by (auto simp: ws_length_def Let_def nth_append split: if_splits)
qed

lemma ws_length_pos: "ws_length buf b1 = Some (n, p) \<Longrightarrow> 2 \<le> p"
  by (auto simp: ws_length_def Let_def split: if_splits)

lemma ws_unmask_append:
  "p + 4 + n \<le> length buf \<Longrightarrow> ws_unmask (buf @ x) p n = ws_unmask buf p n"
proof -
  assume len: "p + 4 + n \<le> length buf"
  have "p + i mod 4 < length buf" if "i < n" for i :: nat
    using len that mod_less_divisor [of 4 i] by linarith
  with len show ?thesis by (simp add: ws_unmask_def nth_append)
qed

lemma ws_parse_frame_consumed:
  assumes "ws_parse_frame buf m = WsFrameAt f k"
  shows "6 \<le> k \<and> k \<le> length buf"
proof -
  obtain n p where "ws_length buf (byte_of (buf ! 1)) = Some (n, p)" "k = p + 4 + unat n"
    "p + 4 \<le> length buf" "unat n \<le> length buf - (p + 4)"
    using assms by (auto simp: ws_parse_frame_def Let_def split: if_splits option.splits)
  then show ?thesis using ws_length_pos by fastforce
qed

lemma ws_parse_frame_append:
  assumes "ws_parse_frame buf m \<noteq> WsNeedMore"
  shows "ws_parse_frame (buf @ x) m = ws_parse_frame buf m"
proof -
  have len: "\<not> length buf < 2" using assms by (auto simp: ws_parse_frame_def)
  then have "0 < length buf" "1 < length buf" by linarith+
  then have bytes: "(buf @ x) ! 0 = buf ! 0" "(buf @ x) ! 1 = buf ! 1" by (simp_all only: nth_append if_True)
  show ?thesis
  proof (cases "ws_header_error (byte_of (buf ! 0)) (byte_of (buf ! 1))")
    case None
    then obtain n p where np: "ws_length buf (byte_of (buf ! 1)) = Some (n, p)"
      using assms len by (auto simp: ws_parse_frame_def Let_def split: option.splits)
    show ?thesis
    proof (cases "ws_length_error (byte_of (buf ! 0)) n m")
      case none: None
      then have enough: "p + 4 + unat n \<le> length buf"
        using assms len None np by (auto simp: ws_parse_frame_def Let_def split: if_splits)
      then have "\<not> (length buf < p + 4 \<or> length buf - (p + 4) < unat n)"
        "\<not> (length (buf @ x) < p + 4 \<or> length (buf @ x) - (p + 4) < unat n)" "\<not> length (buf @ x) < 2"
        using len by auto
      with None none len np ws_length_append [OF np] ws_unmask_append [OF enough] show ?thesis
        unfolding ws_parse_frame_def Let_def bytes by simp
    next
      case (Some e)
      with None len np ws_length_append [OF np] show ?thesis
        unfolding ws_parse_frame_def Let_def bytes by simp
    qed
  next
    case (Some e)
    with len show ?thesis unfolding ws_parse_frame_def Let_def bytes by simp
  qed
qed

section \<open>Frames of a client\<close>

text \<open>RFC 6455, section 5.2: what a client puts on the wire for a payload and a masking key of four bytes.\<close>

definition client_length :: "nat \<Rightarrow> string" where
  "client_length n =
     (if n < 126 then [to_char (0x80 OR of_nat n)]
      else if n < 2 ^ 16 then [to_char (0x80 OR 126), to_char (of_nat (n div 256)), to_char (of_nat n)]
      else to_char (0x80 OR 127) # map to_char (big_endian_64 (of_nat n)))"

definition client_frame :: "bool \<Rightarrow> byte \<Rightarrow> byte list \<Rightarrow> string \<Rightarrow> string" where
  "client_frame fin opcode masking payload =
     to_char ((if fin then 0x80 else 0) OR opcode) # client_length (length payload) @ map to_char masking @
     map (\<lambda>i. to_char (byte_of (payload ! i) XOR masking ! (i mod 4))) [0..<length payload]"

text \<open>What the protocol allows a client to send.\<close>

definition allowed :: "bool \<Rightarrow> byte \<Rightarrow> nat \<Rightarrow> bool" where
  "allowed fin opcode n \<longleftrightarrow>
     opcode \<in> {kContinuation, kText, kBinary} \<or> opcode \<in> {kClose, kPing, kPong} \<and> fin \<and> n \<le> 125"

lemma join_bytes:
  fixes v :: u64
  shows "push_bit 8 (drop_bit (k + 8) v) OR ucast (ucast (drop_bit k v) :: byte) = drop_bit k v"
  by (rule bit_word_eqI) (auto simp: bit_simps)

lemma read_big_endian:
  "foldl (\<lambda>w i. push_bit 8 w OR ucast (ucast (drop_bit (56 - 8 * i) v) :: byte)) (0 :: u64) [0..<8] = v"
proof -
  have steps: "k \<le> 8 \<Longrightarrow> j = 64 - 8 * k \<Longrightarrow>
      foldl (\<lambda>w i. push_bit 8 w OR ucast (ucast (drop_bit (56 - 8 * i) v) :: byte)) (0 :: u64) [0..<k] = drop_bit j v" for j k
  proof (induction k arbitrary: j)
    case 0
    then have "j = 64" by simp
    moreover have "drop_bit 64 v = 0" by (rule bit_word_eqI) (simp add: bit_simps)
    ultimately show ?case by simp
  next
    case (Suc k)
    then have "64 - 8 * k = (56 - 8 * k) + 8" "j = 56 - 8 * k" by simp_all
    then show ?case using Suc join_bytes [of "56 - 8 * k" v] by simp
  qed
  have "0 = 64 - 8 * (8 :: nat)" by simp
  from steps [OF order_refl this] show ?thesis by (simp only: drop_bit_0 id_apply)
qed

lemma mask_bit: "(0x80 OR w) AND 0x80 \<noteq> (0 :: byte)" "(0x80 OR w) AND 0x7F = (w AND 0x7F :: byte)"
proof -
  have "(0x80 OR w) AND 0x80 = (0x80 :: byte)" by (simp only: word_ao_absorbs)
  then show "(0x80 OR w) AND 0x80 \<noteq> (0 :: byte)" by simp
  show "(0x80 OR w) AND 0x7F = (w AND 0x7F :: byte)" 
  proof -
    have "(0x80 OR w) AND 0x7F = (0x80 AND 0x7F :: byte) OR (w AND 0x7F)" by (rule bit.conj_disj_distrib2)
    then show ?thesis by simp
  qed
qed

lemma low_seven: "n < 128 \<Longrightarrow> of_nat n AND 0x7F = (of_nat n :: byte)"
proof -
  assume "n < 128"
  moreover have "(0x7F :: byte) = mask 7" by (simp add: mask_eq_exp_minus_1)
  ultimately show ?thesis by (simp only: flip: take_bit_eq_mask)
    (simp add: word_eq_unat unsigned_take_bit_eq unat_of_nat take_bit_eq_mod unat_mod_distrib)
qed

lemma read_client_length:
  assumes "n < 2 ^ 64" "buf = b # client_length n @ rest"
  shows "byte_of (buf ! 1) AND 0x80 \<noteq> 0 \<and>
    ws_length buf (byte_of (buf ! 1)) = Some (of_nat n, Suc (length (client_length n)))"
proof -
  consider "n < 126" | "126 \<le> n" "n < 2 ^ 16" | "2 ^ 16 \<le> n" by linarith
  then show ?thesis
  proof cases
    case 1
    have "(ucast (of_nat n :: byte) :: u64) = of_nat n"
      using 1 by (simp add: word_eq_unat unat_of_nat)
    moreover from this have "of_nat n \<noteq> (126 :: u64)" "of_nat n \<noteq> (127 :: u64)"
      using 1 by (simp_all add: word_eq_unat unat_of_nat)
    ultimately show ?thesis
      using 1 assms(2) by (simp add: client_length_def ws_length_def mask_bit low_seven)
  next
    case 2
    let ?v = "of_nat n :: u64"
    have "n div 256 < 256" using 2 by (simp add: div_less_iff_less_mult)
    then have "ucast (of_nat (n div 256) :: byte) = drop_bit 8 ?v"
      using 2 by (simp add: word_eq_unat unat_of_nat drop_bit_eq_div unat_div_distrib)
    moreover have "(of_nat n :: byte) = ucast ?v" by (simp add: word_eq_unat unat_of_nat unsigned_ucast_eq take_bit_eq_mod mod_mod_cancel)
    ultimately have "push_bit 8 (ucast (of_nat (n div 256) :: byte)) OR ucast (of_nat n :: byte) = ?v"
      using join_bytes [of 0 ?v] by simp
    with 2 assms(2) show ?thesis by (simp add: client_length_def ws_length_def mask_bit)
  next
    case 3
    have "foldl (\<lambda>v i. push_bit 8 v OR ucast (byte_of (buf ! (2 + i)))) (0 :: u64) [0..<8] =
        foldl (\<lambda>w i. push_bit 8 w OR ucast (ucast (drop_bit (56 - 8 * i) (of_nat n :: u64)) :: byte)) 0 [0..<8]"
      using 3 assms(2) by (intro foldl_cong) (auto simp: client_length_def big_endian_64_def nth_append)
    with 3 assms(2) show ?thesis
      by (simp add: client_length_def ws_length_def mask_bit big_endian_64_def del: upt_rec_numeral) (simp only: read_big_endian)
  qed
qed

lemma client_header_accepted:
  assumes "allowed fin opcode n" "b1 AND 0x80 \<noteq> 0"
  defines "b0 \<equiv> (if fin then 0x80 else 0) OR opcode"
  shows "ws_header_error b0 b1 = None \<and> (b0 AND 0x80 \<noteq> 0 \<longleftrightarrow> fin) \<and> b0 AND 0x0F = opcode \<and>
    (n < 2 ^ 64 \<longrightarrow> n \<le> m \<longrightarrow> ws_length_error b0 (of_nat n) m = None)"
  using assms(1,2) unfolding b0_def
  by (cases fin) (auto simp: allowed_def ws_header_error_def ws_length_error_def const_defs unat_of_nat word_less_nat_alt)

lemma length_client_frame:
  "length masking = 4 \<Longrightarrow> length (client_frame fin opcode masking payload) =
     1 + length (client_length (length payload)) + 4 + length payload"
  by (simp add: client_frame_def)

lemma client_frame_parsed:
  assumes "allowed fin opcode (length payload)" "length masking = 4" "length payload \<le> m" "length payload < 2 ^ 64"
  shows "ws_parse_frame (client_frame fin opcode masking payload @ rest) m =
    WsFrameAt \<lparr>ws_fin = fin, ws_opcode = opcode, ws_payload = payload\<rparr> (length (client_frame fin opcode masking payload))"
proof -
  let ?n = "length payload" and ?b0 = "(if fin then 0x80 else 0) OR opcode"
  let ?masked = "map (\<lambda>i. to_char (byte_of (payload ! i) XOR masking ! (i mod 4))) [0..<?n]"
  define len where "len = client_length ?n"
  define p where "p = Suc (length len)"
  define buf where "buf = client_frame fin opcode masking payload @ rest"
  have buf: "buf = to_char ?b0 # len @ map to_char masking @ ?masked @ rest"
    by (simp add: buf_def client_frame_def len_def)
  have b1: "byte_of (buf ! 1) AND 0x80 \<noteq> 0" "ws_length buf (byte_of (buf ! 1)) = Some (of_nat ?n, p)"
    using read_client_length [OF assms(4) buf [unfolded len_def]] by (simp_all add: len_def p_def)
  have b0: "byte_of (buf ! 0) = ?b0" by (simp add: buf)
  have "length buf = p + 4 + ?n + length rest" using assms(2) by (simp add: buf p_def)
  then have size: "\<not> length buf < 2" "\<not> (length buf < p + 4 \<or> length buf - (p + 4) < unat (of_nat ?n :: u64))"
    using assms(4) by (simp_all add: unat_of_nat p_def)
  have key: "buf ! (p + k) = to_char (masking ! k)" if "k < 4" for k
    using that assms(2) by (simp add: buf p_def nth_append)
  have data: "buf ! (p + 4 + i) = to_char (byte_of (payload ! i) XOR masking ! (i mod 4))" if "i < ?n" for i
  proof -
    have "buf = (to_char ?b0 # len @ map to_char masking) @ ?masked @ rest" by (simp add: buf)
    moreover have "p + 4 = length (to_char ?b0 # len @ map to_char masking)" using assms(2) by (simp add: p_def)
    ultimately have "buf ! (p + 4 + i) = (?masked @ rest) ! i" by (simp only: nth_append_length_plus)
    with that show ?thesis by (simp add: nth_append)
  qed
  have "ws_unmask buf p ?n = payload"
    unfolding ws_unmask_def by (rule nth_equalityI) (simp_all add: key data xor.assoc)
  with client_header_accepted [OF assms(1) b1(1)] b1 b0 size assms(3,4) show ?thesis
    unfolding buf_def [symmetric] length_client_frame [OF assms(2)]
    by (simp add: ws_parse_frame_def unat_of_nat p_def len_def)
qed

section \<open>Base64\<close>

text \<open>RFC 4648: the reference decoder works on numbers, the encoder of the code on bits.\<close>

definition sextet_value :: "char \<Rightarrow> nat" where
  "sextet_value c = length (takeWhile (\<lambda>d. d \<noteq> c) kTable)"

definition base64_quantum :: "char \<Rightarrow> char \<Rightarrow> char \<Rightarrow> char \<Rightarrow> nat" where
  "base64_quantum p q r s =
     262144 * sextet_value p + 4096 * sextet_value q + 64 * (if r = CHR ''='' then 0 else sextet_value r) +
     (if s = CHR ''='' then 0 else sextet_value s)"

fun base64_decode :: "string \<Rightarrow> string option" where
  "base64_decode [] = Some []"
| "base64_decode (p # q # r # s # rest) =
     (let n = base64_quantum p q r s;
          bytes = map char_of [n div 65536, n div 256 mod 256, n mod 256]
      in if set [p, q] \<subseteq> set kTable \<and> set [r, s] \<subseteq> insert (CHR ''='') (set kTable) \<and> (r = CHR ''='' \<longrightarrow> s = CHR ''='') \<and>
            (s = CHR ''='' \<longrightarrow> rest = [])
         then map_option (\<lambda>t. take (if r = CHR ''='' then 1 else if s = CHR ''='' then 2 else 3) bytes @ t) (base64_decode rest)
         else None)"
| "base64_decode _ = None"

lemma kTable_nth: "i < 64 \<Longrightarrow> sextet_value (kTable ! i) = i \<and> kTable ! i \<in> set kTable \<and> kTable ! i \<noteq> CHR ''=''"
proof -
  assume i: "i < 64"
  have len: "length kTable = 64" by (simp add: kTable_def)
  have "distinct kTable" by (simp add: kTable_def)
  with i len have "\<forall>j<i. kTable ! j \<noteq> kTable ! i" by (simp add: nth_eq_iff_index_eq)
  then have "takeWhile (\<lambda>d. d \<noteq> kTable ! i) kTable = take i kTable"
    using i len by (intro takeWhile_eq_take_P_nth) auto
  moreover have "CHR ''='' \<notin> set kTable" by (simp add: kTable_def)
  ultimately show ?thesis using i len by (metis length_take min.absorb4 nth_mem sextet_value_def)
qed

lemma sextet_props:
  "sextet_value (sextet v n) = unat v div 2 ^ n mod 64" "sextet v n \<in> set kTable" "sextet v n \<noteq> CHR ''=''"
proof -
  have "unat (drop_bit n v AND 63) = unat v div 2 ^ n mod 64" by (simp add: low_bits unat_drop_bit)
  moreover have "unat v div 2 ^ n mod 64 < 64" by simp
  ultimately show "sextet_value (sextet v n) = unat v div 2 ^ n mod 64" "sextet v n \<in> set kTable" "sextet v n \<noteq> CHR ''=''"
    using kTable_nth [of "unat v div 2 ^ n mod 64"] by (simp_all add: sextet_def)
qed

lemma quantum_split: "n < 16777216 \<Longrightarrow>
    262144 * (n div 262144 mod 64) + 4096 * (n div 4096 mod 64) + 64 * (n div 64 mod 64) + n mod 64 = (n :: nat)"
proof -
  assume "n < 16777216"
  then have "n div 262144 mod 64 = n div 262144" by (simp add: div_less_iff_less_mult)
  moreover have "64 * (n div 4096 div 64) + n div 4096 mod 64 = n div 4096" "64 * (n div 64 div 64) + n div 64 mod 64 = n div 64"
    "64 * (n div 64) + n mod 64 = n" by (rule mult_div_mod_eq)+
  moreover have "n div 4096 div 64 = n div 262144" "n div 64 div 64 = n div 4096" by (simp_all flip: div_mult2_eq)
  ultimately show ?thesis by linarith
qed

lemma unat_three_bytes:
  "unat ((push_bit 16 (ucast x) OR push_bit 8 (ucast y)) OR ucast z :: u32) = 65536 * unat x + 256 * unat y + unat z"
  for x y z :: byte
proof -
  have byte: "unat (ucast b :: u32) < 2 ^ 8" for b :: byte using unat_less_2p [of b] by simp
  define v :: u32 where "v = push_bit 8 (ucast x) OR ucast y"
  have "v = push_bit 8 (ucast x) + ucast y" unfolding v_def by (rule or_plus [OF byte]) simp_all
  then have v: "unat v = 256 * unat x + unat y"
    using byte [of x] byte [of y] by (simp add: unat_word_ariths push_bit_eq_mult)
  have "push_bit 8 v OR ucast z = push_bit 8 v + ucast z" by (rule or_plus [OF byte]) simp_all
  moreover have "push_bit 16 (ucast x) OR push_bit 8 (ucast y) = push_bit 8 v" by (simp add: v_def push_bit_or)
  ultimately have "(push_bit 16 (ucast x) OR push_bit 8 (ucast y)) OR ucast z = push_bit 8 v + ucast z" by (simp only:)
  then show ?thesis
    using v byte [of x] byte [of y] byte [of z] by (simp only:) (simp add: unat_word_ariths push_bit_eq_mult)
qed

lemma of_char_byte: "unat (byte_of c) = of_char c"
  by (simp add: byte_of_def unat_of_nat)

lemma of_char_less [simp]: "(of_char c :: nat) < 256"
  using unat_less_2p [of "byte_of c"] by (simp add: of_char_byte)

lemma quantum_sextets:
  assumes "unat v < 16777216" "e1 \<longrightarrow> unat v div 64 mod 64 = 0" "e2 \<longrightarrow> unat v mod 64 = 0"
  shows "base64_quantum (sextet v 18) (sextet v 12) (if e1 then CHR ''='' else sextet v 6) (if e2 then CHR ''='' else sextet v 0) =
    unat v"
proof -
  have "unat v div 262144 mod 64 = unat v div 262144" using assms(1) by (simp add: div_less_iff_less_mult)
  with quantum_split [OF assms(1)] assms(2,3) show ?thesis by (auto simp: base64_quantum_def sextet_props)
qed

lemma three_bytes:
  assumes "n = 65536 * of_char x + 256 * of_char y + (of_char z :: nat)"
  shows "map char_of [n div 65536, n div 256 mod 256, n mod 256] = [x, y, z]" "n < 16777216"
proof -
  have "n = of_char z + 256 * (256 * of_char x + of_char y)" using assms by simp
  then have "n div 256 = of_char z div 256 + (256 * of_char x + of_char y)" "n mod 256 = of_char z mod 256"
    by (simp_all only: div_mult_self2 mod_mult_self2)
  then have n: "n div 256 = 256 * of_char x + of_char y" "n mod 256 = of_char z" by simp_all
  moreover have "n div 65536 = n div 256 div 256" by (simp flip: div_mult2_eq)
  ultimately have "n div 65536 = of_char x" "n div 256 mod 256 = of_char y" by simp_all
  with n show "map char_of [n div 65536, n div 256 mod 256, n mod 256] = [x, y, z]"
    by (simp only: list.map char_of_char)
  show "n < 16777216" using of_char_less [of x] of_char_less [of y] of_char_less [of z] assms by linarith
qed

lemma base64_decode_encode: "base64_decode (base64_encode s) = Some s"
proof (induction s rule: base64_encode.induct)
  case (2 x r)
  define y z where "y = (if r = [] then CHR 0x00 else hd r)" and "z = (if length r < 2 then CHR 0x00 else hd (tl r))"
  define v :: u32 where "v = (push_bit 16 (ucast (byte_of x)) OR push_bit 8 (ucast (byte_of y))) OR ucast (byte_of z)"
  have zero: "byte_of (CHR 0x00) = 0" by (simp add: byte_of_def)
  have enc: "base64_encode (x # r) = [sextet v 18, sextet v 12, if r = [] then CHR ''='' else sextet v 6,
      if length r < 2 then CHR ''='' else sextet v 0] @ base64_encode (drop 2 r)"
    by (cases r; cases "tl r") (simp_all add: v_def y_def z_def zero Let_def)
  have v: "unat v = 65536 * of_char x + 256 * of_char y + of_char z"
    unfolding v_def by (simp only: unat_three_bytes of_char_byte)
  have low: "r = [] \<longrightarrow> unat v div 64 mod 64 = 0" "length r < 2 \<longrightarrow> unat v mod 64 = 0"
    using v by (auto simp: y_def z_def)
  note bytes = three_bytes [OF v]
  have q: "base64_quantum (sextet v 18) (sextet v 12) (if r = [] then CHR ''='' else sextet v 6)
      (if length r < 2 then CHR ''='' else sextet v 0) = unat v"
    by (rule quantum_sextets [OF bytes(2) low])
  have rest: "base64_decode (base64_encode (drop 2 r)) = Some (drop 2 r)" by (rule "2.IH") auto
  have "take (if r = [] then 1 else if length r < 2 then 2 else 3) [x, y, z] @ drop 2 r = x # r"
    by (cases r; cases "tl r") (simp_all add: y_def z_def)
  with rest show ?case
    unfolding enc append_Cons append_Nil base64_decode.simps q Let_def bytes(1)
    by (cases "length r < 2") (auto simp: sextet_props)
qed simp

section \<open>Properties\<close>

text \<open>C32: a frame that a client sends, masked with any key, is read back with its kind and payload from the front of the input
  whatever follows it, its length is reported exactly, and as long as a byte of it is missing the parser asks for more.\<close>

theorem client_frame_is_read_back:
  assumes "allowed fin opcode (length payload)" "length masking = 4" "length payload \<le> max_payload" "length payload < 2 ^ 64"
  defines "frame \<equiv> client_frame fin opcode masking payload"
  shows "ws_parse_frame (frame @ rest) max_payload =
      WsFrameAt \<lparr>ws_fin = fin, ws_opcode = opcode, ws_payload = payload\<rparr> (length frame) \<and>
    (\<forall>k<length frame. ws_parse_frame (take k frame) max_payload = WsNeedMore)"
proof (intro conjI allI impI)
  let ?f = "\<lparr>ws_fin = fin, ws_opcode = opcode, ws_payload = payload\<rparr>"
  show "ws_parse_frame (frame @ rest) max_payload = WsFrameAt ?f (length frame)"
    unfolding frame_def using assms(1-4) by (rule client_frame_parsed)
  fix k assume k: "k < length frame"
  have whole: "ws_parse_frame frame max_payload = WsFrameAt ?f (length frame)"
    using client_frame_parsed [OF assms(1-4), of "[]"] by (simp add: frame_def)
  show "ws_parse_frame (take k frame) max_payload = WsNeedMore"
  proof (rule ccontr)
    assume "\<not> ?thesis"
    then have "ws_parse_frame (take k frame @ drop k frame) max_payload = ws_parse_frame (take k frame) max_payload"
      by (rule ws_parse_frame_append)
    then have "ws_parse_frame (take k frame) max_payload = WsFrameAt ?f (length frame)" using whole by simp
    from ws_parse_frame_consumed [OF this] k show False by simp
  qed
qed

lemma client_frame_is_read_back_witness:
  "ws_parse_frame (client_frame True kText [1, 2, 3, 4] ''hi'' @ ''x'') 65536 =
     WsFrameAt \<lparr>ws_fin = True, ws_opcode = kText, ws_payload = ''hi''\<rparr> 8"
  using client_frame_is_read_back [of True kText "''hi''" "[1, 2, 3, 4]" 65536 "''x''"]
  by (simp add: allowed_def length_client_frame client_length_def)

text \<open>The Base64 encoder is inverted by the reference decoder of RFC 4648 on every text, so the accept key of the
  handshake is the digest of the client's key and the protocol's constant.\<close>

theorem base64_is_decoded:
  "base64_decode (base64_encode data) = Some data \<and>
   base64_decode (websocket_accept_key key) = Some (sha1 (key @ ''258EAFA5-E914-47DA-95CA-C5AB0DC85B11''))"
  by (simp add: base64_decode_encode websocket_accept_key_def)

end
