(* ===== verification/Searching.thy ===== *)
theory Searching
  imports Relay_Prelude
begin

text \<open>
  The first occurrence of a list in a list: \<open>std::string::find\<close> of a text in the HTTP parser, \<open>std::search\<close> of the magic bytes in
  the CSV export.
\<close>

text \<open>The first occurrence, from the beginning and from a position.\<close>

fun find_text :: "'a list \<Rightarrow> 'a list \<Rightarrow> nat option" where
  "find_text pat [] = (if pat = [] then Some 0 else None)"
| "find_text pat (c # s) = (if take (length pat) (c # s) = pat then Some 0 else map_option Suc (find_text pat s))"

definition find_text_from :: "'a list \<Rightarrow> 'a list \<Rightarrow> nat \<Rightarrow> nat option" where
  "find_text_from pat s pos = map_option (\<lambda>i. pos + i) (find_text pat (drop pos s))"

definition occurs_at :: "'a list \<Rightarrow> 'a list \<Rightarrow> nat \<Rightarrow> bool" where
  "occurs_at pat s i \<longleftrightarrow> i \<le> length s \<and> take (length pat) (drop i s) = pat"

lemma occurs_at_0: "occurs_at pat s 0 \<longleftrightarrow> take (length pat) s = pat"
  by (simp add: occurs_at_def)

lemma occurs_at_Suc: "occurs_at pat (c # s) (Suc i) \<longleftrightarrow> occurs_at pat s i"
  by (simp add: occurs_at_def)

lemma find_text_Some: "find_text pat s = Some i \<longleftrightarrow> occurs_at pat s i \<and> (\<forall>j<i. \<not> occurs_at pat s j)"
proof (induction pat s arbitrary: i rule: find_text.induct)
  case (1 pat)
  then show ?case by (auto simp: occurs_at_def)
next
  case (2 pat c s)
  show ?case
  proof (cases "take (length pat) (c # s) = pat")
    case True
    then have "occurs_at pat (c # s) 0" by (simp add: occurs_at_0)
    with True show ?thesis by (cases i) auto
  next
    case False
    then have "\<not> occurs_at pat (c # s) 0" by (simp add: occurs_at_0)
    with False 2 [OF False] show ?thesis
      by (cases i) (auto simp: occurs_at_Suc less_Suc_eq_0_disj)
  qed
qed

lemma find_text_None: "find_text pat s = None \<longleftrightarrow> (\<forall>i. \<not> occurs_at pat s i)"
proof
  assume none: "find_text pat s = None"
  show "\<forall>i. \<not> occurs_at pat s i"
  proof (rule ccontr)
    assume "\<not> ?thesis"
    then obtain i where "occurs_at pat s i" "\<forall>j<i. \<not> occurs_at pat s j" by (metis exists_least_iff)
    then have "find_text pat s = Some i" using find_text_Some by blast
    with none show False by simp
  qed
next
  assume "\<forall>i. \<not> occurs_at pat s i"
  then show "find_text pat s = None" using find_text_Some by (cases "find_text pat s") auto
qed

lemma find_text_le: "occurs_at pat s i \<Longrightarrow> \<exists>j\<le>i. find_text pat s = Some j"
  by (metis find_text_None find_text_Some linorder_le_less_linear option.exhaust)

lemma occurs_at_append: "i + length pat \<le> length s \<Longrightarrow> occurs_at pat (s @ x) i \<longleftrightarrow> occurs_at pat s i"
  by (simp add: occurs_at_def)

lemma occurs_at_length: "occurs_at pat s i \<Longrightarrow> i + length pat \<le> length s"
  unfolding occurs_at_def by (metis add_leD1 le_diff_conv2 length_drop length_take min.absorb_iff2 add.commute nat_add_left_cancel_le ordered_cancel_comm_monoid_diff_class.le_diff_conv2)

lemma find_text_append: "find_text pat s = Some i \<Longrightarrow> find_text pat (s @ x) = Some i"
proof -
  assume "find_text pat s = Some i"
  then have "occurs_at pat s i" "\<forall>j<i. \<not> occurs_at pat s j" by (simp_all add: find_text_Some)
  moreover from this(1) have "i + length pat \<le> length s" by (rule occurs_at_length)
  ultimately show ?thesis by (simp add: find_text_Some occurs_at_append)
qed

lemma occurs_at_drop: "occurs_at pat (drop p s) i \<Longrightarrow> p \<le> length s \<Longrightarrow> occurs_at pat s (p + i)"
  by (auto simp: occurs_at_def add.commute)

lemma occurs_at_drop': "occurs_at pat s i \<Longrightarrow> p \<le> i \<Longrightarrow> occurs_at pat (drop p s) (i - p)"
  by (auto simp: occurs_at_def)

lemma find_text_from_Some:
  "occurs_at pat s i \<Longrightarrow> p \<le> i \<Longrightarrow> \<exists>j\<le>i. p \<le> j \<and> find_text_from pat s p = Some j \<and> occurs_at pat s j"
proof -
  assume i: "occurs_at pat s i" "p \<le> i"
  then obtain k where k: "k \<le> i - p" "find_text pat (drop p s) = Some k"
    using find_text_le occurs_at_drop' by blast
  moreover have "p \<le> length s" using i by (simp add: occurs_at_def)
  ultimately have "occurs_at pat s (p + k)" using occurs_at_drop find_text_Some by blast
  with i k show ?thesis by (intro exI [of _ "p + k"]) (simp add: find_text_from_def)
qed

lemma find_text_from_append: "find_text_from pat s p = Some i \<Longrightarrow> p \<le> length s \<Longrightarrow> find_text_from pat (s @ x) p = Some i"
  using find_text_append by (auto simp: find_text_from_def)

end
