(* ===== verification/Http.thy ===== *)
theory Http
  imports Config Searching
begin

text \<open>
  The HTTP part of the control tool (\<open>tools/ctl/backend/http.hpp\<close> and \<open>http.cpp\<close>): the parser of request heads and
  the writer of responses. The position arithmetic of the code is kept; \<open>std::string::npos\<close> is \<open>None\<close>.
\<close>

text \<open>\<open>std::string::find\<close> of a character from a position.\<close>

definition find_char_from :: "char \<Rightarrow> string \<Rightarrow> nat \<Rightarrow> nat option" where
  "find_char_from c s pos = map_option (\<lambda>i. pos + i) (find_char c (drop pos s))"

definition CRLF :: string where
  "CRLF = [CHR 0x0D, CHR 0x0A]"

section \<open>Requests\<close>

record HttpRequest =
  rq_method :: string
  rq_target :: string
  rq_path :: string
  rq_version :: string
  rq_headers :: "(string \<times> string) list"

definition header :: "HttpRequest \<Rightarrow> string \<Rightarrow> string" where
  "header req name = (case map_of (rq_headers req) name of None \<Rightarrow> [] | Some v \<Rightarrow> v)"

definition has_header :: "HttpRequest \<Rightarrow> string \<Rightarrow> bool" where
  "has_header req name \<longleftrightarrow> map_of (rq_headers req) name \<noteq> None"

datatype HttpParse = HttpNeedMore | HttpRequestAt HttpRequest nat | HttpError string

text \<open>The request line: the method, the target and the version.\<close>

definition request_line :: "string \<Rightarrow> HttpRequest option" where
  "request_line line =
     (let sp1 = find_char (CHR '' '') line;
          sp2 = (case sp1 of None \<Rightarrow> None | Some p \<Rightarrow> find_char_from (CHR '' '') line (p + 1))
      in case (sp1, sp2) of
          (Some sp1, Some sp2) \<Rightarrow>
            if find_char_from (CHR '' '') line (sp2 + 1) \<noteq> None then None
            else
              let method = take sp1 line; target = take (sp2 - sp1 - 1) (drop (sp1 + 1) line); version = drop (sp2 + 1) line
              in if method = [] \<or> target = [] \<or> hd target \<noteq> CHR ''/'' \<or> take 7 version \<noteq> ''HTTP/1.'' then None
                 else Some \<lparr>rq_method = method, rq_target = target,
                   rq_path = (case find_char (CHR ''?'') target of None \<Rightarrow> target | Some q \<Rightarrow> take q target),
                   rq_version = version, rq_headers = []\<rparr>
        | _ \<Rightarrow> None)"

definition header_line :: "string \<Rightarrow> (string \<times> string) option" where
  "header_line line =
     (case find_char (CHR '':'') line of
        None \<Rightarrow> None
      | Some colon \<Rightarrow>
          if colon = 0 \<or> line ! 0 = CHR '' '' \<or> line ! 0 = CHR 0x09 then None
          else Some (to_lower (take colon line), trim (drop (colon + 1) line)))"

text \<open>The loop over the header lines from \<open>pos\<close> on. Without a line end, \<open>npos + 2\<close> wraps around to 1.\<close>

partial_function (option) header_lines ::
  "string \<Rightarrow> nat \<Rightarrow> nat \<Rightarrow> (string \<times> string) list \<Rightarrow> (string + (string \<times> string) list) option"
where
  "header_lines buf stop pos hs =
     (if pos < stop + 2 then
        (let line_end = find_text_from CRLF buf pos;
             line = (case line_end of None \<Rightarrow> drop pos buf | Some e \<Rightarrow> take (e - pos) (drop pos buf))
         in case header_line line of
             None \<Rightarrow> Some (Inl ''malformed header line'')
           | Some h \<Rightarrow> header_lines buf stop (case line_end of None \<Rightarrow> 1 | Some e \<Rightarrow> e + 2) (hs @ [h]))
      else Some (Inr hs))"

definition parse_http_request :: "string \<Rightarrow> nat \<Rightarrow> HttpParse option" where
  "parse_http_request buf max_header_bytes =
     (case find_text (CRLF @ CRLF) buf of
        None \<Rightarrow> Some (if max_header_bytes < length buf then HttpError ''request header too large'' else HttpNeedMore)
      | Some stop \<Rightarrow>
          if max_header_bytes < stop + 4 then Some (HttpError ''request header too large'')
          else
            let line_end = find_text CRLF buf;
                line = (case line_end of None \<Rightarrow> buf | Some e \<Rightarrow> take e buf)
            in case request_line line of
                None \<Rightarrow> Some (HttpError ''malformed request line'')
              | Some req \<Rightarrow>
                  (case header_lines buf stop (case line_end of None \<Rightarrow> 1 | Some e \<Rightarrow> e + 2) [] of
                     None \<Rightarrow> None
                   | Some (Inl e) \<Rightarrow> Some (HttpError e)
                   | Some (Inr hs) \<Rightarrow> Some (HttpRequestAt (req\<lparr>rq_headers := hs\<rparr>) (stop + 4))))"

text \<open>The tokens of a header value from the position of the loop on.\<close>

function has_token :: "string \<Rightarrow> string \<Rightarrow> bool" where
  "has_token want s =
     (to_lower (trim (takeWhile (\<lambda>x. x \<noteq> CHR '','') s)) = want \<or>
      (case dropWhile (\<lambda>x. x \<noteq> CHR '','') s of [] \<Rightarrow> False | _ # r \<Rightarrow> has_token want r))"
  by pat_completeness auto
termination
proof (relation "measure (\<lambda>(want, s). length s)")
  fix want s c and r :: string
  assume "dropWhile (\<lambda>x. x \<noteq> CHR '','') s = c # r"
  then show "((want, r), (want, s)) \<in> measure (\<lambda>(want, s). length s)"
    using length_dropWhile_le [of "\<lambda>x. x \<noteq> CHR '',''" s] by simp
qed simp

declare has_token.simps [simp del]

definition header_has_token :: "string \<Rightarrow> string \<Rightarrow> bool" where
  "header_has_token value token = has_token (to_lower token) value"

section \<open>Responses\<close>

definition http_reason :: "nat \<Rightarrow> string" where
  "http_reason status =
     (if status = 101 then ''Switching Protocols'' else if status = 200 then ''OK'' else if status = 400 then ''Bad Request''
      else if status = 403 then ''Forbidden'' else if status = 404 then ''Not Found''
      else if status = 405 then ''Method Not Allowed'' else if status = 426 then ''Upgrade Required''
      else if status = 431 then ''Request Header Fields Too Large'' else if status = 500 then ''Internal Server Error''
      else if status = 503 then ''Service Unavailable'' else ''Unknown'')"

definition http_response :: "nat \<Rightarrow> string \<Rightarrow> string \<Rightarrow> bool \<Rightarrow> (string \<times> string) list \<Rightarrow> string" where
  "http_response status content_type body head_only extra_headers =
     ''HTTP/1.1 '' @ dec_digits status @ '' '' @ http_reason status @ CRLF @
     (if content_type \<noteq> [] then ''Content-Type: '' @ content_type @ CRLF else []) @
     ''Content-Length: '' @ dec_digits (length body) @ CRLF @
     ''Cache-Control: no-store'' @ CRLF @
     ''X-Content-Type-Options: nosniff'' @ CRLF @
     concat (map (\<lambda>h. fst h @ '': '' @ snd h @ CRLF) extra_headers) @
     ''Connection: close'' @ CRLF @ CRLF @
     (if head_only then [] else body)"

end
