(* ===== verification/Http_Properties.thy ===== *)
theory Http_Properties
  imports Http
begin

text \<open>
  The request parser returns on every input although its loop is guarded only by positions; a request that is written
  line by line is read back; and a decision it has made stands when more bytes arrive.
\<close>

section \<open>The header lines\<close>

text \<open>\<open>stop\<close> is where the blank line of a request head begins.\<close>

lemma blank_line:
  assumes "find_text (CRLF @ CRLF) buf = Some stop"
  shows "occurs_at CRLF buf stop" "buf ! stop = CHR 0x0D" "stop + 4 \<le> length buf"
proof -
  have o: "occurs_at (CRLF @ CRLF) buf stop" using assms find_text_Some by blast
  from occurs_at_length [OF this] show len: "stop + 4 \<le> length buf" by (simp add: CRLF_def)
  have t: "take 4 (drop stop buf) = CRLF @ CRLF" using o by (simp add: occurs_at_def CRLF_def numeral_eq_Suc)
  then have "take 2 (take 4 (drop stop buf)) = CRLF" by (simp add: CRLF_def)
  then show "occurs_at CRLF buf stop" using len by (simp add: occurs_at_def CRLF_def numeral_eq_Suc)
  have "take 4 (drop stop buf) ! 0 = CHR 0x0D" by (simp add: t CRLF_def)
  with len show "buf ! stop = CHR 0x0D" by simp
qed

text \<open>The next line of a head ends at the blank line or more than one byte before it.\<close>

lemma next_line:
  assumes "find_text (CRLF @ CRLF) buf = Some stop" "pos \<le> stop"
  obtains e where "find_text_from CRLF buf pos = Some e" "pos \<le> e" "e + 2 \<le> stop \<or> e = stop"
proof -
  from find_text_from_Some [OF blank_line(1) [OF assms(1)] assms(2)]
  obtain e where e: "e \<le> stop" "pos \<le> e" "find_text_from CRLF buf pos = Some e" "occurs_at CRLF buf e" by blast
  have "e + 1 \<noteq> stop"
  proof
    assume "e + 1 = stop"
    moreover have "take 2 (drop e buf) = CRLF" "e + 2 \<le> length buf"
      using e(4) occurs_at_length [OF e(4)] by (simp_all add: occurs_at_def CRLF_def numeral_eq_Suc)
    then have "take 2 (drop e buf) ! 1 = CHR 0x0A" "e + 1 < length buf" by (simp_all add: CRLF_def)
    ultimately show False using blank_line(2) [OF assms(1)] by auto
  qed
  with e show thesis by (intro that [of e]) auto
qed

lemma header_lines_returns:
  assumes "find_text (CRLF @ CRLF) buf = Some stop" "pos \<le> stop \<or> pos = stop + 2"
  shows "\<exists>r. header_lines buf stop pos hs = Some r \<and> header_lines (buf @ x) stop pos hs = Some r"
  using assms(2)
proof (induction "stop + 2 - pos" arbitrary: pos hs rule: less_induct)
  case less
  show ?case
  proof (cases "pos \<le> stop")
    case True
    then obtain e where e: "find_text_from CRLF buf pos = Some e" "pos \<le> e" "e + 2 \<le> stop \<or> e = stop"
      using next_line [OF assms(1)] by blast
    have len: "stop + 4 \<le> length buf" by (rule blank_line(3) [OF assms(1)])
    then have e': "find_text_from CRLF (buf @ x) pos = Some e" "take (e - pos) (drop pos (buf @ x)) = take (e - pos) (drop pos buf)"
      using e True find_text_from_append [OF e(1)] by auto
    show ?thesis
    proof (cases "header_line (take (e - pos) (drop pos buf))")
      case None
      with True e e' show ?thesis by (simp add: header_lines.simps del: take_append drop_append)
    next
      case (Some h)
      have "\<exists>r. header_lines buf stop (e + 2) (hs @ [h]) = Some r \<and> header_lines (buf @ x) stop (e + 2) (hs @ [h]) = Some r"
        using e True by (intro less.hyps) auto
      with Some True e e' show ?thesis by (subst (1 2) header_lines.simps) (simp del: take_append drop_append)
    qed
  next
    case False
    with less.prems show ?thesis by (simp add: header_lines.simps)
  qed
qed

lemma first_line:
  assumes "find_text (CRLF @ CRLF) buf = Some stop"
  obtains e where "find_text CRLF buf = Some e" "e + 2 \<le> stop \<or> e = stop"
  using next_line [OF assms, of 0] by (auto simp: find_text_from_def)

text \<open>The parser returns, and what it has decided does not depend on what follows.\<close>

lemma parse_http_request_returns:
  "\<exists>r. parse_http_request buf m = Some r \<and> (r \<noteq> HttpNeedMore \<longrightarrow> parse_http_request (buf @ x) m = Some r)"
proof (cases "find_text (CRLF @ CRLF) buf")
  case None
  show ?thesis
  proof (cases "m < length buf")
    case True
    have "m < stop + 4" if "find_text (CRLF @ CRLF) (buf @ x) = Some stop" for stop
    proof (rule ccontr)
      assume "\<not> ?thesis"
      then have "stop + length (CRLF @ CRLF) \<le> length buf" using True by (simp add: CRLF_def)
      then have "occurs_at (CRLF @ CRLF) buf stop"
        using that occurs_at_append find_text_Some by blast
      with None show False by (simp add: find_text_None)
    qed
    with None True show ?thesis by (auto simp: parse_http_request_def split: option.splits)
  qed (use None in \<open>simp add: parse_http_request_def\<close>)
next
  case (Some stop)
  obtain e where e: "find_text CRLF buf = Some e" "e + 2 \<le> stop \<or> e = stop" using first_line [OF Some] by blast
  have "stop + 4 \<le> length buf" by (rule blank_line(3) [OF Some])
  then have "take e (buf @ x) = take e buf" using e(2) by auto
  moreover obtain r where "header_lines buf stop (e + 2) [] = Some r" "header_lines (buf @ x) stop (e + 2) [] = Some r"
    using header_lines_returns [OF Some, of "e + 2" "[]" x] e(2) by auto
  ultimately show ?thesis
    using Some find_text_append [OF Some, of x] e(1) find_text_append [OF e(1), of x]
    by (cases "request_line (take e buf)"; cases r) (auto simp: parse_http_request_def Let_def)
qed

lemma parse_http_request_consumed:
  "parse_http_request buf m = Some (HttpRequestAt req k) \<Longrightarrow> 4 \<le> k \<and> k \<le> length buf"
  using blank_line(3) by (auto simp: parse_http_request_def Let_def split: option.splits if_splits sum.splits)

section \<open>Requests line by line\<close>

definition head_text :: "string list \<Rightarrow> string" where
  "head_text lines = concat (map (\<lambda>l. l @ CRLF) lines) @ CRLF"

definition plain_line :: "string \<Rightarrow> bool" where
  "plain_line l \<longleftrightarrow> l \<noteq> [] \<and> CHR 0x0D \<notin> set l"

lemma find_text_line:
  "CHR 0x0D \<notin> set l \<Longrightarrow> find_text (CRLF @ p) (l @ CRLF @ s) =
     (if take (length p) s = p then Some (length l) else map_option (\<lambda>i. length l + 2 + i) (find_text (CRLF @ p) s))"
proof (induction l)
  case Nil
  show ?case
  proof (cases s)
    case Nil
    then show ?thesis by (cases p) (auto simp: CRLF_def)
  qed (auto simp: CRLF_def option.map_comp o_def)
next
  case (Cons c l)
  then have "c \<noteq> CHR 0x0D" by auto
  then have "take (length (CRLF @ p)) (c # l @ CRLF @ s) \<noteq> CRLF @ p" by (simp add: CRLF_def)
  with Cons show ?case by (auto simp: option.map_comp o_def)
qed

lemma find_line_end: "CHR 0x0D \<notin> set l \<Longrightarrow> find_text CRLF (l @ CRLF @ s) = Some (length l)"
  using find_text_line [of l "[]" s] by simp

lemma find_blank_line:
  "lines \<noteq> [] \<Longrightarrow> list_all plain_line lines \<Longrightarrow>
     find_text (CRLF @ CRLF) (head_text lines @ rest) = Some (length (head_text lines) - 4)"
proof (induction lines)
  case (Cons l ls)
  have l: "CHR 0x0D \<notin> set l" using Cons.prems by (simp add: plain_line_def)
  have eq: "head_text (l # ls) @ rest = l @ CRLF @ head_text ls @ rest" by (simp add: head_text_def)
  show ?case
  proof (cases ls)
    case Nil
    then show ?thesis
      unfolding eq using find_text_line [OF l, of CRLF "CRLF @ rest"] by (simp add: head_text_def CRLF_def)
  next
    case (Cons l' ls')
    have "take 2 (head_text ls @ rest) \<noteq> CRLF"
      using Cons.prems(2) Cons by (cases l') (auto simp: head_text_def plain_line_def CRLF_def)
    moreover have "find_text (CRLF @ CRLF) (head_text ls @ rest) = Some (length (head_text ls) - 4)"
      using Cons.IH Cons.prems Cons by simp
    moreover have "4 \<le> length (head_text ls)" using Cons by (simp add: head_text_def CRLF_def)
    moreover have "length (CRLF) = 2" by (simp add: CRLF_def)
    ultimately have "find_text (CRLF @ CRLF) (head_text (l # ls) @ rest) = Some (length l + 2 + (length (head_text ls) - 4))"
      unfolding eq find_text_line [OF l] by simp
    moreover have "length (head_text (l # ls)) = length l + 2 + length (head_text ls)" by (simp add: head_text_def CRLF_def)
    ultimately show ?thesis using \<open>4 \<le> length (head_text ls)\<close> by simp
  qed
qed simp

lemma header_lines_head:
  "list_all (\<lambda>l. plain_line l \<and> header_line l = Some (f l)) lines \<Longrightarrow> drop pos buf = head_text lines @ rest \<Longrightarrow>
     pos + length (head_text lines) = stop + 4 \<Longrightarrow>
     header_lines buf stop pos hs = Some (Inr (hs @ map f lines))"
proof (induction lines arbitrary: pos hs)
  case Nil
  then show ?case by (simp add: head_text_def CRLF_def header_lines.simps)
next
  case (Cons l ls)
  have eq: "drop pos buf = l @ CRLF @ head_text ls @ rest" using Cons.prems(2) by (simp add: head_text_def)
  have "CHR 0x0D \<notin> set l" using Cons.prems(1) by (simp add: plain_line_def)
  then have "find_text_from CRLF buf pos = Some (pos + length l)"
    using find_line_end by (simp add: find_text_from_def eq)
  moreover have "take (pos + length l - pos) (drop pos buf) = l" by (simp add: eq)
  moreover have "pos < stop + 2" using Cons.prems(3) by (simp add: head_text_def CRLF_def)
  moreover have "header_lines buf stop (pos + length l + 2) (hs @ [f l]) = Some (Inr ((hs @ [f l]) @ map f ls))"
  proof (rule Cons.IH)
    have "drop (pos + length l + 2) buf = drop (length l + 2) (drop pos buf)" by (simp add: add.commute add.left_commute)
    then show "drop (pos + length l + 2) buf = head_text ls @ rest" by (simp add: eq CRLF_def)
    show "pos + length l + 2 + length (head_text ls) = stop + 4"
      using Cons.prems(3) by (simp add: head_text_def CRLF_def)
  qed (use Cons.prems in simp)
  ultimately show ?case using Cons.prems(1) by (subst header_lines.simps) (simp add: add.assoc)
qed

lemma find_char_at [simp]: "c \<notin> set s \<Longrightarrow> find_char c (s @ c # t) = Some (length s)"
  by (simp add: find_char_def takeWhile_append2 takeWhile_append)

lemma find_char_none [simp]: "c \<notin> set s \<Longrightarrow> find_char c s = None"
  by (simp add: find_char_def)

text \<open>The parts of a request a client may send.\<close>

record RequestText =
  rt_method :: string
  rt_target :: string
  rt_version :: string
  rt_headers :: "(string \<times> string) list"

definition request_lines :: "RequestText \<Rightarrow> string list" where
  "request_lines t =
     (rt_method t @ '' '' @ rt_target t @ '' '' @ rt_version t) # map (\<lambda>(n, v). n @ '':'' @ v) (rt_headers t)"

definition sendable :: "RequestText \<Rightarrow> bool" where
  "sendable t \<longleftrightarrow>
     rt_method t \<noteq> [] \<and> rt_target t \<noteq> [] \<and> hd (rt_target t) = CHR ''/'' \<and> take 7 (rt_version t) = ''HTTP/1.'' \<and>
     {CHR '' '', CHR 0x0D} \<inter> (set (rt_method t) \<union> set (rt_target t) \<union> set (rt_version t)) = {} \<and>
     list_all (\<lambda>(n, v). n \<noteq> [] \<and> hd n \<noteq> CHR '' '' \<and> hd n \<noteq> CHR 0x09 \<and> {CHR '':'', CHR 0x0D} \<inter> set n = {} \<and> CHR 0x0D \<notin> set v)
       (rt_headers t)"

definition request_of :: "RequestText \<Rightarrow> HttpRequest" where
  "request_of t =
     \<lparr>rq_method = rt_method t, rq_target = rt_target t, rq_path = takeWhile (\<lambda>c. c \<noteq> CHR ''?'') (rt_target t),
      rq_version = rt_version t, rq_headers = map (\<lambda>(n, v). (to_lower n, trim v)) (rt_headers t)\<rparr>"

lemma request_line_text:
  assumes "sendable t"
  shows "request_line (rt_method t @ '' '' @ rt_target t @ '' '' @ rt_version t) = Some (request_of t\<lparr>rq_headers := []\<rparr>)"
proof -
  let ?m = "rt_method t" and ?t = "rt_target t" and ?v = "rt_version t"
  have free: "CHR '' '' \<notin> set ?m" "CHR '' '' \<notin> set ?t" "CHR '' '' \<notin> set ?v" using assms by (auto simp: sendable_def)
  then have "find_char (CHR '' '') (?m @ CHR '' '' # ?t @ CHR '' '' # ?v) = Some (length ?m)" by simp
  moreover have "find_char_from (CHR '' '') (?m @ CHR '' '' # ?t @ CHR '' '' # ?v) (length ?m + 1) = Some (length ?m + 1 + length ?t)"
    using free by (simp add: find_char_from_def)
  moreover have "find_char_from (CHR '' '') (?m @ CHR '' '' # ?t @ CHR '' '' # ?v) (length ?m + 1 + length ?t + 1) = None"
    using free by (simp add: find_char_from_def)
  moreover have "(case find_char (CHR ''?'') ?t of None \<Rightarrow> ?t | Some q \<Rightarrow> take q ?t) = takeWhile (\<lambda>c. c \<noteq> CHR ''?'') ?t"
  proof (cases "CHR ''?'' \<in> set ?t")
    case True
    have "take (length (takeWhile (\<lambda>c. c \<noteq> CHR ''?'') ?t)) ?t = takeWhile (\<lambda>c. c \<noteq> CHR ''?'') ?t"
      by (rule takeWhile_eq_take [symmetric])
    with True show ?thesis by (simp add: find_char_def)
  next
    case False
    then have "takeWhile (\<lambda>c. c \<noteq> CHR ''?'') ?t = ?t" by (intro takeWhile_eq_all_conv [THEN iffD2]) auto
    with find_char_none [OF False] show ?thesis by (simp only: option.case)
  qed
  ultimately show ?thesis
    using assms by (simp add: request_line_def Let_def request_of_def sendable_def)
qed

lemma parse_request_text:
  assumes "sendable t" "length (head_text (request_lines t)) \<le> m"
  shows "parse_http_request (head_text (request_lines t) @ rest) m =
    Some (HttpRequestAt (request_of t) (length (head_text (request_lines t))))"
proof -
  define line where "line = rt_method t @ '' '' @ rt_target t @ '' '' @ rt_version t"
  define fields where "fields = map (\<lambda>(n, v). n @ '':'' @ v) (rt_headers t)"
  define buf where "buf = head_text (line # fields) @ rest"
  have lines: "request_lines t = line # fields" by (simp add: request_lines_def line_def fields_def)
  have plain: "plain_line line" "list_all plain_line fields"
    using assms(1) by (auto simp: sendable_def plain_line_def line_def fields_def list_all_iff)
  have len: "4 \<le> length (head_text (line # fields))" by (simp add: head_text_def CRLF_def)
  have stop: "find_text (CRLF @ CRLF) buf = Some (length (head_text (line # fields)) - 4)"
    unfolding buf_def using plain by (intro find_blank_line) simp_all
  have buf: "buf = line @ CRLF @ head_text fields @ rest" by (simp add: buf_def head_text_def)
  have "find_text CRLF buf = Some (length line)" unfolding buf using plain(1) by (intro find_line_end) (simp add: plain_line_def)
  moreover have "take (length line) buf = line" by (simp add: buf)
  moreover have "header_lines buf (length (head_text (line # fields)) - 4) (length line + 2) [] =
      Some (Inr ([] @ map (\<lambda>l. case header_line l of Some h \<Rightarrow> h) fields))"
  proof (rule header_lines_head)
    show "drop (length line + 2) buf = head_text fields @ rest" by (simp add: buf CRLF_def)
    show "length line + 2 + length (head_text fields) = length (head_text (line # fields)) - 4 + 4"
      by (simp add: head_text_def CRLF_def)
    show "list_all (\<lambda>l. plain_line l \<and> header_line l = Some (case header_line l of Some h \<Rightarrow> h)) fields"
      using assms(1) plain(2) by (auto simp: list_all_iff fields_def sendable_def header_line_def nth_append hd_conv_nth)
  qed
  moreover have "map (\<lambda>l. case header_line l of Some h \<Rightarrow> h) fields = rq_headers (request_of t)"
    using assms(1) by (auto simp: list_all_iff fields_def sendable_def header_line_def request_of_def nth_append hd_conv_nth)
  moreover have "request_line line = Some (request_of t\<lparr>rq_headers := []\<rparr>)"
    unfolding line_def by (rule request_line_text [OF assms(1)])
  ultimately show ?thesis
    using assms(2) len stop unfolding lines buf_def [symmetric] by (simp add: parse_http_request_def)
qed

text \<open>C31: the request parser always returns, although the loop over the header lines is bounded by positions only; a
  request written line by line, of a permitted size, is read back field by field from the front of the input whatever
  follows it (names in lower case, values trimmed, the path without the query); and every strict prefix of it makes the parser ask for more.\<close>

theorem http_request_is_read_back:
  assumes "sendable t" "length (head_text (request_lines t)) \<le> max_header_bytes"
  defines "head \<equiv> head_text (request_lines t)"
  shows "(\<forall>buf. \<exists>r. parse_http_request buf max_header_bytes = Some r) \<and>
    parse_http_request (head @ rest) max_header_bytes = Some (HttpRequestAt (request_of t) (length head)) \<and>
    (\<forall>k<length head. parse_http_request (take k head) max_header_bytes = Some HttpNeedMore)"
proof (intro conjI allI impI)
  show "\<exists>r. parse_http_request buf max_header_bytes = Some r" for buf
    using parse_http_request_returns by blast
  show "parse_http_request (head @ rest) max_header_bytes = Some (HttpRequestAt (request_of t) (length head))"
    unfolding head_def using assms(1,2) by (rule parse_request_text)
  fix k assume k: "k < length head"
  obtain r where r: "parse_http_request (take k head) max_header_bytes = Some r"
    "r \<noteq> HttpNeedMore \<longrightarrow> parse_http_request (take k head @ drop k head) max_header_bytes = Some r"
    using parse_http_request_returns by blast
  have whole: "parse_http_request head max_header_bytes = Some (HttpRequestAt (request_of t) (length head))"
    using parse_request_text [OF assms(1,2), of "[]"] by (simp add: head_def)
  have "r \<noteq> HttpRequestAt req (length head)" for req
    using r(1) parse_http_request_consumed [of "take k head" max_header_bytes req "length head"] k by auto
  with r whole show "parse_http_request (take k head) max_header_bytes = Some HttpNeedMore" by auto
qed

lemma http_request_is_read_back_witness:
  "parse_http_request (head_text [''GET /ws?a HTTP/1.1'', ''Host: x'']) 16384 =
     Some (HttpRequestAt \<lparr>rq_method = ''GET'', rq_target = ''/ws?a'', rq_path = ''/ws'', rq_version = ''HTTP/1.1'',
       rq_headers = [(''host'', ''x'')]\<rparr> 31)"
proof -
  let ?t = "\<lparr>rt_method = ''GET'', rt_target = ''/ws?a'', rt_version = ''HTTP/1.1'', rt_headers = [(''Host'', '' x'')]\<rparr>"
  have lines: "request_lines ?t = [''GET /ws?a HTTP/1.1'', ''Host: x'']" by (simp add: request_lines_def)
  have req: "request_of ?t = \<lparr>rq_method = ''GET'', rq_target = ''/ws?a'', rq_path = ''/ws'', rq_version = ''HTTP/1.1'',
       rq_headers = [(''host'', ''x'')]\<rparr>" by code_simp
  have "length (head_text (request_lines ?t)) = 31" by (simp add: lines head_text_def CRLF_def)
  moreover have "sendable ?t" by (simp add: sendable_def)
  ultimately show ?thesis
    using http_request_is_read_back [of ?t 16384 "[]"] by (simp add: req lines)
qed

end
