(* ===== verification/Control_Server.thy ===== *)
theory Control_Server
  imports Json_Value Http Websocket_Properties Platform
begin

text \<open>
  The server of the control tool: \<open>tools/ctl/backend/control_server.hpp\<close> and \<open>control_server.cpp\<close>. The sockets, the
  clocks, ZeroMQ, the files of the frontend and the shutdown flag are the parameter \<open>env\<close>, functions on a world state \<open>'w\<close>.
  A method on a client takes the client, the server and the world and returns them; it never looks at the list of clients (but for
  its length, in a log line). What may loop without a bound (EINTR) or goes through the JSON parser returns an option. Log output and
  the receive buffers are left out.
\<close>

section \<open>State\<close>

text \<open>One \<open>recv\<close>: the bytes that came, none of them at the end of the stream.\<close>

datatype ClientRecv = Received string | RecvError Errno

text \<open>One \<open>zmq_poll\<close>: the number of sockets with events, whether the statistics socket and the listening socket are
  readable, and for each client whether it is readable, writable and in error.\<close>

datatype ServerPoll = ServerPollFailed Errno | ServerReady nat bool bool "(bool \<times> bool \<times> bool) list"

text \<open>The files of the frontend that the build compiles in are \<open>ct_assets\<close>: path, content type and content.\<close>

record 'w ControlEnv =
  ct_monotonic :: "'w \<Rightarrow> u64 \<times> 'w"
  ct_realtime :: "'w \<Rightarrow> u64 \<times> 'w"
  ct_recv :: "int \<Rightarrow> 'w \<Rightarrow> ClientRecv \<times> 'w"
  ct_send :: "int \<Rightarrow> string \<Rightarrow> 'w \<Rightarrow> SendResult \<times> 'w"
  ct_accept :: "int \<Rightarrow> 'w \<Rightarrow> (Errno + int \<times> u32 \<times> u16) \<times> 'w"
  ct_close :: "int \<Rightarrow> 'w \<Rightarrow> 'w"
  ct_recv_stats :: "'w \<Rightarrow> RecvResult \<times> 'w"
  ct_send_command :: "string \<Rightarrow> bool \<Rightarrow> 'w \<Rightarrow> bool \<times> 'w"
  ct_poll :: "int \<Rightarrow> (int \<times> bool) list \<Rightarrow> int \<Rightarrow> 'w \<Rightarrow> ServerPoll \<times> 'w"
  ct_shutdown_requested :: "'w \<Rightarrow> bool"
  ct_read_file :: "string \<Rightarrow> 'w \<Rightarrow> string option \<times> 'w"
  ct_zmq_errno :: "'w \<Rightarrow> Errno"
  ct_zmq_strerror :: "Errno \<Rightarrow> string"
  ct_strerror :: "Errno \<Rightarrow> string"
  ct_ipv4_to_string :: "u32 \<Rightarrow> string"
  ct_inet_pton :: "string \<Rightarrow> u32 option"
  ct_assets :: "(string \<times> string \<times> string) list"
  ct_version :: string
  ct_zmq_ctx_new :: "'w \<Rightarrow> Errno option \<times> 'w"
  ct_zmq_sub :: "string \<Rightarrow> 'w \<Rightarrow> Errno option \<times> 'w"
  ct_zmq_connect_sub :: "string \<Rightarrow> 'w \<Rightarrow> Errno option \<times> 'w"
  ct_zmq_pub :: "'w \<Rightarrow> Errno option \<times> 'w"
  ct_zmq_attach_pub :: "bool \<Rightarrow> string \<Rightarrow> 'w \<Rightarrow> Errno option \<times> 'w"
  ct_zmq_teardown :: "bool \<Rightarrow> bool \<Rightarrow> bool \<Rightarrow> 'w \<Rightarrow> 'w"
  ct_socket :: "'w \<Rightarrow> (Errno + int) \<times> 'w"
  ct_bind :: "int \<Rightarrow> u32 \<Rightarrow> u16 \<Rightarrow> 'w \<Rightarrow> Errno option \<times> 'w"
  ct_listen :: "int \<Rightarrow> 'w \<Rightarrow> Errno option \<times> 'w"
  ct_bound_port :: "int \<Rightarrow> 'w \<Rightarrow> u16 \<times> 'w"

record ControlServerConfig =
  http_host :: string
  http_port :: u16
  update_interval_ms :: int
  stale_after_ms :: int
  cc_stats_endpoint :: string
  cc_stats_topic :: string
  cc_command_endpoint :: string
  command_connect :: bool
  cc_command_topic :: string
  web_root :: string
  max_clients :: nat

definition default_ControlServerConfig :: ControlServerConfig where
  "default_ControlServerConfig =
     \<lparr>http_host = ''127.0.0.1'', http_port = 8083, update_interval_ms = 1000, stale_after_ms = 3000,
      cc_stats_endpoint = ''tcp://127.0.0.1:5556'', cc_stats_topic = ''stats'',
      cc_command_endpoint = ''tcp://127.0.0.1:5557'', command_connect = False, cc_command_topic = [], web_root = [],
      max_clients = 32\<rparr>"

record Client =
  c_fd :: int
  c_peer :: string
  c_websocket :: bool
  close_after_write :: bool
  c_dead :: bool
  c_in :: string
  c_out :: string
  c_message :: string
  in_message :: bool

definition new_Client :: Client where
  "new_Client = \<lparr>c_fd = -1, c_peer = [], c_websocket = False, close_after_write = False, c_dead = False, c_in = [],
     c_out = [], c_message = [], in_message = False\<rparr>"

record ControlServer =
  cs_cfg :: ControlServerConfig
  has_ctx :: bool
  has_stats_sub :: bool
  has_command_pub :: bool
  listen_fd :: int
  bound_port :: u16
  cs_clients :: "Client list"
  latest_stats :: string
  latest_stats_ns :: u64
  stats_received :: u64
  stats_invalid :: u64
  updates_sent :: u64
  next_update_ns :: u64
  push_on_next_stats :: bool

definition new_ControlServer :: "ControlServerConfig \<Rightarrow> ControlServer" where
  "new_ControlServer cfg =
     \<lparr>cs_cfg = cfg, has_ctx = False, has_stats_sub = False, has_command_pub = False, listen_fd = -1, bound_port = 0,
      cs_clients = [], latest_stats = [], latest_stats_ns = 0, stats_received = 0, stats_invalid = 0, updates_sent = 0,
      next_update_ns = 0, push_on_next_stats = False\<rparr>"

definition kMaxHeaderBytes :: nat where [const_defs]: "kMaxHeaderBytes = 16 * 1024"
definition kMaxWsMessage :: nat where [const_defs]: "kMaxWsMessage = 64 * 1024"
definition kMaxOutputBacklog :: nat where [const_defs]: "kMaxOutputBacklog = 1024 * 1024"
definition kProtocolVersion :: int where [const_defs]: "kProtocolVersion = 1"

definition text_plain :: string where
  "text_plain = ''text/plain; charset=utf-8''"

text \<open>\<open>c.out += s\<close>.\<close>

definition queue :: "string \<Rightarrow> Client \<Rightarrow> Client" where
  "queue s c = c\<lparr>c_out := c_out c @ s\<rparr>"

section \<open>Messages to the browser\<close>

text \<open>Same-origin check of an upgrade.\<close>

definition origin_allowed :: "HttpRequest \<Rightarrow> bool" where
  "origin_allowed req =
     (if \<not> has_header req ''origin'' then True
      else let origin = header req ''origin'' in
        case find_text ''://'' origin of
          None \<Rightarrow> False
        | Some p \<Rightarrow> to_lower (drop (p + 3) origin) = to_lower (header req ''host''))"

fun write_json_number :: "Double \<Rightarrow> JsonWriter \<Rightarrow> JsonWriter" where
  "write_json_number (Finite v) j =
     (if of_int \<lfloor>v\<rfloor> = v \<and> \<bar>v\<bar> < 9 * 10 ^ 15 then value_i64 (of_int \<lfloor>v\<rfloor>) j else value_double (Finite v) j)"
| "write_json_number (Infinite neg) j = value_double (Infinite neg) j"

definition hello_json :: "'w ControlEnv \<Rightarrow> ControlServer \<Rightarrow> string" where
  "hello_json env sv =
     (let cfg = cs_cfg sv;
          j = begin_object new_JsonWriter;
          j = value_string ''hello'' (key ''type'' j);
          j = value_i64 (of_int kProtocolVersion) (key ''protocol_version'' j);
          j = value_string (ct_version env) (key ''tool_version'' j);
          j = value_i64 (of_int (update_interval_ms cfg)) (key ''update_interval_ms'' j);
          j = value_i64 (of_int (stale_after_ms cfg)) (key ''stale_after_ms'' j);
          j = value_string (cc_stats_endpoint cfg) (key ''stats_endpoint'' j);
          j = value_string (cc_command_endpoint cfg) (key ''command_endpoint'' j);
          j = end_object j
      in j_out j)"

definition stats_envelope :: "'w ControlEnv \<Rightarrow> ControlServer \<Rightarrow> 'w \<Rightarrow> string \<times> ControlServer \<times> 'w" where
  "stats_envelope env sv w =
     (let (now, w) = ct_monotonic env w;
          have_stats = (latest_stats_ns sv \<noteq> 0);
          age_ms = (if have_stats then (now - latest_stats_ns sv) div kNsPerMs else 0);
          j = begin_object new_JsonWriter;
          j = value_string ''stats'' (key ''type'' j);
          sv = sv\<lparr>updates_sent := updates_sent sv + 1\<rparr>;
          j = value_u64 (updates_sent sv) (key ''update'' j);
          (real, w) = ct_realtime env w;
          j = value_u64 real (key ''server_time_ns'' j);
          j = value_bool (have_stats \<and> age_ms \<le> of_int (stale_after_ms (cs_cfg sv))) (key ''receiver_online'' j);
          j = key ''stats_age_ms'' j;
          j = (if have_stats then value_u64 age_ms j else value_null j);
          j = value_u64 (stats_received sv) (key ''stats_received'' j);
          j = key ''stats'' j;
          j = (if have_stats then raw (latest_stats sv) j else value_null j);
          j = end_object j
      in (j_out j, sv, w))"

definition ws_send :: "string \<Rightarrow> Client \<Rightarrow> Client" where
  "ws_send s c = queue (ws_encode_frame kText s) c"

definition ws_fail :: "u16 \<Rightarrow> string \<Rightarrow> Client \<Rightarrow> Client" where
  "ws_fail code reason c =
     (queue (ws_encode_frame kClose (ws_close_payload code reason)) c)\<lparr>close_after_write := True\<rparr>"

section \<open>Commands\<close>

text \<open>The boolean says that the command went out; the text is the error.\<close>

definition ctl_send_command ::
  "'w ControlEnv \<Rightarrow> string \<Rightarrow> ControlServer \<Rightarrow> 'w \<Rightarrow> bool \<times> string \<times> 'w"
where
  "ctl_send_command env command sv w =
     (let topic = cc_command_topic (cs_cfg sv);
          frames = (if topic \<noteq> [] then [topic] else []) @ [command]
      in case zmq_send_frames (ct_send_command env) frames w of
           (False, w) \<Rightarrow> (False, ct_zmq_strerror env (ct_zmq_errno env w), w)
         | (True, w) \<Rightarrow> (True, [], w))"

text \<open>What a message asks for: its id, the command (empty if there is none) and the error.\<close>

definition record_request :: "Value \<Rightarrow> string \<times> string" where
  "record_request msg =
     (case get msg ''type'' of
        Some (VString t) \<Rightarrow>
          if t = ''record'' then
            (case get msg ''enabled'' of
               Some (VBool enabled) \<Rightarrow> (if enabled then ''record on'' else ''record off'', [])
             | _ \<Rightarrow> ([], [CHR 0x22] @ ''record'' @ [CHR 0x22] @ '' needs a boolean '' @ [CHR 0x22] @ ''enabled'' @ [CHR 0x22]))
          else ([], quoted_in ''unknown message type '' t [])
      | _ \<Rightarrow> ([], ''missing '' @ [CHR 0x22] @ ''type'' @ [CHR 0x22]))"

definition ws_request :: "string \<Rightarrow> (Value option \<times> string \<times> string) option" where
  "ws_request msg_text =
     (case parse msg_text 64 of
        None \<Rightarrow> None
      | Some (Inl e) \<Rightarrow> Some (None, [], ''invalid JSON: '' @ e)
      | Some (Inr (VObject kvs)) \<Rightarrow> Some (get (VObject kvs) ''id'', record_request (VObject kvs))
      | Some (Inr _) \<Rightarrow> Some (None, [], ''message must be a JSON object''))"

definition write_id :: "Value option \<Rightarrow> JsonWriter \<Rightarrow> JsonWriter" where
  "write_id ident j =
     (case ident of Some (VNumber v) \<Rightarrow> write_json_number v j | Some (VString s) \<Rightarrow> value_string s j | _ \<Rightarrow> value_null j)"

definition command_result :: "Value option \<Rightarrow> string \<Rightarrow> bool \<Rightarrow> string \<Rightarrow> string" where
  "command_result ident command sent err =
     (let j = begin_object new_JsonWriter;
          j = value_string ''command_result'' (key ''type'' j);
          j = write_id ident (key ''id'' j);
          j = value_string command (key ''command'' j);
          j = value_bool sent (key ''ok'' j);
          j = value_string err (key ''error'' j);
          j = end_object j
      in j_out j)"

definition handle_ws_message ::
  "'w ControlEnv \<Rightarrow> string \<Rightarrow> Client \<Rightarrow> ControlServer \<Rightarrow> 'w \<Rightarrow> (Client \<times> ControlServer \<times> 'w) option"
where
  "handle_ws_message env msg_text c sv w =
     (case ws_request msg_text of
        None \<Rightarrow> None
      | Some (ident, command, err) \<Rightarrow>
          let (sent, err, sv, w) =
            (if command \<noteq> [] then
               (case ctl_send_command env command sv w of
                  (True, _, w) \<Rightarrow> (True, err, sv\<lparr>push_on_next_stats := True\<rparr>, w)
                | (False, err, w) \<Rightarrow> (False, err, sv, w))
             else (False, err, sv, w))
          in Some (ws_send (command_result ident command sent err) c, sv, w))"

section \<open>Frames of a WebSocket client\<close>

text \<open>The payload joins the message.\<close>

definition ws_append :: "WsFrame \<Rightarrow> Client \<Rightarrow> Client" where
  "ws_append f c =
     (let c = (if ws_opcode f = kText then c\<lparr>c_message := []\<rparr> else c)
      in c\<lparr>c_message := c_message c @ ws_payload f, in_message := \<not> ws_fin f\<rparr>)"

definition ws_text ::
  "'w ControlEnv \<Rightarrow> WsFrame \<Rightarrow> Client \<Rightarrow> ControlServer \<Rightarrow> 'w \<Rightarrow> (Client \<times> ControlServer \<times> 'w) option"
where
  "ws_text env f c sv w =
     (if (ws_opcode f = kText) = in_message c then Some (ws_fail kProtocolError ''unexpected continuation state'' c, sv, w)
      else
        let c = ws_append f c
        in if kMaxWsMessage < length (c_message c) then Some (ws_fail kTooBig ''message too large'' c, sv, w)
           else if ws_fin f then
             (case handle_ws_message env (c_message c) c sv w of
                None \<Rightarrow> None
              | Some (c, sv, w) \<Rightarrow> Some (c\<lparr>c_message := []\<rparr>, sv, w))
           else Some (c, sv, w))"

text \<open>The body of the loop behind the parser. Each \<open>return\<close> of it has set \<open>close_after_write\<close>, which ends the loop.\<close>

definition ws_frame ::
  "'w ControlEnv \<Rightarrow> WsFrame \<Rightarrow> Client \<Rightarrow> ControlServer \<Rightarrow> 'w \<Rightarrow> (Client \<times> ControlServer \<times> 'w) option"
where
  "ws_frame env f c sv w =
     (if ws_opcode f = kPing then Some (queue (ws_encode_frame kPong (ws_payload f)) c, sv, w)
      else if ws_opcode f = kPong then Some (c, sv, w)
      else if ws_opcode f = kClose then
        Some ((queue (ws_encode_frame kClose (take 2 (ws_payload f))) c)\<lparr>close_after_write := True\<rparr>, sv, w)
      else if ws_opcode f = kBinary then
        Some (ws_fail kUnsupportedData ''binary messages are not supported'' c, sv, w)
      else if ws_opcode f = kText \<or> ws_opcode f = kContinuation then ws_text env f c sv w
      else Some (c, sv, w))"

text \<open>What a client sends and the server keeps of the connection is not touched by the replies.\<close>

definition same_input :: "Client \<Rightarrow> Client \<Rightarrow> bool" where
  "same_input c c' \<longleftrightarrow> c_in c' = c_in c \<and> c_dead c' = c_dead c \<and> c_fd c' = c_fd c \<and> c_websocket c' = c_websocket c"

lemma same_input_intros [intro, simp]:
  "same_input c c" "same_input c (ws_send s c)" "same_input c (ws_fail code reason c)" "same_input c (queue s c)"
  "same_input c (c\<lparr>c_message := m\<rparr>)" "same_input c (c\<lparr>close_after_write := x\<rparr>)" "same_input c (c\<lparr>in_message := x\<rparr>)"
  by (simp_all add: same_input_def ws_send_def ws_fail_def queue_def)

lemma handle_ws_message_input: "handle_ws_message env m c sv w = Some (c', sv', w') \<Longrightarrow> same_input c c'"
  by (auto simp: handle_ws_message_def split: option.splits prod.splits)

lemma ws_frame_input: "ws_frame env f c sv w = Some (c', sv', w') \<Longrightarrow> same_input c c'"
  by (auto simp: ws_frame_def ws_text_def ws_append_def Let_def same_input_def ws_fail_def queue_def
      dest!: handle_ws_message_input split: if_splits option.splits prod.splits)

function handle_ws_frames ::
  "'w ControlEnv \<Rightarrow> Client \<Rightarrow> ControlServer \<Rightarrow> 'w \<Rightarrow> (Client \<times> ControlServer \<times> 'w) option"
where
  "handle_ws_frames env c sv w =
     (if c_dead c \<or> close_after_write c then Some (c, sv, w)
      else case ws_parse_frame (c_in c) kMaxWsMessage of
        WsNeedMore \<Rightarrow> Some (c, sv, w)
      | WsError err \<Rightarrow> Some (ws_fail (if find_text ''exceeds'' err \<noteq> None then kTooBig else kProtocolError) err c, sv, w)
      | WsFrameAt f consumed \<Rightarrow>
          (case ws_frame env f (c\<lparr>c_in := drop consumed (c_in c)\<rparr>) sv w of
             None \<Rightarrow> None
           | Some (c, sv, w) \<Rightarrow> handle_ws_frames env c sv w))"
  by pat_completeness auto
termination
proof (relation "measure (\<lambda>(env, c, sv, w). length (c_in c))")
  fix env :: "'w ControlEnv" and c c' :: Client and sv sv' and w w' :: 'w and f consumed r r'
  assume "ws_parse_frame (c_in c) kMaxWsMessage = WsFrameAt f consumed"
    and "ws_frame env f (c\<lparr>c_in := drop consumed (c_in c)\<rparr>) sv w = Some r" "(c', r') = r" "(sv', w') = r'"
  then show "((env, c', sv', w'), (env, c, sv, w)) \<in> measure (\<lambda>(env, c, sv, w). length (c_in c))"
    using ws_parse_frame_consumed [of "c_in c" kMaxWsMessage f consumed] ws_frame_input [of env f _ sv w c' sv' w']
    by (fastforce simp: same_input_def)
qed simp

declare handle_ws_frames.simps [simp del]

section \<open>Requests\<close>

text \<open>The body and the content type of a frontend file, embedded or from \<open>web_root\<close>.\<close>

fun find_asset :: "(string \<times> string \<times> string) list \<Rightarrow> string \<Rightarrow> (string \<times> string) option" where
  "find_asset [] path = None"
| "find_asset ((asset_path, content_type, data) # as) path =
     (if path \<noteq> asset_path then find_asset as path else Some (data, content_type))"

definition load_asset ::
  "'w ControlEnv \<Rightarrow> ControlServer \<Rightarrow> string \<Rightarrow> 'w \<Rightarrow> (string \<times> string) option \<times> 'w"
where
  "load_asset env sv path w =
     (case find_asset (ct_assets env) path of
        None \<Rightarrow> (None, w)
      | Some (data, content_type) \<Rightarrow>
          if web_root (cs_cfg sv) \<noteq> [] then
            (case ct_read_file env (web_root (cs_cfg sv) @ path) w of
               (Some body, w) \<Rightarrow> (Some (body, content_type), w)
             | (None, w) \<Rightarrow> (Some (data, content_type), w))
          else (Some (data, content_type), w))"

definition content_security :: "(string \<times> string) list" where
  "content_security = [(''Content-Security-Policy'',
     quoted_in ''default-src '' ''self'' (quoted_in ''; connect-src '' ''self'' (quoted_in '' ws: wss:; frame-ancestors '' ''none'' [])))]"

definition serve_http ::
  "'w ControlEnv \<Rightarrow> HttpRequest \<Rightarrow> Client \<Rightarrow> ControlServer \<Rightarrow> 'w \<Rightarrow> Client \<times> ControlServer \<times> 'w"
where
  "serve_http env req c sv w =
     (let c = c\<lparr>close_after_write := True\<rparr>;
          head = (rq_method req = ''HEAD'')
      in if rq_method req \<noteq> ''GET'' \<and> \<not> head
         then (queue (http_response 405 text_plain (''method not allowed'' @ [CHR 0x0A]) False [(''Allow'', ''GET, HEAD'')]) c, sv, w)
         else if rq_path req = ''/api/stats'' then
           (case stats_envelope env sv w of
              (body, sv, w) \<Rightarrow> (queue (http_response 200 ''application/json'' body head []) c, sv, w))
         else
           (case load_asset env sv (if rq_path req = ''/'' then ''/index.html'' else rq_path req) w of
              (None, w) \<Rightarrow> (queue (http_response 404 text_plain (''not found'' @ [CHR 0x0A]) head []) c, sv, w)
            | (Some (body, content_type), w) \<Rightarrow>
                (queue (http_response 200 content_type body head content_security) c, sv, w)))"

text \<open>Why an upgrade is refused: the status, the text and further headers.\<close>

definition upgrade_error :: "HttpRequest \<Rightarrow> (nat \<times> string \<times> (string \<times> string) list) option" where
  "upgrade_error req =
     (if rq_method req \<noteq> ''GET'' then Some (405, ''WebSocket upgrade requires GET'', [])
      else if \<not> header_has_token (header req ''upgrade'') ''websocket'' \<or> \<not> header_has_token (header req ''connection'') ''upgrade''
      then Some (426, ''WebSocket upgrade required'', [(''Upgrade'', ''websocket'')])
      else if header req ''sec-websocket-version'' \<noteq> ''13''
      then Some (426, ''unsupported WebSocket version'', [(''Sec-WebSocket-Version'', ''13'')])
      else if length (header req ''sec-websocket-key'') \<noteq> 24
      then Some (400, ''missing or invalid Sec-WebSocket-Key'', [])
      else if \<not> origin_allowed req
      then Some (403, ''cross-origin WebSocket not allowed (Origin '' @ header req ''origin'' @ '')'', [])
      else None)"

definition switching_protocols :: "string \<Rightarrow> string" where
  "switching_protocols client_key =
     ''HTTP/1.1 101 Switching Protocols'' @ CRLF @ ''Upgrade: websocket'' @ CRLF @ ''Connection: Upgrade'' @ CRLF @
     ''Sec-WebSocket-Accept: '' @ websocket_accept_key client_key @ CRLF @ CRLF"

definition upgrade_websocket ::
  "'w ControlEnv \<Rightarrow> HttpRequest \<Rightarrow> Client \<Rightarrow> ControlServer \<Rightarrow> 'w \<Rightarrow> (Client \<times> ControlServer \<times> 'w) option"
where
  "upgrade_websocket env req c sv w =
     (case upgrade_error req of
        Some (status, why, extra) \<Rightarrow>
          Some ((queue (http_response status text_plain (why @ [CHR 0x0A]) False extra) c)\<lparr>close_after_write := True\<rparr>, sv, w)
      | None \<Rightarrow>
          let c = (queue (switching_protocols (header req ''sec-websocket-key'')) c)\<lparr>c_websocket := True\<rparr>;
              c = ws_send (hello_json env sv) c;
              (body, sv, w) = stats_envelope env sv w;
              c = ws_send body c
          in if c_in c \<noteq> [] then handle_ws_frames env c sv w else Some (c, sv, w))"

definition handle_http ::
  "'w ControlEnv \<Rightarrow> Client \<Rightarrow> ControlServer \<Rightarrow> 'w \<Rightarrow> (Client \<times> ControlServer \<times> 'w) option"
where
  "handle_http env c sv w =
     (case parse_http_request (c_in c) kMaxHeaderBytes of
        None \<Rightarrow> None
      | Some HttpNeedMore \<Rightarrow> Some (c, sv, w)
      | Some (HttpError err) \<Rightarrow>
          let status = (if find_text ''too large'' err \<noteq> None then 431 else 400)
          in Some ((queue (http_response status text_plain (err @ [CHR 0x0A]) False []) c)\<lparr>close_after_write := True\<rparr>, sv, w)
      | Some (HttpRequestAt req consumed) \<Rightarrow>
          let c = c\<lparr>c_in := drop consumed (c_in c)\<rparr>
          in if rq_path req = ''/ws'' then upgrade_websocket env req c sv w else Some (serve_http env req c sv w))"

section \<open>Clients\<close>

text \<open>The boolean says that the stream has ended. What comes after the decision to close is ignored.\<close>

partial_function (option) recv_client :: "'w ControlEnv \<Rightarrow> Client \<Rightarrow> 'w \<Rightarrow> (bool \<times> Client \<times> 'w) option" where
  "recv_client env c w =
     (case ct_recv env (c_fd c) w of
        (Received data, w) \<Rightarrow>
          if data \<noteq> [] then recv_client env (if \<not> close_after_write c then c\<lparr>c_in := c_in c @ data\<rparr> else c) w
          else Some (True, c\<lparr>c_dead := True\<rparr>, w)
      | (RecvError err, w) \<Rightarrow>
          if err = E_INTR then recv_client env c w
          else Some (False, if err \<noteq> E_AGAIN then c\<lparr>c_dead := True\<rparr> else c, w))"

text \<open>What a wake-up does with the bytes that have come.\<close>

definition handle_input ::
  "'w ControlEnv \<Rightarrow> Client \<Rightarrow> ControlServer \<Rightarrow> 'w \<Rightarrow> (Client \<times> ControlServer \<times> 'w) option"
where
  "handle_input env c sv w =
     (if close_after_write c then Some (c, sv, w)
      else if c_websocket c then handle_ws_frames env c sv w
      else handle_http env c sv w)"

definition read_client ::
  "'w ControlEnv \<Rightarrow> Client \<Rightarrow> ControlServer \<Rightarrow> 'w \<Rightarrow> (Client \<times> ControlServer \<times> 'w) option"
where
  "read_client env c sv w =
     (case recv_client env c w of
        None \<Rightarrow> None
      | Some (True, c, w) \<Rightarrow> Some (c, sv, w)
      | Some (False, c, w) \<Rightarrow> handle_input env c sv w)"

partial_function (option) write_client :: "'w ControlEnv \<Rightarrow> Client \<Rightarrow> 'w \<Rightarrow> (Client \<times> 'w) option" where
  "write_client env c w =
     (if c_out c = [] then Some (if close_after_write c then c\<lparr>c_dead := True\<rparr> else c, w)
      else case ct_send env (c_fd c) (c_out c) w of
        (Sent n, w) \<Rightarrow>
          if 0 < n then write_client env (c\<lparr>c_out := drop n (c_out c)\<rparr>) w else Some (c\<lparr>c_dead := True\<rparr>, w)
      | (SendFailed err, w) \<Rightarrow>
          if err = E_INTR then write_client env c w
          else Some (if err = E_AGAIN then c else c\<lparr>c_dead := True\<rparr>, w))"

definition close_client :: "'w ControlEnv \<Rightarrow> Client \<Rightarrow> 'w \<Rightarrow> Client \<times> 'w" where
  "close_client env c w = (if c_fd c < 0 then (c, w) else (c\<lparr>c_fd := -1\<rparr>, ct_close env (c_fd c) w))"

definition accepted_client :: "'w ControlEnv \<Rightarrow> ControlServer \<Rightarrow> int \<times> u32 \<times> u16 \<Rightarrow> Client" where
  "accepted_client env sv = (\<lambda>(fd, addr, port).
     let c = new_Client\<lparr>c_fd := fd, c_peer := ct_ipv4_to_string env addr @ '':'' @ dec_digits (unat port)\<rparr>
     in if max_clients (cs_cfg sv) \<le> length (cs_clients sv)
        then c\<lparr>c_out := http_response 503 text_plain (''too many clients'' @ [CHR 0x0A]) False [], close_after_write := True\<rparr>
        else c)"

text \<open>Each new client goes behind the others; the loop ends with an error of \<open>accept4\<close>.\<close>

partial_function (option) accept_clients ::
  "'w ControlEnv \<Rightarrow> ControlServer \<Rightarrow> 'w \<Rightarrow> (ControlServer \<times> 'w) option"
where
  "accept_clients env sv w =
     (case ct_accept env (listen_fd sv) w of
        (Inl err, w) \<Rightarrow> Some (sv, w)
      | (Inr peer, w) \<Rightarrow>
          accept_clients env (sv\<lparr>cs_clients := cs_clients sv @ [accepted_client env sv peer]\<rparr>) w)"

section \<open>Statistics\<close>

text \<open>The text of the frame is made for the first client that gets it.\<close>

fun broadcast_loop ::
  "'w ControlEnv \<Rightarrow> string \<Rightarrow> Client list \<Rightarrow> ControlServer \<Rightarrow> 'w \<Rightarrow> Client list \<times> ControlServer \<times> 'w"
where
  "broadcast_loop env frame [] sv w = ([], sv, w)"
| "broadcast_loop env frame (c # cs) sv w =
     (if \<not> c_websocket c \<or> c_dead c \<or> close_after_write c \<or> kMaxOutputBacklog < length (c_out c)
      then (case broadcast_loop env frame cs sv w of (cs, sv, w) \<Rightarrow> (c # cs, sv, w))
      else
        let (frame, sv, w) =
          (if frame = [] then (case stats_envelope env sv w of (txt, sv, w) \<Rightarrow> (ws_encode_frame kText txt, sv, w))
           else (frame, sv, w))
        in case broadcast_loop env frame cs sv w of (cs, sv, w) \<Rightarrow> (queue frame c # cs, sv, w))"

definition broadcast_stats :: "'w ControlEnv \<Rightarrow> ControlServer \<Rightarrow> 'w \<Rightarrow> ControlServer \<times> 'w" where
  "broadcast_stats env sv w =
     (case broadcast_loop env [] (cs_clients sv) sv w of (cs, sv, w) \<Rightarrow> (sv\<lparr>cs_clients := cs\<rparr>, w))"

definition is_object :: "Value \<Rightarrow> bool" where
  "is_object v = (case v of VObject _ \<Rightarrow> True | _ \<Rightarrow> False)"

text \<open>One statistics message: \<open>[json]\<close> or \<open>[topic][json]\<close>. The boolean says that it was accepted.\<close>

definition take_stats ::
  "'w ControlEnv \<Rightarrow> byte list list \<Rightarrow> ControlServer \<Rightarrow> 'w \<Rightarrow> (bool \<times> ControlServer \<times> 'w) option"
where
  "take_stats env frames sv w =
     (let txt = map to_char (if 2 \<le> length frames then frames ! 1 else frames ! 0) in
      case parse txt 64 of
        None \<Rightarrow> None
      | Some r \<Rightarrow>
          if (case r of Inl _ \<Rightarrow> True | Inr v \<Rightarrow> \<not> is_object v)
          then Some (False, sv\<lparr>stats_invalid := stats_invalid sv + 1\<rparr>, w)
          else
            let (now, w) = ct_monotonic env w
            in Some (True, sv\<lparr>latest_stats := txt, latest_stats_ns := now, stats_received := stats_received sv + 1\<rparr>, w))"

text \<open>The first number is the count of iterations left, the boolean the flag \<open>got\<close>.\<close>

fun drain_loop ::
  "'w ControlEnv \<Rightarrow> nat \<Rightarrow> bool \<Rightarrow> ControlServer \<Rightarrow> 'w \<Rightarrow> (bool \<times> ControlServer \<times> 'w) option"
where
  "drain_loop env 0 got sv w = Some (got, sv, w)"
| "drain_loop env (Suc left) got sv w =
     (case zmq_recv_multipart_nowait (ct_recv_stats env) w of
        None \<Rightarrow> None
      | Some (rc, frames, w) \<Rightarrow>
          if rc \<le> 0 then Some (got, sv, w)
          else case take_stats env frames sv w of
            None \<Rightarrow> None
          | Some (accepted, sv, w) \<Rightarrow> drain_loop env left (got \<or> accepted) sv w)"

definition drain_stats :: "'w ControlEnv \<Rightarrow> ControlServer \<Rightarrow> 'w \<Rightarrow> (ControlServer \<times> 'w) option" where
  "drain_stats env sv w =
     (case drain_loop env 64 False sv w of
        None \<Rightarrow> None
      | Some (got, sv, w) \<Rightarrow>
          if got \<and> push_on_next_stats sv then Some (broadcast_stats env (sv\<lparr>push_on_next_stats := False\<rparr>) w)
          else Some (sv, w))"

section \<open>The event loop\<close>

text \<open>The events of one client, then of all that were polled.\<close>

definition serve_client ::
  "'w ControlEnv \<Rightarrow> bool \<times> bool \<times> bool \<Rightarrow> Client \<Rightarrow> ControlServer \<Rightarrow> 'w \<Rightarrow> (Client \<times> ControlServer \<times> 'w) option"
where
  "serve_client env revents c sv w =
     (case revents of (readable, writable, in_error) \<Rightarrow>
      case (if readable then read_client env c sv w else Some (c, sv, w)) of
        None \<Rightarrow> None
      | Some (c, sv, w) \<Rightarrow>
          case (if \<not> c_dead c \<and> writable then write_client env c w else Some (c, w)) of
            None \<Rightarrow> None
          | Some (c, w) \<Rightarrow> Some (if in_error then c\<lparr>c_dead := True\<rparr> else c, sv, w))"

fun serve_clients ::
  "'w ControlEnv \<Rightarrow> (bool \<times> bool \<times> bool) list \<Rightarrow> Client list \<Rightarrow> ControlServer \<Rightarrow> 'w \<Rightarrow>
   (Client list \<times> ControlServer \<times> 'w) option"
where
  "serve_clients env (e # es) (c # cs) sv w =
     (case serve_client env e c sv w of
        None \<Rightarrow> None
      | Some (c, sv, w) \<Rightarrow>
          case serve_clients env es cs sv w of
            None \<Rightarrow> None
          | Some (cs, sv, w) \<Rightarrow> Some (c # cs, sv, w))"
| "serve_clients env _ cs sv w = Some (cs, sv, w)"

definition server_events ::
  "'w ControlEnv \<Rightarrow> bool \<Rightarrow> bool \<Rightarrow> (bool \<times> bool \<times> bool) list \<Rightarrow> ControlServer \<Rightarrow> 'w \<Rightarrow> (ControlServer \<times> 'w) option"
where
  "server_events env stats_ready listen_ready revents sv w =
     (case (if stats_ready then drain_stats env sv w else Some (sv, w)) of
        None \<Rightarrow> None
      | Some (sv, w) \<Rightarrow>
          case serve_clients env revents (cs_clients sv) sv w of
            None \<Rightarrow> None
          | Some (cs, sv, w) \<Rightarrow>
              let sv = sv\<lparr>cs_clients := cs\<rparr>
              in if listen_ready then accept_clients env sv w else Some (sv, w))"

definition interval_ns :: "ControlServer \<Rightarrow> u64" where
  "interval_ns sv = of_int (update_interval_ms (cs_cfg sv)) * kNsPerMs"

definition periodic_update :: "'w ControlEnv \<Rightarrow> ControlServer \<Rightarrow> 'w \<Rightarrow> ControlServer \<times> 'w" where
  "periodic_update env sv w =
     (let (now, w) = ct_monotonic env w in
      if next_update_ns sv \<le> now then
        let (sv, w) = broadcast_stats env sv w;
            sv = sv\<lparr>next_update_ns := next_update_ns sv + interval_ns sv\<rparr>;
            sv = (if next_update_ns sv \<le> now then sv\<lparr>next_update_ns := now + interval_ns sv\<rparr> else sv)
        in (sv, w)
      else (sv, w))"

text \<open>The last loop of \<open>poll_once\<close>; a closed client has no descriptor.\<close>

fun flush_clients :: "'w ControlEnv \<Rightarrow> Client list \<Rightarrow> 'w \<Rightarrow> (Client list \<times> 'w) option" where
  "flush_clients env [] w = Some ([], w)"
| "flush_clients env (c # cs) w =
     (case (if \<not> c_dead c \<and> c_out c \<noteq> [] then write_client env c w else Some (c, w)) of
        None \<Rightarrow> None
      | Some (c, w) \<Rightarrow>
          let (c, w) = (if c_dead c then close_client env c w else (c, w))
          in case flush_clients env cs w of None \<Rightarrow> None | Some (cs, w) \<Rightarrow> Some (c # cs, w))"

definition finish_round :: "'w ControlEnv \<Rightarrow> ControlServer \<Rightarrow> 'w \<Rightarrow> (ControlServer \<times> 'w) option" where
  "finish_round env sv w =
     (case periodic_update env sv w of (sv, w) \<Rightarrow>
      case flush_clients env (cs_clients sv) w of
        None \<Rightarrow> None
      | Some (cs, w) \<Rightarrow> Some (sv\<lparr>cs_clients := filter (\<lambda>c. \<not> c_fd c < 0) cs\<rparr>, w))"

definition server_poll_once ::
  "'w ControlEnv \<Rightarrow> int \<Rightarrow> ControlServer \<Rightarrow> 'w \<Rightarrow> (bool \<times> ControlServer \<times> 'w) option"
where
  "server_poll_once env timeout_ms sv w =
     (case ct_poll env (listen_fd sv) (map (\<lambda>c. (c_fd c, c_out c \<noteq> [])) (cs_clients sv)) timeout_ms w of
        (ServerPollFailed err, w) \<Rightarrow> Some (err = E_INTR, sv, w)
      | (ServerReady rc stats_ready listen_ready revents, w) \<Rightarrow>
          (case (if 0 < rc then server_events env stats_ready listen_ready revents sv w else Some (sv, w)) of
             None \<Rightarrow> None
           | Some (sv, w) \<Rightarrow>
               (case finish_round env sv w of None \<Rightarrow> None | Some (sv, w) \<Rightarrow> Some (True, sv, w))))"

text \<open>The boolean says that the loop ended with the shutdown request.\<close>

partial_function (option) server_loop ::
  "'w ControlEnv \<Rightarrow> ControlServer \<Rightarrow> 'w \<Rightarrow> (bool \<times> ControlServer \<times> 'w) option"
where
  "server_loop env sv w =
     (if ct_shutdown_requested env w then Some (True, sv, w)
      else case ct_monotonic env w of (now, w) \<Rightarrow>
        (case server_poll_once env
             (if now < next_update_ns sv then sint ((next_update_ns sv - now) div kNsPerMs + 1) else 0) sv w of
           None \<Rightarrow> None
         | Some (good, sv, w) \<Rightarrow> if good then server_loop env sv w else Some (False, sv, w)))"

fun say_goodbye :: "'w ControlEnv \<Rightarrow> Client list \<Rightarrow> 'w \<Rightarrow> (Client list \<times> 'w) option" where
  "say_goodbye env [] w = Some ([], w)"
| "say_goodbye env (c # cs) w =
     (case (if c_websocket c \<and> \<not> c_dead c
            then write_client env (queue (ws_encode_frame kClose (ws_close_payload kGoingAway ''server shutting down'')) c) w
            else Some (c, w)) of
        None \<Rightarrow> None
      | Some (c, w) \<Rightarrow> (case say_goodbye env cs w of None \<Rightarrow> None | Some (cs, w) \<Rightarrow> Some (c # cs, w)))"

definition server_run :: "'w ControlEnv \<Rightarrow> ControlServer \<Rightarrow> 'w \<Rightarrow> (int \<times> ControlServer \<times> 'w) option" where
  "server_run env sv w =
     (case server_loop env sv w of
        None \<Rightarrow> None
      | Some (False, sv, w) \<Rightarrow> Some (1, sv, w)
      | Some (True, sv, w) \<Rightarrow>
          (case say_goodbye env (cs_clients sv) w of
             None \<Rightarrow> None
           | Some (cs, w) \<Rightarrow> Some (0, sv\<lparr>cs_clients := cs\<rparr>, w)))"

section \<open>Setting up and tearing down\<close>

definition init_zmq :: "'w ControlEnv \<Rightarrow> ControlServer \<Rightarrow> 'w \<Rightarrow> string option \<times> ControlServer \<times> 'w" where
  "init_zmq env sv w =
     (let cfg = cs_cfg sv in
      case ct_zmq_ctx_new env w of
        (Some err, w) \<Rightarrow> (Some (''zmq_ctx_new: '' @ ct_zmq_strerror env err), sv, w)
      | (None, w) \<Rightarrow>
      let sv = sv\<lparr>has_ctx := True\<rparr> in
      (case ct_zmq_sub env (cc_stats_topic cfg) w of
        (Some err, w) \<Rightarrow> (Some (''zmq_socket(SUB): '' @ ct_zmq_strerror env err), sv, w)
      | (None, w) \<Rightarrow>
      let sv = sv\<lparr>has_stats_sub := True\<rparr> in
      (case ct_zmq_connect_sub env (cc_stats_endpoint cfg) w of
        (Some err, w) \<Rightarrow>
          (Some (quoted_in ''zmq_connect('' (cc_stats_endpoint cfg) '') for statistics: '' @ ct_zmq_strerror env err), sv, w)
      | (None, w) \<Rightarrow>
      (case ct_zmq_pub env w of
        (Some err, w) \<Rightarrow> (Some (''zmq_socket(PUB): '' @ ct_zmq_strerror env err), sv, w)
      | (None, w) \<Rightarrow>
      let sv = sv\<lparr>has_command_pub := True\<rparr> in
      (case ct_zmq_attach_pub env (command_connect cfg) (cc_command_endpoint cfg) w of
        (Some err, w) \<Rightarrow>
          (Some (quoted_in (if command_connect cfg then ''zmq_connect('' else ''zmq_bind('') (cc_command_endpoint cfg)
             '') for commands: '' @ ct_zmq_strerror env err), sv, w)
      | (None, w) \<Rightarrow> (None, sv, w))))))"

definition listen_address :: "'w ControlEnv \<Rightarrow> string \<Rightarrow> string + u32" where
  "listen_address env host =
     (if host = ''localhost'' then Inr 0x7F000001
      else if host \<noteq> ''*'' \<and> host \<noteq> [] then parse_ipv4 (ct_inet_pton env) host
      else Inr 0)"

definition init_listener :: "'w ControlEnv \<Rightarrow> u32 \<Rightarrow> ControlServer \<Rightarrow> 'w \<Rightarrow> string option \<times> ControlServer \<times> 'w" where
  "init_listener env host sv w =
     (let cfg = cs_cfg sv in
      case ct_socket env w of
        (Inl err, w) \<Rightarrow> (Some (''socket: '' @ ct_strerror env err), sv, w)
      | (Inr fd, w) \<Rightarrow>
      let sv = sv\<lparr>listen_fd := fd\<rparr> in
      (case ct_bind env fd host (http_port cfg) w of
        (Some err, w) \<Rightarrow>
          (Some (''bind HTTP '' @ http_host cfg @ '':'' @ dec_digits (unat (http_port cfg)) @ '': '' @ ct_strerror env err), sv, w)
      | (None, w) \<Rightarrow>
      (case ct_listen env fd w of
        (Some err, w) \<Rightarrow> (Some (''listen: '' @ ct_strerror env err), sv, w)
      | (None, w) \<Rightarrow>
          let (port, w) = ct_bound_port env fd w;
              sv = sv\<lparr>bound_port := port\<rparr>;
              (now, w) = ct_monotonic env w
          in (None, sv\<lparr>next_update_ns := now + interval_ns sv\<rparr>, w))))"

definition server_init :: "'w ControlEnv \<Rightarrow> ControlServer \<Rightarrow> 'w \<Rightarrow> string option \<times> ControlServer \<times> 'w" where
  "server_init env sv w =
     (case init_zmq env sv w of
        (Some err, sv, w) \<Rightarrow> (Some err, sv, w)
      | (None, sv, w) \<Rightarrow>
          (case listen_address env (http_host (cs_cfg sv)) of
             Inl perr \<Rightarrow> (Some (''HTTP listen address: '' @ perr), sv, w)
           | Inr host \<Rightarrow> init_listener env host sv w))"

text \<open>The destructor.\<close>

fun close_clients :: "'w ControlEnv \<Rightarrow> Client list \<Rightarrow> 'w \<Rightarrow> 'w" where
  "close_clients env [] w = w"
| "close_clients env (c # cs) w = close_clients env cs (snd (close_client env c w))"

definition server_destroy :: "'w ControlEnv \<Rightarrow> ControlServer \<Rightarrow> 'w \<Rightarrow> 'w" where
  "server_destroy env sv w =
     (let w = close_clients env (cs_clients sv) w;
          w = (if 0 \<le> listen_fd sv then ct_close env (listen_fd sv) w else w)
      in ct_zmq_teardown env (has_stats_sub sv) (has_command_pub sv) (has_ctx sv) w)"

end
