(* ===== verification/Control_Steps.thy ===== *)
theory Control_Steps
  imports Control_Server
begin

text \<open>
  What one round of the event loop of the control server does, seen through a pair of relations: \<open>R\<close> between a client before
  and after, \<open>W\<close> between the server with the world before and after. If the primitive operations are steps of the relations, so is
  the whole round; the properties of the server instantiate the relations.
\<close>

section \<open>The operations on connected clients\<close>

locale service_steps =
  fixes env :: "'w ControlEnv"
    and R :: "Client \<Rightarrow> Client \<Rightarrow> bool"
    and W :: "ControlServer \<times> 'w \<Rightarrow> ControlServer \<times> 'w \<Rightarrow> bool"
  assumes R_refl: "R c c"
    and R_trans [trans]: "R c c' \<Longrightarrow> R c' c'' \<Longrightarrow> R c c''"
    and W_refl: "W s s"
    and W_trans [trans]: "W s s' \<Longrightarrow> W s' s'' \<Longrightarrow> W s s''"
    and queued: "\<not> close_after_write c \<Longrightarrow> R c (queue body c)"
    and died: "R c (c\<lparr>c_dead := True\<rparr>)"
    and read: "read_client env c sv w = Some (c', sv', w') \<Longrightarrow> R c c' \<and> W (sv, w) (sv', w')"
    and written: "write_client env c w = Some (c', w') \<Longrightarrow> R c c' \<and> W (sv, w) (sv, w')"
    and envelope: "W (sv, w) (snd (stats_envelope env sv w))"
    and received: "zmq_recv_multipart_nowait (ct_recv_stats env) w = Some (rc, frames, w') \<Longrightarrow> W (sv, w) (sv, w')"
    and taken: "take_stats env frames sv w = Some (accepted, sv', w') \<Longrightarrow> W (sv, w) (sv', w')"
    and clock: "W (sv, w) (sv, snd (ct_monotonic env w))"
    and bookkeeping: "W (sv, w) (sv\<lparr>cs_clients := cs\<rparr>, w)" "W (sv, w) (sv\<lparr>push_on_next_stats := b\<rparr>, w)"
      "W (sv, w) (sv\<lparr>next_update_ns := t\<rparr>, w)"
begin

text \<open>A step of the server: its clients in \<open>R\<close>, one by one, the server and the world in \<open>W\<close>.\<close>

definition stepped :: "ControlServer \<times> 'w \<Rightarrow> ControlServer \<times> 'w \<Rightarrow> bool" where
  "stepped s s' \<longleftrightarrow> list_all2 R (cs_clients (fst s)) (cs_clients (fst s')) \<and> W s s'"

lemma all_refl: "list_all2 R cs cs"
  by (simp add: list_all2_refl R_refl)

lemmas refls = R_refl W_refl all_refl

lemma all_trans: "list_all2 R cs cs' \<Longrightarrow> list_all2 R cs' cs'' \<Longrightarrow> list_all2 R cs cs''"
  by (rule list_all2_trans [OF R_trans])

lemma stepped_trans [trans]: "stepped s s' \<Longrightarrow> stepped s' s'' \<Longrightarrow> stepped s s''"
  unfolding stepped_def using all_trans W_trans by blast

lemma broadcast_loop_steps:
  "broadcast_loop env frame cs sv w = (cs', sv', w') \<Longrightarrow> list_all2 R cs cs' \<and> W (sv, w) (sv', w')"
proof (induction cs arbitrary: frame sv w cs' sv' w')
  note [simp] = refls
  case (Cons c cs)
  show ?case
  proof (cases "\<not> c_websocket c \<or> c_dead c \<or> close_after_write c \<or> kMaxOutputBacklog < length (c_out c)")
    case True
    with Cons show ?thesis by (auto split: prod.splits)
  next
    case False
    obtain body sv1 w1 where e: "stats_envelope env sv w = (body, sv1, w1)" by (cases "stats_envelope env sv w")
    define frame' where "frame' = (if frame = [] then ws_encode_frame kText body else frame)"
    obtain sv2 w2 where s: "(if frame = [] then (sv1, w1) else (sv, w)) = (sv2, w2)"
      by (cases "if frame = [] then (sv1, w1) else (sv, w)")
    obtain cs1 sv3 w3 where tail: "broadcast_loop env frame' cs sv2 w2 = (cs1, sv3, w3)"
      by (cases "broadcast_loop env frame' cs sv2 w2")
    have whole: "cs' = queue frame' c # cs1" "sv' = sv3" "w' = w3"
      using False Cons.prems e s tail by (auto simp: frame'_def split: if_splits)
    moreover have "W (sv, w) (sv2, w2)" using envelope [of sv w] e s by (auto split: if_splits)
    ultimately show ?thesis using Cons.IH [OF tail] False queued W_trans by auto
  qed
qed (simp add: refls)

lemma broadcast_stats_steps: "stepped (sv, w) (broadcast_stats env sv w)"
proof -
  note [simp] = refls
  obtain cs sv' w' where b: "broadcast_loop env [] (cs_clients sv) sv w = (cs, sv', w')"
    by (cases "broadcast_loop env [] (cs_clients sv) sv w")
  from broadcast_loop_steps [OF b] have "W (sv, w) (sv'\<lparr>cs_clients := cs\<rparr>, w')" using bookkeeping(1) W_trans by blast
  with broadcast_loop_steps [OF b] b show ?thesis by (simp add: broadcast_stats_def stepped_def)
qed

lemma take_stats_clients: "take_stats env frames sv w = Some (accepted, sv', w') \<Longrightarrow> cs_clients sv' = cs_clients sv"
  by (auto simp: take_stats_def Let_def split: option.splits if_splits prod.splits)

lemma drain_loop_steps:
  "drain_loop env left got sv w = Some (got', sv', w') \<Longrightarrow> stepped (sv, w) (sv', w')"
proof (induction left arbitrary: got sv w)
  note [simp] = refls
  case 0
  then show ?case by (simp add: stepped_def)
next
  case (Suc left)
  note [simp] = refls
  obtain rc frames w1 where r: "zmq_recv_multipart_nowait (ct_recv_stats env) w = Some (rc, frames, w1)"
    using Suc.prems by (auto split: option.splits)
  have w1: "stepped (sv, w) (sv, w1)" using received [OF r] by (simp add: stepped_def)
  show ?case
  proof (cases "rc \<le> 0")
    case True
    with Suc.prems r w1 show ?thesis by simp
  next
    case False
    then obtain accepted sv2 w2 where t: "take_stats env frames sv w1 = Some (accepted, sv2, w2)"
      and rest: "drain_loop env left (got \<or> accepted) sv2 w2 = Some (got', sv', w')"
      using Suc.prems r by (auto split: option.splits)
    have "stepped (sv, w1) (sv2, w2)" using taken [OF t] take_stats_clients [OF t] by (simp add: stepped_def)
    with w1 Suc.IH [OF rest] show ?thesis using stepped_trans by blast
  qed
qed

lemma drain_stats_steps: "drain_stats env sv w = Some (sv', w') \<Longrightarrow> stepped (sv, w) (sv', w')"
proof -
  note [simp] = refls
  assume drain: "drain_stats env sv w = Some (sv', w')"
  then obtain got sv1 w1 where l: "drain_loop env 64 False sv w = Some (got, sv1, w1)"
    by (auto simp: drain_stats_def split: option.splits)
  have "stepped (sv1, w1) (sv1\<lparr>push_on_next_stats := False\<rparr>, w1)" using bookkeeping(2) by (simp add: stepped_def)
  with broadcast_stats_steps have "stepped (sv1, w1) (broadcast_stats env (sv1\<lparr>push_on_next_stats := False\<rparr>) w1)"
    using stepped_trans by blast
  with drain l drain_loop_steps [OF l] show ?thesis
    by (auto simp: drain_stats_def split: if_splits intro: stepped_trans)
qed

lemma serve_client_steps:
  assumes "serve_client env revents c sv w = Some (c', sv', w')"
  shows "R c c' \<and> W (sv, w) (sv', w')"
proof -
  note [simp] = refls
  obtain readable writable in_error where revents: "revents = (readable, writable, in_error)" by (cases revents)
  obtain c1 sv1 w1 where r: "(if readable then read_client env c sv w else Some (c, sv, w)) = Some (c1, sv1, w1)"
    using assms by (auto simp: serve_client_def revents split: option.splits)
  then have step1: "R c c1 \<and> W (sv, w) (sv1, w1)" using read by (auto split: if_splits)
  obtain c2 w2 where wr: "(if \<not> c_dead c1 \<and> writable then write_client env c1 w1 else Some (c1, w1)) = Some (c2, w2)"
    using assms r by (auto simp: serve_client_def revents split: option.splits)
  then have step2: "R c1 c2 \<and> W (sv1, w1) (sv1, w2)" using written [of c1 w1 c2 w2 sv1] by (auto split: if_splits)
  have "c' = (if in_error then c2\<lparr>c_dead := True\<rparr> else c2)" "sv' = sv1" "w' = w2"
    using assms r wr by (auto simp: serve_client_def revents split: option.splits if_splits)
  with step1 step2 show ?thesis using died R_trans W_trans by metis
qed

lemma serve_clients_steps:
  "serve_clients env es cs sv w = Some (cs', sv', w') \<Longrightarrow> list_all2 R cs cs' \<and> W (sv, w) (sv', w')"
proof (induction cs arbitrary: es sv w cs' sv' w')
  note [simp] = refls
  case (Cons c cs)
  show ?case
  proof (cases es)
    case (Cons e es')
    then obtain c1 sv1 w1 cs1 where s: "serve_client env e c sv w = Some (c1, sv1, w1)"
      "serve_clients env es' cs sv1 w1 = Some (cs1, sv', w')" "cs' = c1 # cs1"
      using Cons.prems by (auto split: option.splits)
    with serve_client_steps [OF s(1)] Cons.IH [OF s(2)] show ?thesis using W_trans by blast
  qed (use Cons.prems in \<open>simp add: refls\<close>)
qed (simp add: refls)

lemma periodic_update_steps: "stepped (sv, w) (periodic_update env sv w)"
proof -
  note [simp] = refls
  obtain now w1 where c: "ct_monotonic env w = (now, w1)" by (cases "ct_monotonic env w")
  obtain sv2 w2 where b: "broadcast_stats env sv w1 = (sv2, w2)" by (cases "broadcast_stats env sv w1")
  have "stepped (sv, w) (sv, w1)" using clock [of sv w] c by (simp add: stepped_def)
  moreover have "stepped (sv, w1) (sv2, w2)" using broadcast_stats_steps [of sv w1] b by simp
  moreover have "stepped (s, w2) (s\<lparr>next_update_ns := t\<rparr>, w2)" for s t using bookkeeping(3) by (simp add: stepped_def)
  ultimately show ?thesis using c b by (auto simp: periodic_update_def Let_def intro: stepped_trans)
qed

end

section \<open>A whole round\<close>

text \<open>The \<open>i\<close>-th client accepted when there were \<open>n\<close>: beyond the limit it is only told so and closed.\<close>

definition fresh :: "nat \<Rightarrow> nat \<Rightarrow> Client list \<Rightarrow> bool" where
  "fresh limit n cs \<longleftrightarrow>
     (\<forall>i<length cs. \<not> c_websocket (cs ! i) \<and> \<not> c_dead (cs ! i) \<and> c_in (cs ! i) = [] \<and> c_message (cs ! i) = [] \<and>
        \<not> in_message (cs ! i) \<and> (close_after_write (cs ! i) \<longleftrightarrow> limit \<le> n + i) \<and>
        (c_out (cs ! i) \<noteq> [] \<longrightarrow> close_after_write (cs ! i)))"

lemma fresh_Nil [simp]: "fresh limit n []"
  by (simp add: fresh_def)

lemma fresh_Cons:
  "fresh limit (Suc n) cs \<Longrightarrow> \<not> c_websocket c \<Longrightarrow> \<not> c_dead c \<Longrightarrow> c_in c = [] \<Longrightarrow> c_message c = [] \<Longrightarrow> \<not> in_message c \<Longrightarrow>
     (close_after_write c \<longleftrightarrow> limit \<le> n) \<Longrightarrow> (c_out c \<noteq> [] \<longrightarrow> close_after_write c) \<Longrightarrow> fresh limit n (c # cs)"
  unfolding fresh_def by (auto simp: less_Suc_eq_0_disj)

locale round_steps = service_steps +
  assumes config: "W s s' \<Longrightarrow> cs_cfg (fst s') = cs_cfg (fst s)"
    and closed: "R c (fst (close_client env c w)) \<and> W (sv, w) (sv, snd (close_client env c w))"
    and accepted: "W (sv, w) (sv, snd (ct_accept env fd w))"
    and polled: "W (sv, w) (sv, snd (ct_poll env fd items timeout_ms w))"
begin

lemma accept_clients_steps:
  assumes "accept_clients env sv w = Some (sv', w')"
  shows "W (sv, w) (sv', w') \<and>
    (\<exists>new. cs_clients sv' = cs_clients sv @ new \<and> fresh (max_clients (cs_cfg sv)) (length (cs_clients sv)) new)"
proof -
  note [simp] = refls
  have "case r of (sv', w') \<Rightarrow> W (sv, w) (sv', w') \<and>
    (\<exists>new. cs_clients sv' = cs_clients sv @ new \<and> fresh (max_clients (cs_cfg sv)) (length (cs_clients sv)) new)"
    if "accept_clients env' sv w = Some r" "env' = env" for env' r
    using that
  proof (induction env' sv w r rule: accept_clients.raw_induct [rotated, consumes 1])
    case (1 rec env' sv w r)
    obtain a w1 where a: "ct_accept env (listen_fd sv) w = (a, w1)" by (cases "ct_accept env (listen_fd sv) w")
    have w1: "W (sv, w) (sv, w1)" using accepted [of sv w "listen_fd sv"] a by simp
    show ?case
    proof (cases a)
      case (Inl err)
      with 1 a w1 show ?thesis by auto
    next
      case (Inr p)
      define c where "c = accepted_client env sv p"
      have rec: "rec env (sv\<lparr>cs_clients := cs_clients sv @ [c]\<rparr>) w1 = Some r"
        using 1(2,3) a Inr by (simp add: c_def)
      obtain sv' w' where r: "r = (sv', w')" by (cases r)
      from 1(1) [OF rec refl] obtain new where ih: "W (sv\<lparr>cs_clients := cs_clients sv @ [c]\<rparr>, w1) (sv', w')"
        "cs_clients sv' = cs_clients sv @ c # new" "fresh (max_clients (cs_cfg sv)) (Suc (length (cs_clients sv))) new"
        by (auto simp: r)
      have "fresh (max_clients (cs_cfg sv)) (length (cs_clients sv)) (c # new)"
        by (rule fresh_Cons [OF ih(3)]) (simp_all add: c_def accepted_client_def new_Client_def Let_def split: prod.split)
      moreover have "W (sv, w) (sv', w')" using W_trans [OF W_trans [OF w1 bookkeeping(1)] ih(1)] .
      ultimately show ?thesis using ih(2) by (auto simp: r)
    qed
  qed
  from this [OF assms refl] show ?thesis by simp
qed

lemma flush_clients_steps:
  "flush_clients env cs w = Some (cs', w') \<Longrightarrow> list_all2 R cs cs' \<and> W (sv, w) (sv, w')"
proof (induction cs arbitrary: w cs' w')
  note [simp] = refls
  case (Cons c cs)
  obtain c1 w1 where wr: "(if \<not> c_dead c \<and> c_out c \<noteq> [] then write_client env c w else Some (c, w)) = Some (c1, w1)"
    using Cons.prems by (auto split: option.splits)
  then have step1: "R c c1 \<and> W (sv, w) (sv, w1)" using written [of c w c1 w1 sv] by (auto split: if_splits)
  obtain c2 w2 where cl: "(if c_dead c1 then close_client env c1 w1 else (c1, w1)) = (c2, w2)"
    by (cases "if c_dead c1 then close_client env c1 w1 else (c1, w1)")
  then have step2: "R c1 c2 \<and> W (sv, w1) (sv, w2)" using closed [of c1 w1 sv] by (auto split: if_splits)
  obtain cs2 where rest: "flush_clients env cs w2 = Some (cs2, w')" "cs' = c2 # cs2"
    using Cons.prems wr cl by (auto split: option.splits)
  have "R c c2" "W (sv, w) (sv, w2)" using step1 step2 R_trans [of c c1 c2] W_trans [of "(sv, w)" "(sv, w1)" "(sv, w2)"] by simp_all
  with Cons.IH [OF rest(1)] rest(2) W_trans [of "(sv, w)" "(sv, w2)" "(sv, w')"] show ?case by simp
qed (simp add: refls)

lemma server_events_steps:
  assumes "server_events env stats_ready listen_ready revents sv w = Some (sv', w')"
  shows "W (sv, w) (sv', w') \<and> (\<exists>old new. list_all2 R (cs_clients sv) old \<and> cs_clients sv' = old @ new \<and>
    fresh (max_clients (cs_cfg sv)) (length (cs_clients sv)) new)"
proof -
  note [simp] = refls
  obtain sv1 w1 where d: "(if stats_ready then drain_stats env sv w else Some (sv, w)) = Some (sv1, w1)"
    using assms by (auto simp: server_events_def split: option.splits)
  then have step1: "stepped (sv, w) (sv1, w1)" using drain_stats_steps by (auto simp: stepped_def split: if_splits)
  obtain cs sv2 w2 where s: "serve_clients env revents (cs_clients sv1) sv1 w1 = Some (cs, sv2, w2)"
    and last_step: "(if listen_ready then accept_clients env (sv2\<lparr>cs_clients := cs\<rparr>) w2 else Some (sv2\<lparr>cs_clients := cs\<rparr>, w2)) = Some (sv', w')"
    using assms d by (cases "serve_clients env revents (cs_clients sv1) sv1 w1") (auto simp: server_events_def Let_def)
  have old: "list_all2 R (cs_clients sv) cs"
    using serve_clients_steps [OF s] step1 by (auto simp: stepped_def intro: all_trans)
  have W2: "W (sv, w) (sv2\<lparr>cs_clients := cs\<rparr>, w2)"
    using W_trans [OF W_trans [of "(sv, w)" "(sv1, w1)" "(sv2, w2)"] bookkeeping(1)] serve_clients_steps [OF s] step1
    unfolding stepped_def by simp
  then have cfg: "cs_cfg sv2 = cs_cfg sv" using config by fastforce
  have len: "length cs = length (cs_clients sv)" using old by (simp add: list_all2_lengthD)
  show ?thesis
  proof (cases listen_ready)
    case True
    with last_step accept_clients_steps [of "sv2\<lparr>cs_clients := cs\<rparr>" w2 sv' w'] W2 old cfg len show ?thesis
      using W_trans by fastforce
  next
    case False
    with last_step W2 old show ?thesis by auto
  qed
qed

lemma finish_round_steps:
  assumes "finish_round env sv w = Some (sv', w')"
  shows "W (sv, w) (sv', w') \<and> (\<exists>cs. list_all2 R (cs_clients sv) cs \<and> cs_clients sv' = filter (\<lambda>c. \<not> c_fd c < 0) cs)"
proof -
  note [simp] = refls
  obtain sv1 w1 where p: "periodic_update env sv w = (sv1, w1)" by (cases "periodic_update env sv w")
  then obtain cs where f: "flush_clients env (cs_clients sv1) w1 = Some (cs, w')"
    "sv' = sv1\<lparr>cs_clients := filter (\<lambda>c. \<not> c_fd c < 0) cs\<rparr>"
    using assms by (auto simp: finish_round_def split: option.splits)
  have "stepped (sv, w) (sv1, w1)" using periodic_update_steps [of sv w] p by simp
  then have p': "W (sv, w) (sv1, w1)" "list_all2 R (cs_clients sv) (cs_clients sv1)" by (simp_all add: stepped_def)
  have f': "list_all2 R (cs_clients sv1) cs" "W (sv1, w1) (sv1, w')"
    using flush_clients_steps [OF f(1), of sv1] by simp_all
  have "W (sv1, w') (sv', w')" using bookkeeping(1) f(2) by simp
  with p' f' f(2) show ?thesis
    using W_trans [OF W_trans [OF p'(1) f'(2)]] all_trans [OF p'(2) f'(1)] by auto
qed

lemma server_poll_once_steps:
  assumes "server_poll_once env timeout_ms sv w = Some (good, sv', w')"
  shows "W (sv, w) (sv', w') \<and> (\<exists>old new cs keep. list_all2 R (cs_clients sv) old \<and>
    fresh (max_clients (cs_cfg sv)) (length (cs_clients sv)) new \<and> list_all2 R (old @ new) cs \<and> cs_clients sv' = filter keep cs)"
proof -
  note [simp] = refls
  obtain p w1 where p: "ct_poll env (listen_fd sv) (map (\<lambda>c. (c_fd c, c_out c \<noteq> [])) (cs_clients sv)) timeout_ms w = (p, w1)"
    by (cases "ct_poll env (listen_fd sv) (map (\<lambda>c. (c_fd c, c_out c \<noteq> [])) (cs_clients sv)) timeout_ms w")
  have w1: "W (sv, w) (sv, w1)" using polled [of sv w] p by (metis snd_conv)
  show ?thesis
  proof (cases p)
    case (ServerPollFailed err)
    with assms p w1 show ?thesis
      by (intro conjI exI [of _ "cs_clients sv"] exI [of _ "[]"] exI [of _ "\<lambda>_. True"]) (auto simp: server_poll_once_def)
  next
    case (ServerReady rc stats_ready listen_ready revents)
    obtain sv2 w2 where e: "(if 0 < rc then server_events env stats_ready listen_ready revents sv w1 else Some (sv, w1)) = Some (sv2, w2)"
      and f: "finish_round env sv2 w2 = Some (sv', w')"
      using assms p ServerReady by (auto simp: server_poll_once_def split: option.splits)
    have "W (sv, w1) (sv2, w2) \<and> (\<exists>old new. list_all2 R (cs_clients sv) old \<and> cs_clients sv2 = old @ new \<and>
        fresh (max_clients (cs_cfg sv)) (length (cs_clients sv)) new)"
    proof (cases "0 < rc")
      case True
      with e server_events_steps show ?thesis by simp
    next
      case False
      with e show ?thesis by (intro conjI exI [of _ "cs_clients sv"] exI [of _ "[]"]) auto
    qed
    then obtain old new where e': "W (sv, w1) (sv2, w2)" "list_all2 R (cs_clients sv) old" "cs_clients sv2 = old @ new"
      "fresh (max_clients (cs_cfg sv)) (length (cs_clients sv)) new" by auto
    obtain cs where f': "W (sv2, w2) (sv', w')" "list_all2 R (old @ new) cs" "cs_clients sv' = filter (\<lambda>c. \<not> c_fd c < 0) cs"
      using finish_round_steps [OF f] e'(3) by auto
    with e' W_trans [OF W_trans [OF w1 e'(1)] f'(1)] show ?thesis by auto
  qed
qed

end

end
