(* ===== verification/Control_Input.thy ===== *)
theory Control_Input
  imports Control_Server Http_Properties
begin

text \<open>
  What a client of the control tool sends is a byte stream: how the network cuts it into pieces, and which pieces arrive
  together, makes no difference to the replies, the commands or the state of the connection.
\<close>

section \<open>One wake-up\<close>

text \<open>\<open>delivers env fd data w w'\<close>: from the world \<open>w\<close> on, \<open>recv\<close> yields the pieces \<open>data\<close> and then has nothing more.\<close>

inductive delivers :: "'w ControlEnv \<Rightarrow> int \<Rightarrow> string list \<Rightarrow> 'w \<Rightarrow> 'w \<Rightarrow> bool" for env fd where
  drained: "ct_recv env fd w = (RecvError E_AGAIN, w') \<Longrightarrow> delivers env fd [] w w'"
| interrupted: "ct_recv env fd w = (RecvError E_INTR, w') \<Longrightarrow> delivers env fd ds w' w'' \<Longrightarrow> delivers env fd ds w w''"
| received: "ct_recv env fd w = (Received d, w') \<Longrightarrow> d \<noteq> [] \<Longrightarrow> delivers env fd ds w' w'' \<Longrightarrow> delivers env fd (d # ds) w w''"

text \<open>A wake-up in which the bytes \<open>x\<close> came.\<close>

definition feed ::
  "'w ControlEnv \<Rightarrow> string \<Rightarrow> Client \<times> ControlServer \<times> 'w \<Rightarrow> (Client \<times> ControlServer \<times> 'w) option"
where
  "feed env x = (\<lambda>(c, sv, w). handle_input env (if close_after_write c then c else c\<lparr>c_in := c_in c @ x\<rparr>) sv w)"

lemma recv_client_delivers:
  "delivers env fd ds w w' \<Longrightarrow> fd = c_fd c \<Longrightarrow>
     recv_client env c w = Some (False, if close_after_write c then c else c\<lparr>c_in := c_in c @ concat ds\<rparr>, w')"
proof (induction ds w w' arbitrary: c rule: delivers.induct)
  case (drained w w')
  then show ?case by (subst recv_client.simps) simp
next
  case (interrupted w w' ds w'')
  from interrupted.IH [OF interrupted.prems] interrupted.hyps(1) interrupted.prems show ?case by (subst recv_client.simps) simp
next
  case (received w d w' ds w'')
  from received.IH [of "if close_after_write c then c else c\<lparr>c_in := c_in c @ d\<rparr>"] received.hyps(1,2) received.prems show ?case
    by (cases "close_after_write c") (simp_all add: recv_client.simps [of env c w])
qed

lemma read_client_feeds:
  "delivers env (c_fd c) ds w w' \<Longrightarrow> read_client env c sv w = feed env (concat ds) (c, sv, w')"
  by (simp add: read_client_def feed_def recv_client_delivers)

section \<open>The input and the handlers\<close>

text \<open>What the handlers do to a client does not depend on the bytes still to be parsed.\<close>

definition with_in :: "string \<Rightarrow> Client \<times> ControlServer \<times> 'w \<Rightarrow> Client \<times> ControlServer \<times> 'w" where
  "with_in s = (\<lambda>(c, sv, w). (c\<lparr>c_in := s\<rparr>, sv, w))"

lemma with_in_apply [simp]: "with_in s (c, sv, w) = (c\<lparr>c_in := s\<rparr>, sv, w)"
  by (simp add: with_in_def)

lemma replies_in [simp]:
  "ws_send t (c\<lparr>c_in := s\<rparr>) = (ws_send t c)\<lparr>c_in := s\<rparr>" "queue t (c\<lparr>c_in := s\<rparr>) = (queue t c)\<lparr>c_in := s\<rparr>"
  "ws_fail code reason (c\<lparr>c_in := s\<rparr>) = (ws_fail code reason c)\<lparr>c_in := s\<rparr>"
  by (simp_all add: ws_send_def queue_def ws_fail_def)

lemma handle_ws_message_in:
  "handle_ws_message env m (c\<lparr>c_in := s\<rparr>) sv w = map_option (with_in s) (handle_ws_message env m c sv w)"
  by (simp add: handle_ws_message_def split: option.splits prod.splits)

lemma ws_append_in: "ws_append f (c\<lparr>c_in := s\<rparr>) = (ws_append f c)\<lparr>c_in := s\<rparr>"
  by (simp add: ws_append_def)

lemma ws_text_in: "ws_text env f (c\<lparr>c_in := s\<rparr>) sv w = map_option (with_in s) (ws_text env f c sv w)"
  by (cases "handle_ws_message env (c_message (ws_append f c)) (ws_append f c) sv w")
    (auto simp: ws_text_def Let_def ws_append_in handle_ws_message_in)

lemma ws_frame_in: "ws_frame env f (c\<lparr>c_in := s\<rparr>) sv w = map_option (with_in s) (ws_frame env f c sv w)"
  by (simp add: ws_frame_def ws_text_in)

lemma serve_http_in: "serve_http env req (c\<lparr>c_in := s\<rparr>) sv w = with_in s (serve_http env req c sv w)"
  by (simp add: serve_http_def Let_def queue_def split: prod.splits option.splits)
section \<open>Frames\<close>

text \<open>One step of the frame loop; the result says whether the loop goes on.\<close>

lemma handle_ws_frames_closed: "c_dead c \<or> close_after_write c \<Longrightarrow> handle_ws_frames env c sv w = Some (c, sv, w)"
  by (simp add: handle_ws_frames.simps)

lemma handle_ws_frames_append:
  "handle_ws_frames env (c\<lparr>c_in := c_in c @ x\<rparr>) sv w =
     (case handle_ws_frames env c sv w of
        None \<Rightarrow> None
      | Some (c', sv', w') \<Rightarrow> handle_ws_frames env (c'\<lparr>c_in := c_in c' @ x\<rparr>) sv' w')"
proof (induction env c sv w rule: handle_ws_frames.induct)
  case (1 env c sv w)
  show ?case
  proof (cases "c_dead c \<or> close_after_write c")
    case True
    then show ?thesis by (simp add: handle_ws_frames_closed)
  next
    case False
    show ?thesis
    proof (cases "ws_parse_frame (c_in c) kMaxWsMessage")
      case WsNeedMore
      then have "handle_ws_frames env c sv w = Some (c, sv, w)" by (subst handle_ws_frames.simps) (simp add: False)
      then show ?thesis by simp
    next
      case (WsError err)
      then have "ws_parse_frame (c_in c @ x) kMaxWsMessage = WsError err" using ws_parse_frame_append by fastforce
      with WsError False show ?thesis
        by (simp add: handle_ws_frames.simps [of env c sv w] handle_ws_frames.simps [of env "c\<lparr>c_in := c_in c @ x\<rparr>"])
          (simp add: handle_ws_frames_closed ws_fail_def queue_def)
    next
      case (WsFrameAt f k)
      then have parsed: "ws_parse_frame (c_in c @ x) kMaxWsMessage = WsFrameAt f k" and k: "k \<le> length (c_in c)"
        using ws_parse_frame_append ws_parse_frame_consumed by fastforce+
      let ?c = "c\<lparr>c_in := drop k (c_in c)\<rparr>"
      have step: "ws_frame env f (c\<lparr>c_in := drop k (c_in c) @ x\<rparr>) sv w =
          map_option (with_in (drop k (c_in c) @ x)) (ws_frame env f ?c sv w)"
        by (simp only: ws_frame_in option.map_comp) (simp add: with_in_def o_def split_def)
      show ?thesis
      proof (cases "ws_frame env f ?c sv w")
        case None
        with WsFrameAt parsed k False step show ?thesis
          by (simp add: handle_ws_frames.simps [of env c sv w] handle_ws_frames.simps [of env "c\<lparr>c_in := c_in c @ x\<rparr>"])
      next
        case (Some r)
        then obtain c' sv' w' where r: "ws_frame env f ?c sv w = Some (c', sv', w')" by (cases r) auto
        then have "c_in c' = drop k (c_in c)" using ws_frame_input by (fastforce simp: same_input_def)
        with 1 [OF False WsFrameAt r refl refl] WsFrameAt parsed k False step r show ?thesis
          by (simp add: handle_ws_frames.simps [of env c sv w] handle_ws_frames.simps [of env "c\<lparr>c_in := c_in c @ x\<rparr>"])
      qed
    qed
  qed
qed

section \<open>Requests\<close>

text \<open>The input of a connection that will be closed is never looked at again.\<close>

definition forget :: "Client \<times> ControlServer \<times> 'w \<Rightarrow> Client \<times> ControlServer \<times> 'w" where
  "forget = (\<lambda>(c, sv, w). (if close_after_write c then c\<lparr>c_in := []\<rparr> else c, sv, w))"

lemma forget_closed: "close_after_write c \<Longrightarrow> forget (c\<lparr>c_in := s\<rparr>, r) = forget (c, r)"
  by (cases r) (simp add: forget_def)

text \<open>After an upgrade the rest of the input is frames, and there may be none.\<close>

lemma handle_ws_frames_empty: "c_in c = [] \<Longrightarrow> handle_ws_frames env c sv w = Some (c, sv, w)"
  by (simp add: handle_ws_frames.simps ws_parse_frame_def)

lemma upgrade_websocket_accepted:
  assumes "upgrade_error req = None"
  shows "\<exists>c' r. c_websocket c' \<and> close_after_write c' = close_after_write c \<and>
    (\<forall>s. upgrade_websocket env req (c\<lparr>c_in := s\<rparr>) sv w = handle_ws_frames env (c'\<lparr>c_in := s\<rparr>) (fst r) (snd r))"
proof -
  obtain body sv' w' where env: "stats_envelope env sv w = (body, sv', w')" by (cases "stats_envelope env sv w")
  let ?c = "ws_send body (ws_send (hello_json env sv)
    ((queue (switching_protocols (header req ''sec-websocket-key'')) c)\<lparr>c_websocket := True\<rparr>))"

  have "upgrade_websocket env req (c\<lparr>c_in := s\<rparr>) sv w = handle_ws_frames env (?c\<lparr>c_in := s\<rparr>) sv' w'" for s
    using assms env handle_ws_frames_empty [of "?c\<lparr>c_in := []\<rparr>" env sv' w']
    by (cases s)
      (auto simp: upgrade_websocket_def Let_def ws_send_def queue_def
        intro!: arg_cong [where f = "\<lambda>c. handle_ws_frames env c sv' w'"] Client.equality)
  then show ?thesis
    by (intro exI [of _ ?c] exI [of _ "(sv', w')"]) (simp add: ws_send_def queue_def)
qed

lemma upgrade_websocket_rejected:
  assumes "upgrade_error req = Some e"
  shows "\<exists>c'. close_after_write c' \<and> (\<forall>s. upgrade_websocket env req (c\<lparr>c_in := s\<rparr>) sv w = Some (c'\<lparr>c_in := s\<rparr>, sv, w))"
proof -
  obtain status why extra where e: "e = (status, why, extra)" by (cases e)
  let ?c = "(queue (http_response status text_plain (why @ [CHR 0x0A]) False extra) c)\<lparr>close_after_write := True\<rparr>"
  show ?thesis by (rule exI [of _ ?c]) (simp add: upgrade_websocket_def assms e queue_def)
qed

lemma serve_http_closes: "close_after_write (fst (serve_http env req c sv w))"
  by (simp add: serve_http_def Let_def queue_def split: prod.split option.split)

text \<open>The handlers never take back the upgrade.\<close>

lemma handle_ws_frames_keeps:
  "handle_ws_frames env c sv w = Some (c', sv', w') \<Longrightarrow> c_websocket c' = c_websocket c \<and> c_dead c' = c_dead c \<and> c_fd c' = c_fd c"
proof (induction env c sv w rule: handle_ws_frames.induct)
  case (1 env c sv w)
  note step = 1(2) [unfolded handle_ws_frames.simps [of env c sv w]]
  show ?case
  proof (cases "\<exists>f k r. \<not> (c_dead c \<or> close_after_write c) \<and> ws_parse_frame (c_in c) kMaxWsMessage = WsFrameAt f k \<and>
      ws_frame env f (c\<lparr>c_in := drop k (c_in c)\<rparr>) sv w = Some r")
    case True
    then obtain f k c1 sv1 w1 where f: "\<not> (c_dead c \<or> close_after_write c)"
      "ws_parse_frame (c_in c) kMaxWsMessage = WsFrameAt f k"
      "ws_frame env f (c\<lparr>c_in := drop k (c_in c)\<rparr>) sv w = Some (c1, sv1, w1)"
      by auto
    with step have "handle_ws_frames env c1 sv1 w1 = Some (c', sv', w')" by simp
    from 1(1) [OF f refl refl this] ws_frame_input [OF f(3)] show ?thesis by (simp add: same_input_def)
  next
    case False
    with step show ?thesis by (auto simp: ws_fail_def queue_def split: if_splits WsParse.splits option.splits)
  qed
qed

lemma handle_ws_frames_feed:
  assumes "c_websocket c"
  shows "map_option forget (handle_ws_frames env (c\<lparr>c_in := c_in c @ x\<rparr>) sv w) =
    map_option forget (Option.bind (handle_ws_frames env c sv w) (feed env x))"
proof (cases "handle_ws_frames env c sv w")
  case None
  then show ?thesis by (simp add: handle_ws_frames_append [of env c])
next
  case (Some r)
  then obtain c' sv' w' where r: "handle_ws_frames env c sv w = Some (c', sv', w')" by (cases r) auto
  moreover have "c_websocket c'" using handle_ws_frames_keeps [OF r] assms by simp
  ultimately show ?thesis
    by (simp add: handle_ws_frames_append [of env c] feed_def handle_input_def handle_ws_frames_closed forget_closed)
qed

text \<open>The stream may be cut behind any byte of a connection that is still read.\<close>

lemma handle_http_append:
  assumes "\<not> close_after_write c" "\<not> c_websocket c"
  shows "map_option forget (handle_http env (c\<lparr>c_in := c_in c @ x\<rparr>) sv w) =
    map_option forget (Option.bind (handle_http env c sv w) (feed env x))"
proof -
  obtain p where p: "parse_http_request (c_in c) kMaxHeaderBytes = Some p"
    and stable: "p \<noteq> HttpNeedMore \<Longrightarrow> parse_http_request (c_in c @ x) kMaxHeaderBytes = Some p"
    using parse_http_request_returns [of "c_in c" kMaxHeaderBytes x] by auto
  show ?thesis
  proof (cases p)
    case HttpNeedMore
    with p assms show ?thesis by (simp add: handle_http_def [of env c] feed_def handle_input_def)
  next
    case (HttpError err)
    with p stable show ?thesis
      by (simp add: handle_http_def feed_def handle_input_def forget_def queue_def)
  next
    case (HttpRequestAt req k)
    have k: "k \<le> length (c_in c)" using parse_http_request_consumed p HttpRequestAt by blast
    let ?c = "c\<lparr>c_in := drop k (c_in c)\<rparr>"
    show ?thesis
    proof (cases "rq_path req = ''/ws''")
      case False
      obtain c' sv' w' where s: "serve_http env req c sv w = (c', sv', w')" by (cases "serve_http env req c sv w")
      then have "close_after_write c'" using serve_http_closes [of env req c sv w] by simp
      with False p stable HttpRequestAt k s show ?thesis
        by (simp add: handle_http_def serve_http_in feed_def handle_input_def forget_def)
    next
      case ws: True
      show ?thesis
      proof (cases "upgrade_error req")
        case None
        obtain c' r where c': "c_websocket c'" "\<not> close_after_write c'"
          and up: "\<And>s. upgrade_websocket env req (c\<lparr>c_in := s\<rparr>) sv w = handle_ws_frames env (c'\<lparr>c_in := s\<rparr>) (fst r) (snd r)"
          using upgrade_websocket_accepted [OF None, of c env sv w] assms(1) by auto
        have "handle_http env (c\<lparr>c_in := c_in c @ x\<rparr>) sv w =
            handle_ws_frames env (c'\<lparr>c_in := drop k (c_in c) @ x\<rparr>) (fst r) (snd r)"
          using p stable HttpRequestAt k ws by (simp add: handle_http_def up)
        moreover have "handle_http env c sv w = handle_ws_frames env (c'\<lparr>c_in := drop k (c_in c)\<rparr>) (fst r) (snd r)"
          using p HttpRequestAt ws by (simp add: handle_http_def up)
        ultimately show ?thesis
          using handle_ws_frames_feed [of "c'\<lparr>c_in := drop k (c_in c)\<rparr>" env x] c' by simp
      next
        case (Some e)
        obtain c' where "close_after_write c'"
          "\<And>s. upgrade_websocket env req (c\<lparr>c_in := s\<rparr>) sv w = Some (c'\<lparr>c_in := s\<rparr>, sv, w)"
          using upgrade_websocket_rejected [OF Some, of env c sv w] by blast
        with p stable HttpRequestAt k ws show ?thesis
          by (simp add: handle_http_def feed_def handle_input_def forget_def)
      qed
    qed
  qed
qed

lemma feed_append:
  "map_option forget (feed env (x @ y) s) = map_option forget (Option.bind (feed env x s) (feed env y))"
proof -
  obtain c sv w where s: "s = (c, sv, w)" by (cases s)
  let ?c = "c\<lparr>c_in := c_in c @ x\<rparr>"
  show ?thesis
  proof (cases "close_after_write c")
    case True
    then show ?thesis by (simp add: s feed_def handle_input_def)
  next
    case False
    then show ?thesis
      using handle_ws_frames_feed [of ?c env y sv w] handle_http_append [of ?c env y sv w]
      by (cases "c_websocket c") (simp_all add: s feed_def [of env x] feed_def [of env "x @ y"] handle_input_def)
  qed
qed

text \<open>Forgetting the input of a closed connection before or after the next wake-up is the same.\<close>

lemma feed_forget: "map_option forget (feed env x (forget s)) = map_option forget (feed env x s)"
  by (cases s) (auto simp: forget_def feed_def handle_input_def)

lemma bind_forget:
  "map_option forget a = map_option forget b \<Longrightarrow>
     map_option forget (Option.bind a (feed env x)) = map_option forget (Option.bind b (feed env x))"
proof (cases a; cases b)
  fix p q
  assume "map_option forget a = map_option forget b" "a = Some p" "b = Some q"
  then show ?thesis using feed_forget [of env x p] feed_forget [of env x q] by simp
qed simp_all

fun feed_all ::
  "'w ControlEnv \<Rightarrow> string list \<Rightarrow> Client \<times> ControlServer \<times> 'w \<Rightarrow> (Client \<times> ControlServer \<times> 'w) option"
where
  "feed_all env [] s = Some s"
| "feed_all env (x # xs) s = Option.bind (feed env x s) (feed_all env xs)"

text \<open>C33: a client of the control server is served the same however its byte stream is cut: waking up for one piece after the
  other, at any boundaries, even inside a request line, a frame header or a multi-byte character, leaves the same connection, server and
  world as one wake-up with all the bytes: the same replies queued, the same commands sent, the same upgrade, the same input
  kept for later. Only the input of a connection that is to be closed, which is never read again, is left out of the comparison.\<close>

theorem input_segmentation_is_irrelevant:
  assumes "pieces \<noteq> []"
  shows "map_option forget (feed_all env pieces s) = map_option forget (feed env (concat pieces) s)"
  using assms
proof (induction pieces arbitrary: s rule: list_nonempty_induct)
  case (cons x xs)
  show ?case
  proof (cases "feed env x s")
    case None
    with feed_append [of env x "concat xs" s] show ?thesis by simp
  next
    case (Some s')
    with cons.IH [of s'] feed_append [of env x "concat xs" s] show ?thesis by simp
  qed
qed (simp add: bind_eq_None_conv split: bind_split)

section \<open>A sample\<close>

text \<open>A quiet environment; its world is the list of the frames sent to the receiver.\<close>

definition sample_env :: "string list ControlEnv" where
  "sample_env =
     \<lparr>ct_monotonic = \<lambda>w. (1000, w), ct_realtime = \<lambda>w. (2000, w), ct_recv = \<lambda>_ w. (RecvError E_AGAIN, w),
      ct_send = \<lambda>_ s w. (Sent (length s), w), ct_accept = \<lambda>_ w. (Inl E_AGAIN, w), ct_close = \<lambda>_ w. w,
      ct_recv_stats = \<lambda>w. (RecvFailed E_AGAIN, w), ct_send_command = \<lambda>s _ w. (True, w @ [s]),
      ct_poll = \<lambda>_ _ _ w. (ServerReady 0 False False [], w), ct_shutdown_requested = \<lambda>_. False,
      ct_read_file = \<lambda>_ w. (None, w), ct_zmq_errno = \<lambda>_. E_AGAIN, ct_zmq_strerror = \<lambda>_. ''error'', ct_strerror = \<lambda>_. ''error'',
      ct_ipv4_to_string = \<lambda>_. ''10.0.0.1'', ct_inet_pton = \<lambda>_. Some 0x7F000001, ct_assets = [], ct_version = ''1.0.0'',
      ct_zmq_ctx_new = \<lambda>w. (None, w), ct_zmq_sub = \<lambda>_ w. (None, w), ct_zmq_connect_sub = \<lambda>_ w. (None, w),
      ct_zmq_pub = \<lambda>w. (None, w), ct_zmq_attach_pub = \<lambda>_ _ w. (None, w), ct_zmq_teardown = \<lambda>_ _ _ w. w,
      ct_socket = \<lambda>w. (Inr 3, w), ct_bind = \<lambda>_ _ _ w. (None, w), ct_listen = \<lambda>_ w. (None, w),
      ct_bound_port = \<lambda>_ w. (8083, w)\<rparr>"

lemma input_segmentation_is_irrelevant_witness:
  "map_option forget (feed_all sample_env [''GE'', ''T /''] (new_Client, new_ControlServer default_ControlServerConfig, [])) =
   map_option forget (feed sample_env ''GET /'' (new_Client, new_ControlServer default_ControlServerConfig, []))"
  using input_segmentation_is_irrelevant [of "[''GE'', ''T /'']" sample_env
      "(new_Client, new_ControlServer default_ControlServerConfig, [])"] by simp

end
