(* ===== verification/Control_Safety.thy ===== *)
theory Control_Safety
  imports Control_Steps Control_Input
begin

text \<open>
  What the control server guarantees whatever its clients send: the memory held for a client and the number of clients
  served are bounded, the receiver gets no other commands than to start and to stop recording, and only from connections that were
  upgraded to a WebSocket by an allowed origin.
\<close>

section \<open>Bounded input\<close>

text \<open>Between two rounds the server holds for a client that is still served at most one incomplete request head or one
  incomplete frame, and at most one message.\<close>

definition message_ok :: "Client \<Rightarrow> bool" where
  "message_ok c \<longleftrightarrow> length (c_message c) \<le> kMaxWsMessage \<and> (\<not> in_message c \<longrightarrow> c_message c = [])"

definition input_ok :: "Client \<Rightarrow> bool" where
  "input_ok c \<longleftrightarrow> (if c_websocket c then length (c_in c) < kMaxWsMessage + 14 else length (c_in c) \<le> kMaxHeaderBytes)"

definition client_ok :: "Client \<Rightarrow> bool" where
  "client_ok c \<longleftrightarrow> c_dead c \<or> close_after_write c \<or> message_ok c \<and> input_ok c"

lemma ws_need_more_length: "ws_parse_frame buf m = WsNeedMore \<Longrightarrow> length buf < m + 14"
proof -
  assume need: "ws_parse_frame buf m = WsNeedMore"
  have "length buf < 10 \<or> length buf < m + 14"
  proof (cases "ws_length buf (byte_of (buf ! 1))")
    case None
    then show ?thesis by (auto simp: ws_length_def Let_def split: if_splits)
  next
    case (Some r)
    obtain n p where r: "r = (n, p)" by (cases r)
    have "p \<le> 10" using Some r by (auto simp: ws_length_def Let_def split: if_splits)
    moreover have "unat n \<le> m \<or> length buf < 2"
      using need Some r by (auto simp: ws_parse_frame_def Let_def ws_length_error_def split: if_splits option.splits)
    moreover have "length buf < 2 \<or> length buf < p + 4 \<or> length buf - (p + 4) < unat n"
      using need Some r by (auto simp: ws_parse_frame_def Let_def split: if_splits option.splits)
    ultimately show ?thesis by linarith
  qed
  then show ?thesis by linarith
qed

lemma http_need_more_length: "parse_http_request buf m = Some HttpNeedMore \<Longrightarrow> length buf \<le> m"
  by (auto simp: parse_http_request_def Let_def split: option.splits if_splits sum.splits)

text \<open>What the reply to a message leaves alone.\<close>

lemma handle_ws_message_keeps:
  "handle_ws_message env m c sv w = Some (c', sv', w') \<Longrightarrow>
     in_message c' = in_message c \<and> close_after_write c' = close_after_write c"
  by (auto simp: handle_ws_message_def ws_send_def queue_def split: option.splits prod.splits)

lemma ws_frame_message_ok:
  assumes "message_ok c" "ws_frame env f c sv w = Some (c', sv', w')"
  shows "close_after_write c' \<or> message_ok c'"
proof (cases "ws_opcode f = kText \<or> ws_opcode f = kContinuation")
  case True
  then have t: "ws_text env f c sv w = Some (c', sv', w')"
    using assms(2) by (auto simp: ws_frame_def const_defs split: if_splits)
  show ?thesis
  proof (cases "(ws_opcode f = kText) = in_message c \<or> kMaxWsMessage < length (c_message (ws_append f c))")
    case True
    with t show ?thesis by (auto simp: ws_text_def ws_fail_def Let_def split: if_splits)
  next
    case False
    show ?thesis
    proof (cases "ws_fin f")
      case True
      then obtain c1 where "handle_ws_message env (c_message (ws_append f c)) (ws_append f c) sv w = Some (c1, sv', w')"
        "c' = c1\<lparr>c_message := []\<rparr>"
        using t False by (auto simp: ws_text_def Let_def split: option.splits)
      then show ?thesis by (simp add: message_ok_def)
    next
      case unfinished: False
      then have "c' = ws_append f c" using t False by (auto simp: ws_text_def Let_def)
      with False unfinished show ?thesis by (simp add: message_ok_def) (simp add: ws_append_def)
    qed
  qed
next
  case False
  with assms show ?thesis by (auto simp: ws_frame_def message_ok_def queue_def ws_fail_def split: if_splits)
qed

lemma handle_ws_frames_ok:
  "message_ok c \<Longrightarrow> handle_ws_frames env c sv w = Some (c', sv', w') \<Longrightarrow>
     c_dead c' \<or> close_after_write c' \<or> message_ok c' \<and> length (c_in c') < kMaxWsMessage + 14"
proof (induction env c sv w rule: handle_ws_frames.induct)
  case (1 env c sv w)
  note step = 1(3) [unfolded handle_ws_frames.simps [of env c sv w]]
  show ?case
  proof (cases "\<exists>f k r. \<not> (c_dead c \<or> close_after_write c) \<and> ws_parse_frame (c_in c) kMaxWsMessage = WsFrameAt f k \<and>
      ws_frame env f (c\<lparr>c_in := drop k (c_in c)\<rparr>) sv w = Some r")
    case True
    then obtain f k c1 sv1 w1 where f: "\<not> (c_dead c \<or> close_after_write c)"
      "ws_parse_frame (c_in c) kMaxWsMessage = WsFrameAt f k"
      "ws_frame env f (c\<lparr>c_in := drop k (c_in c)\<rparr>) sv w = Some (c1, sv1, w1)"
      by auto
    with step have rest: "handle_ws_frames env c1 sv1 w1 = Some (c', sv', w')" by simp
    have "message_ok (c\<lparr>c_in := drop k (c_in c)\<rparr>)" using 1(2) by (simp add: message_ok_def)
    from ws_frame_message_ok [OF this f(3)] show ?thesis
    proof
      assume "close_after_write c1"
      with rest show ?thesis by (simp add: handle_ws_frames_closed)
    next
      assume "message_ok c1"
      from 1(1) [OF f refl refl this rest] show ?thesis .
    qed
  next
    case False
    with step 1(2) show ?thesis
      by (auto simp: ws_fail_def dest!: ws_need_more_length split: if_splits WsParse.splits option.splits)
  qed
qed

text \<open>A request is answered and the connection closed, unless it is an upgrade without an objection.\<close>

definition upgrades :: "string \<Rightarrow> bool" where
  "upgrades buf \<longleftrightarrow> (\<exists>req k. parse_http_request buf kMaxHeaderBytes = Some (HttpRequestAt req k) \<and> rq_path req = ''/ws'' \<and>
     upgrade_error req = None)"

lemma handle_http_refused:
  assumes "handle_http env c sv w = Some (c', sv', w')" "\<not> upgrades (c_in c)"
    "parse_http_request (c_in c) kMaxHeaderBytes \<noteq> Some HttpNeedMore"
  shows "close_after_write c'"
proof -
  obtain p where p: "parse_http_request (c_in c) kMaxHeaderBytes = Some p"
    using assms(1) by (auto simp: handle_http_def split: option.splits)
  show ?thesis
  proof (cases p)
    case HttpNeedMore
    with p assms(3) show ?thesis by simp
  next
    case (HttpError err)
    with p assms(1) show ?thesis by (auto simp: handle_http_def Let_def)
  next
    case (HttpRequestAt req k)
    show ?thesis
    proof (cases "rq_path req = ''/ws''")
      case True
      then obtain e where "upgrade_error req = Some e" using assms(2) p HttpRequestAt by (auto simp: upgrades_def)
      with True p HttpRequestAt assms(1) show ?thesis
        by (cases e) (auto simp: handle_http_def upgrade_websocket_def)
    next
      case False
      with p HttpRequestAt assms(1) serve_http_closes [of env req "c\<lparr>c_in := drop k (c_in c)\<rparr>" sv w] show ?thesis
        by (simp add: handle_http_def)
    qed
  qed
qed

lemma serve_http_unchanged:
  "serve_http env req c sv w = (c', sv', w') \<Longrightarrow> c_websocket c' = c_websocket c \<and> push_on_next_stats sv' = push_on_next_stats sv"
  by (auto simp: serve_http_def stats_envelope_def Let_def queue_def split: if_splits prod.splits option.splits)

lemma handle_http_unchanged:
  assumes "handle_http env c sv w = Some (c', sv', w')" "\<not> upgrades (c_in c)"
  shows "c_websocket c' = c_websocket c \<and> push_on_next_stats sv' = push_on_next_stats sv"
proof -
  obtain p where p: "parse_http_request (c_in c) kMaxHeaderBytes = Some p"
    using assms(1) by (auto simp: handle_http_def split: option.splits)
  show ?thesis
  proof (cases p)
    case (HttpRequestAt req k)
    show ?thesis
    proof (cases "rq_path req = ''/ws''")
      case True
      then obtain e where "upgrade_error req = Some e" using assms(2) p HttpRequestAt by (auto simp: upgrades_def)
      with True p HttpRequestAt assms(1) show ?thesis
        by (cases e) (auto simp: handle_http_def upgrade_websocket_def queue_def)
    next
      case False
      with p HttpRequestAt assms(1) serve_http_unchanged [of env req "c\<lparr>c_in := drop k (c_in c)\<rparr>" sv w c' sv' w'] show ?thesis
        by (simp add: handle_http_def)
    qed
  qed (use p assms(1) in \<open>auto simp: handle_http_def Let_def queue_def\<close>)
qed

lemma handle_input_ok:
  assumes "message_ok c \<or> c_dead c \<or> close_after_write c" "handle_input env c sv w = Some (c', sv', w')"
  shows "client_ok c'"
proof (cases "close_after_write c")
  case True
  with assms show ?thesis by (simp add: handle_input_def client_ok_def)
next
  case open_client: False
  show ?thesis
  proof (cases "c_websocket c")
    case True
    then have f: "handle_ws_frames env c sv w = Some (c', sv', w')" using assms open_client by (simp add: handle_input_def)
    from handle_ws_frames_keeps [OF f] True have "c_websocket c'" by simp
    with handle_ws_frames_ok [OF _ f] handle_ws_frames_closed [of c env sv w] assms(1) f open_client show ?thesis
      by (auto simp: client_ok_def input_ok_def)
  next
    case False
    then have h: "handle_http env c sv w = Some (c', sv', w')" using assms open_client by (simp add: handle_input_def)
    show ?thesis
    proof (cases "upgrades (c_in c)")
      case True
      then obtain req k where req: "parse_http_request (c_in c) kMaxHeaderBytes = Some (HttpRequestAt req k)"
        "rq_path req = ''/ws''" "upgrade_error req = None" unfolding upgrades_def by blast
      obtain body sv1 w1 where e: "stats_envelope env sv w = (body, sv1, w1)" by (cases "stats_envelope env sv w")
      define c1 where "c1 = ws_send body (ws_send (hello_json env sv) ((queue (switching_protocols (header req ''sec-websocket-key''))
        (c\<lparr>c_in := drop k (c_in c)\<rparr>))\<lparr>c_websocket := True\<rparr>))"
      have up: "handle_ws_frames env c1 sv1 w1 = Some (c', sv', w')"
        using h req e handle_ws_frames_empty [of c1 env sv1 w1]
        by (auto simp: handle_http_def upgrade_websocket_def Let_def c1_def split: if_splits)
      have c1: "c_websocket c1" "message_ok c1 \<or> c_dead c1" "close_after_write c1 = close_after_write c" "c_dead c1 = c_dead c"
        using assms(1) open_client by (auto simp: c1_def ws_send_def queue_def message_ok_def)
      from handle_ws_frames_keeps [OF up] c1(1) have "c_websocket c'" by simp
      with c1 handle_ws_frames_ok [OF _ up] handle_ws_frames_closed [of c1 env sv1 w1] up show ?thesis
        by (auto simp: client_ok_def input_ok_def)
    next
      case refused: False
      show ?thesis
      proof (cases "parse_http_request (c_in c) kMaxHeaderBytes = Some HttpNeedMore")
        case True
        then have "c' = c" using h by (simp add: handle_http_def)
        with True False assms(1) http_need_more_length [OF True] show ?thesis by (auto simp: client_ok_def input_ok_def)
      next
        case decided: False
        with handle_http_refused [OF h] refused show ?thesis by (auto simp: client_ok_def)
      qed
    qed
  qed
qed
section \<open>Reading and writing\<close>

text \<open>What \<open>recv\<close> and \<open>send\<close> do to a client.\<close>

lemma recv_client_keeps:
  assumes "recv_client env c w = Some (ended, c', w')"
  shows "c' = c\<lparr>c_in := c_in c', c_dead := c_dead c'\<rparr> \<and> (ended \<longrightarrow> c_dead c') \<and> (c_dead c \<longrightarrow> c_dead c')"
proof -
  have "case r of (ended, c', w') \<Rightarrow> c' = c\<lparr>c_in := c_in c', c_dead := c_dead c'\<rparr> \<and> (ended \<longrightarrow> c_dead c') \<and> (c_dead c \<longrightarrow> c_dead c')"
    if "recv_client env c w = Some r" for r
    using that
  proof (induction env c w r rule: recv_client.raw_induct [rotated, consumes 1])
    case (1 rec env c w r)
    show ?case
    proof (cases "\<exists>c1 w1. rec env c1 w1 = Some r \<and> c1 = c\<lparr>c_in := c_in c1\<rparr>")
      case True
      then obtain c1 w1 where r: "rec env c1 w1 = Some r" "c1 = c\<lparr>c_in := c_in c1\<rparr>" by blast
      obtain ended c2 w2 where e: "r = (ended, c2, w2)" by (cases r)
      from 1(1) [OF r(1)] e have "c2 = c1\<lparr>c_in := c_in c2, c_dead := c_dead c2\<rparr>" "ended \<longrightarrow> c_dead c2" "c_dead c1 \<longrightarrow> c_dead c2"
        by simp_all
      moreover have "c1\<lparr>c_in := i, c_dead := d\<rparr> = c\<lparr>c_in := i, c_dead := d\<rparr>" for i d
        by (subst r(2)) simp
      moreover have "c_dead c1 = c_dead c" by (subst r(2)) simp
      ultimately show ?thesis using e by auto
    next
      case False
      with 1(2) show ?thesis
        by (force split: prod.splits ClientRecv.splits if_splits)
    qed
  qed
  from this [OF assms] show ?thesis by simp
qed

lemma write_client_keeps:
  assumes "write_client env c w = Some (c', w')"
  shows "c' = c\<lparr>c_out := c_out c', c_dead := c_dead c'\<rparr> \<and> (c_dead c \<longrightarrow> c_dead c')"
proof -
  have "case r of (c', w') \<Rightarrow> c' = c\<lparr>c_out := c_out c', c_dead := c_dead c'\<rparr> \<and> (c_dead c \<longrightarrow> c_dead c')"
    if "write_client env c w = Some r" for r
    using that
  proof (induction env c w r rule: write_client.raw_induct [rotated, consumes 1])
    case (1 rec env c w r)
    show ?case
    proof (cases "\<exists>c1 w1. rec env c1 w1 = Some r \<and> c1 = c\<lparr>c_out := c_out c1\<rparr>")
      case True
      then obtain c1 w1 where r: "rec env c1 w1 = Some r" "c1 = c\<lparr>c_out := c_out c1\<rparr>" by blast
      obtain c2 w2 where e: "r = (c2, w2)" by (cases r)
      from 1(1) [OF r(1)] e have "c2 = c1\<lparr>c_out := c_out c2, c_dead := c_dead c2\<rparr>" "c_dead c1 \<longrightarrow> c_dead c2"
        by simp_all
      moreover have "c1\<lparr>c_out := i, c_dead := d\<rparr> = c\<lparr>c_out := i, c_dead := d\<rparr>" for i d
        by (subst r(2)) simp
      moreover have "c_dead c1 = c_dead c" by (subst r(2)) simp
      ultimately show ?thesis using e by auto
    next
      case False
      with 1(2) show ?thesis
        by (force split: prod.splits SendResult.splits if_splits)
    qed
  qed
  from this [OF assms] show ?thesis by simp
qed

section \<open>The server behind the handlers\<close>

text \<open>The handlers count the updates and remember that a command went out; the rest of the server they only read.\<close>

definition same_server :: "ControlServer \<Rightarrow> ControlServer \<Rightarrow> bool" where
  "same_server sv sv' \<longleftrightarrow> sv' = sv\<lparr>updates_sent := updates_sent sv', push_on_next_stats := push_on_next_stats sv'\<rparr>"

lemma same_server_refl [simp]: "same_server sv sv"
  by (simp add: same_server_def)

lemma same_server_trans: "same_server sv sv' \<Longrightarrow> same_server sv' sv'' \<Longrightarrow> same_server sv sv''"
proof -
  assume a: "same_server sv sv'" "same_server sv' sv''"
  then have "sv'' = sv'\<lparr>updates_sent := updates_sent sv'', push_on_next_stats := push_on_next_stats sv''\<rparr>"
    by (simp add: same_server_def)
  also have "\<dots> = sv\<lparr>updates_sent := updates_sent sv'', push_on_next_stats := push_on_next_stats sv''\<rparr>"
    using a(1) unfolding same_server_def by (metis (no_types, lifting) ControlServer.update_convs(12,14)
      ControlServer.surjective)
  finally show ?thesis by (simp add: same_server_def)
qed

lemma stats_envelope_server: "same_server sv (fst (snd (stats_envelope env sv w)))"
  by (simp add: stats_envelope_def Let_def same_server_def split: prod.split)

lemma handle_ws_message_server: "handle_ws_message env m c sv w = Some (c', sv', w') \<Longrightarrow> same_server sv sv'"
  by (auto simp: handle_ws_message_def same_server_def split: option.splits prod.splits if_splits bool.splits)

lemma ws_frame_server: "ws_frame env f c sv w = Some (c', sv', w') \<Longrightarrow> same_server sv sv'"
  by (auto simp: ws_frame_def ws_text_def Let_def dest: handle_ws_message_server split: if_splits option.splits)

lemma handle_ws_frames_server: "handle_ws_frames env c sv w = Some (c', sv', w') \<Longrightarrow> same_server sv sv'"
proof (induction env c sv w rule: handle_ws_frames.induct)
  case (1 env c sv w)
  note step = 1(2) [unfolded handle_ws_frames.simps [of env c sv w]]
  show ?case
  proof (cases "\<exists>f k r. \<not> (c_dead c \<or> close_after_write c) \<and> ws_parse_frame (c_in c) kMaxWsMessage = WsFrameAt f k \<and>
      ws_frame env f (c\<lparr>c_in := drop k (c_in c)\<rparr>) sv w = Some r")
    case True
    then obtain f k c1 sv1 w1 where f: "\<not> (c_dead c \<or> close_after_write c)"
      "ws_parse_frame (c_in c) kMaxWsMessage = WsFrameAt f k"
      "ws_frame env f (c\<lparr>c_in := drop k (c_in c)\<rparr>) sv w = Some (c1, sv1, w1)"
      by auto
    with step have "handle_ws_frames env c1 sv1 w1 = Some (c', sv', w')" by simp
    from 1(1) [OF f refl refl this] ws_frame_server [OF f(3)] show ?thesis using same_server_trans by blast
  next
    case False
    with step show ?thesis by (auto split: if_splits WsParse.splits option.splits)
  qed
qed


lemma handle_http_server: "handle_http env c sv w = Some (c', sv', w') \<Longrightarrow> same_server sv sv'"
proof -
  assume h: "handle_http env c sv w = Some (c', sv', w')"
  have serve: "serve_http env req c sv w = (c', sv', w') \<Longrightarrow> same_server sv sv'" for req c
    using stats_envelope_server [of sv env w]
    by (auto simp: serve_http_def Let_def split: if_splits prod.splits option.splits)
  have up: "upgrade_websocket env req c sv w = Some (c', sv', w') \<Longrightarrow> same_server sv sv'" for req c
  proof -
    assume u: "upgrade_websocket env req c sv w = Some (c', sv', w')"
    obtain body sv1 w1 where e: "stats_envelope env sv w = (body, sv1, w1)" by (cases "stats_envelope env sv w")
    with stats_envelope_server [of sv env w] have "same_server sv sv1" by simp
    with u e show ?thesis
      by (auto simp: upgrade_websocket_def Let_def split: if_splits option.splits
          dest!: handle_ws_frames_server intro: same_server_trans)
  qed
  from h show ?thesis
    by (auto simp: handle_http_def Let_def intro: serve up split: option.splits HttpParse.splits if_splits)
qed

lemma read_client_server: "read_client env c sv w = Some (c', sv', w') \<Longrightarrow> same_server sv sv'"
  by (auto simp: read_client_def handle_input_def split: option.splits bool.splits if_splits
      dest: handle_ws_frames_server handle_http_server)

lemma same_server_cfg: "same_server sv sv' \<Longrightarrow> cs_cfg sv' = cs_cfg sv"
  unfolding same_server_def by (erule ssubst) simp

lemma take_stats_cfg: "take_stats env frames sv w = Some (accepted, sv', w') \<Longrightarrow> cs_cfg sv' = cs_cfg sv"
  by (auto simp: take_stats_def Let_def split: option.splits if_splits prod.splits)

section \<open>Bounded memory\<close>

lemma read_client_ok:
  assumes "read_client env c sv w = Some (c', sv', w')"
  shows "(client_ok c \<longrightarrow> client_ok c') \<and> (close_after_write c \<longrightarrow> close_after_write c')"
proof -
  obtain ended c1 w1 where r: "recv_client env c w = Some (ended, c1, w1)"
    using assms by (auto simp: read_client_def split: option.splits)
  have keep: "c1 = c\<lparr>c_in := c_in c1, c_dead := c_dead c1\<rparr>" "ended \<Longrightarrow> c_dead c1" "c_dead c \<Longrightarrow> c_dead c1"
    using recv_client_keeps [OF r] by auto
  have same: "close_after_write c1 = close_after_write c" "c_message c1 = c_message c" "in_message c1 = in_message c"
    by (subst keep(1), simp)+
  show ?thesis
  proof (cases ended)
    case True
    with assms r same keep show ?thesis by (auto simp: read_client_def client_ok_def)
  next
    case False
    then have h: "handle_input env c1 sv w1 = Some (c', sv', w')" using assms r by (auto simp: read_client_def)
    have "close_after_write c \<longrightarrow> close_after_write c'" using h same by (auto simp: handle_input_def)
    moreover have "client_ok c \<longrightarrow> client_ok c'"
      using handle_input_ok [OF _ h] same keep(3) by (auto simp: client_ok_def message_ok_def)
    ultimately show ?thesis by simp
  qed
qed

lemma write_client_ok:
  "write_client env c w = Some (c', w') \<Longrightarrow> (client_ok c \<longrightarrow> client_ok c') \<and> (close_after_write c \<longrightarrow> close_after_write c')"
proof -
  assume "write_client env c w = Some (c', w')"
  from write_client_keeps [OF this] have keep: "c' = c\<lparr>c_out := c_out c', c_dead := c_dead c'\<rparr>" "c_dead c \<longrightarrow> c_dead c'"
    by blast+
  have "(client_ok c \<longrightarrow> client_ok (c\<lparr>c_out := t, c_dead := d\<rparr>)) \<and>
      (close_after_write c \<longrightarrow> close_after_write (c\<lparr>c_out := t, c_dead := d\<rparr>))" if "c_dead c \<longrightarrow> d" for t d
    using that by (auto simp: client_ok_def message_ok_def input_ok_def)
  from this [OF keep(2), of "c_out c'"] show ?thesis unfolding keep(1) [symmetric] .
qed

interpretation bounded: round_steps env
  "\<lambda>c c'. (client_ok c \<longrightarrow> client_ok c') \<and> (close_after_write c \<longrightarrow> close_after_write c')"
  "\<lambda>s s'. cs_cfg (fst s') = cs_cfg (fst s)" for env :: "'w ControlEnv"
proof unfold_locales
  fix c :: Client and t
  assume "\<not> close_after_write c"
  then show "(client_ok c \<longrightarrow> client_ok (queue t c)) \<and> (close_after_write c \<longrightarrow> close_after_write (queue t c))"
    by (simp add: client_ok_def message_ok_def input_ok_def queue_def)
next
  fix c sv w and c' :: Client and sv' and w' :: 'w
  assume r: "read_client env c sv w = Some (c', sv', w')"
  then show "((client_ok c \<longrightarrow> client_ok c') \<and> (close_after_write c \<longrightarrow> close_after_write c')) \<and>
      cs_cfg (fst (sv', w')) = cs_cfg (fst (sv, w))"
    using read_client_ok [OF r] same_server_cfg [OF read_client_server [OF r]] by simp
next
  fix c w and c' :: Client and w' :: 'w and sv :: ControlServer
  assume "write_client env c w = Some (c', w')"
  then show "((client_ok c \<longrightarrow> client_ok c') \<and> (close_after_write c \<longrightarrow> close_after_write c')) \<and>
      cs_cfg (fst (sv, w')) = cs_cfg (fst (sv, w))"
    using write_client_ok by simp
next
  fix c c' c'' :: Client
  assume "(client_ok c \<longrightarrow> client_ok c') \<and> (close_after_write c \<longrightarrow> close_after_write c')"
    "(client_ok c' \<longrightarrow> client_ok c'') \<and> (close_after_write c' \<longrightarrow> close_after_write c'')"
  then show "(client_ok c \<longrightarrow> client_ok c'') \<and> (close_after_write c \<longrightarrow> close_after_write c'')" by blast
qed (simp_all add: client_ok_def message_ok_def input_ok_def close_client_def take_stats_cfg
    same_server_cfg [OF stats_envelope_server])

section \<open>The states of the server\<close>

text \<open>After \<open>init\<close> in the world \<open>w0\<close>, and after every round of the loop of \<open>run\<close>, whatever the poll reports.\<close>

inductive serving :: "'w ControlEnv \<Rightarrow> ControlServerConfig \<Rightarrow> 'w \<Rightarrow> ControlServer \<Rightarrow> 'w \<Rightarrow> bool" for env cfg w0 where
  started: "server_init env (new_ControlServer cfg) w0 = (None, sv, w) \<Longrightarrow> serving env cfg w0 sv w"
| polled: "serving env cfg w0 sv w \<Longrightarrow> server_poll_once env timeout_ms sv (snd (ct_monotonic env w)) = Some (good, sv', w') \<Longrightarrow>
    serving env cfg w0 sv' w'"

lemma server_loop_serving:
  assumes "server_loop env sv w = Some (stopped, sv', w')" "serving env cfg w0 sv w"
  shows "serving env cfg w0 sv' w'"
proof -
  have "case r of (_, sv', w') \<Rightarrow> serving env cfg w0 sv' w'"
    if "server_loop env' sv w = Some r" "env' = env" "serving env cfg w0 sv w" for env' sv w r
    using that
  proof (induction env' sv w r rule: server_loop.raw_induct [rotated, consumes 1])
    case (1 rec env' sv w r)
    show ?case
    proof (cases "ct_shutdown_requested env w")
      case True
      with 1(2-4) show ?thesis by auto
    next
      case False
      obtain now w1 where c: "ct_monotonic env w = (now, w1)" by (cases "ct_monotonic env w")
      then obtain good sv2 w2 where p: "server_poll_once env
          (if now < next_update_ns sv then sint ((next_update_ns sv - now) div kNsPerMs + 1) else 0) sv w1 = Some (good, sv2, w2)"
        and rest: "(if good then rec env sv2 w2 else Some (False, sv2, w2)) = Some r"
        using 1(2,3) False by (auto split: option.splits)
      have s: "serving env cfg w0 sv2 w2" by (rule serving.polled [OF 1(4)]) (use p c in simp)
      with rest 1(1) [OF _ refl s] show ?thesis by (cases good) auto
    qed
  qed
  from this [OF assms(1) refl assms(2)] show ?thesis by simp
qed

lemma server_init_clients:
  "server_init env sv w = (None, sv', w') \<Longrightarrow> cs_clients sv' = cs_clients sv \<and> cs_cfg sv' = cs_cfg sv"
  by (auto simp: server_init_def init_zmq_def init_listener_def Let_def split: prod.splits option.splits sum.splits)

lemma served_fresh: "fresh limit n new \<Longrightarrow> length (filter (\<lambda>c. \<not> close_after_write c) new) \<le> limit - n"
proof -
  assume "fresh limit n new"
  then have "{i. i < length new \<and> \<not> close_after_write (new ! i)} \<subseteq> {..<limit - n}" by (auto simp: fresh_def)
  then have "card {i. i < length new \<and> \<not> close_after_write (new ! i)} \<le> limit - n"
    by (metis card_lessThan card_mono finite_lessThan)
  then show ?thesis by (simp add: length_filter_conv_card)
qed

lemma filter_all2_le: "list_all2 (\<lambda>x y. Q y \<longrightarrow> P x) xs ys \<Longrightarrow> length (filter Q ys) \<le> length (filter P xs)"
  by (induction xs ys rule: list_all2_induct) auto

definition server_bounded :: "ControlServer \<Rightarrow> bool" where
  "server_bounded sv \<longleftrightarrow> (\<forall>c\<in>set (cs_clients sv). client_ok c) \<and>
     length (filter (\<lambda>c. \<not> close_after_write c) (cs_clients sv)) \<le> max_clients (cs_cfg sv)"

lemma server_poll_once_bounded:
  assumes "server_bounded sv" "server_poll_once env timeout_ms sv w = Some (good, sv', w')"
  shows "server_bounded sv'"
proof -
  let ?R = "\<lambda>c c'. (client_ok c \<longrightarrow> client_ok c') \<and> (close_after_write c \<longrightarrow> close_after_write c')"
  let ?served = "\<lambda>c. \<not> close_after_write c"
  let ?n = "length (cs_clients sv)" and ?limit = "max_clients (cs_cfg sv)"
  obtain old new cs keep where
    old: "list_all2 ?R (cs_clients sv) old" and new: "fresh ?limit ?n new" and
    cs: "list_all2 ?R (old @ new) cs" and result: "cs_clients sv' = filter keep cs" and cfg: "cs_cfg sv' = cs_cfg sv"
    using bounded.server_poll_once_steps [OF assms(2)] by auto
  have ok: "list_all2 ?R xs ys \<Longrightarrow> \<forall>c\<in>set xs. client_ok c \<Longrightarrow> \<forall>c\<in>set ys. client_ok c" for xs ys
    by (induction rule: list_all2_induct) auto
  have "\<forall>c\<in>set new. client_ok c"
    using new unfolding fresh_def by (auto simp: in_set_conv_nth client_ok_def message_ok_def input_ok_def)
  moreover have "\<forall>c\<in>set old. client_ok c" by (rule ok [OF old]) (use assms(1) in \<open>simp add: server_bounded_def\<close>)
  ultimately have "\<forall>c\<in>set (old @ new). client_ok c" by (simp add: ball_Un)
  from ok [OF cs this] have "\<forall>c\<in>set (cs_clients sv'). client_ok c" by (simp add: result)
  moreover have "length (filter ?served (cs_clients sv')) \<le> ?limit"
  proof -
    have le: "list_all2 ?R xs ys \<Longrightarrow> length (filter ?served ys) \<le> length (filter ?served xs)" for xs ys
      by (rule filter_all2_le, erule list_all2_mono) blast
    have "length (filter ?served (cs_clients sv')) \<le> length (filter ?served cs)"
      unfolding result by (induction cs) auto
    also have "\<dots> \<le> length (filter ?served old) + length (filter ?served new)" using le [OF cs] by simp
    finally have sum: "length (filter ?served (cs_clients sv')) \<le> length (filter ?served old) + length (filter ?served new)" .
    have few: "length (filter ?served old) \<le> ?limit" using le [OF old] assms(1) by (simp add: server_bounded_def)
    have all: "length (filter ?served old) \<le> ?n" using list_all2_lengthD [OF old] by (metis length_filter_le)
    show ?thesis
    proof (cases "?n < ?limit")
      case True
      with sum all served_fresh [OF new] show ?thesis by simp
    next
      case False
      with sum few served_fresh [OF new] show ?thesis by simp
    qed
  qed
  ultimately show ?thesis by (simp add: server_bounded_def cfg)
qed


lemma serving_sample: "\<exists>sv. serving sample_env default_ControlServerConfig [] sv [] \<and> cs_clients sv = []"
proof -
  obtain sv where "server_init sample_env (new_ControlServer default_ControlServerConfig) [] = (None, sv, [])"
    by (simp add: server_init_def init_zmq_def init_listener_def Let_def sample_env_def listen_address_def parse_ipv4_def
        default_ControlServerConfig_def new_ControlServer_def)
  from serving.started [OF this] server_init_clients [OF this] show ?thesis
    by (intro exI [of _ sv]) (simp add: new_ControlServer_def)
qed


section \<open>Commands\<close>

text \<open>A property of the world that everything but a command to the receiver leaves true.\<close>

definition untouched :: "'w ControlEnv \<Rightarrow> ('w \<Rightarrow> bool) \<Rightarrow> bool" where
  "untouched env P \<longleftrightarrow>
     (\<forall>w. P w \<longrightarrow> P (snd (ct_monotonic env w)) \<and> P (snd (ct_realtime env w)) \<and> (\<forall>fd. P (snd (ct_recv env fd w))) \<and>
        (\<forall>fd s. P (snd (ct_send env fd s w))) \<and> (\<forall>fd. P (snd (ct_accept env fd w))) \<and> (\<forall>fd. P (ct_close env fd w)) \<and>
        P (snd (ct_recv_stats env w)) \<and> (\<forall>fd items t. P (snd (ct_poll env fd items t w))) \<and> (\<forall>f. P (snd (ct_read_file env f w))))"

text \<open>The frames that a command to the receiver consists of.\<close>

definition record_commands :: "string set" where
  "record_commands = {''record on'', ''record off''}"

definition commands_keep :: "'w ControlEnv \<Rightarrow> string \<Rightarrow> ('w \<Rightarrow> bool) \<Rightarrow> bool" where
  "commands_keep env topic P \<longleftrightarrow>
     (\<forall>w s more. P w \<longrightarrow> s \<in> record_commands \<or> s = topic \<and> more \<longrightarrow> P (snd (ct_send_command env s more w)))"

lemma untouched_simps:
  assumes "untouched env P" "P w"
  shows "P (snd (ct_monotonic env w))" "P (snd (ct_realtime env w))" "P (snd (ct_recv env fd w))" "P (snd (ct_send env fd s w))"
    "P (snd (ct_accept env fd w))" "P (ct_close env fd w)" "P (snd (ct_recv_stats env w))" "P (snd (ct_poll env fd items t w))"
    "P (snd (ct_read_file env f w))"
  using assms(1) [unfolded untouched_def, rule_format, OF assms(2)] by simp_all

lemma record_request_command: "fst (record_request msg) \<in> insert [] record_commands"
proof -
  have rec: "(case v of Some (VBool b) \<Rightarrow> (if b then p else q, []) | _ \<Rightarrow> ([], e)) \<in> {[], p, q} \<times> UNIV" for v p q and e :: string
    by (auto split: option.split Value.split)
  have chosen: "fst (case v of Some (VString t) \<Rightarrow> if t = r then a else ([], f t) | _ \<Rightarrow> ([], e)) \<in> insert [] C"
    if "fst a \<in> insert [] C" for v r f C and a :: "string \<times> string" and e
    using that by (auto split: option.split Value.split)
  show ?thesis
    unfolding record_request_def record_commands_def by (rule chosen) (use rec in \<open>simp add: mem_Times_iff\<close>)
qed

lemma ws_request_command:
  assumes "ws_request m = Some (ident, command, err)" "command \<noteq> []"
  shows "command \<in> record_commands"
proof -
  obtain kvs where "record_request (VObject kvs) = (command, err)"
    using assms by (auto simp: ws_request_def split: option.splits sum.splits Value.splits)
  with record_request_command [of "VObject kvs"] assms(2) show ?thesis by simp
qed

lemma ctl_send_command_keeps:
  assumes "commands_keep env (cc_command_topic (cs_cfg sv)) P" "P w" "command \<in> record_commands"
  shows "P (snd (snd (ctl_send_command env command sv w)))"
proof -
  note send = assms(1) [unfolded commands_keep_def, rule_format]
  have one: "P (snd (zmq_send_frames (ct_send_command env) [command] w))" if "P w" for w
    using send [of w command False] that assms(3) by (cases "ct_send_command env command False w") (simp split: bool.split)
  have "P (snd (zmq_send_frames (ct_send_command env) [cc_command_topic (cs_cfg sv), command] w))"
    using send [of w "cc_command_topic (cs_cfg sv)" True] assms(2) one [of "snd (ct_send_command env (cc_command_topic (cs_cfg sv)) True w)"]
    by (cases "ct_send_command env (cc_command_topic (cs_cfg sv)) True w")
      (simp split: bool.split del: zmq_send_frames.simps add: zmq_send_frames.simps(2) [of _ _ "[command]"])
  with one assms(2) have "P (snd (zmq_send_frames (ct_send_command env)
      ((if cc_command_topic (cs_cfg sv) \<noteq> [] then [cc_command_topic (cs_cfg sv)] else []) @ [command]) w))"
    by simp
  then show ?thesis
    by (cases "zmq_send_frames (ct_send_command env)
        ((if cc_command_topic (cs_cfg sv) \<noteq> [] then [cc_command_topic (cs_cfg sv)] else []) @ [command]) w")
      (simp add: ctl_send_command_def Let_def split: bool.split)
qed

lemma handle_ws_message_world:
  assumes "handle_ws_message env m c sv w = Some (c', sv', w')" "commands_keep env (cc_command_topic (cs_cfg sv)) P" "P w"
  shows "P w'"
proof -
  obtain ident command err where r: "ws_request m = Some (ident, command, err)"
    using assms(1) by (auto simp: handle_ws_message_def split: option.splits)
  obtain sent err' w1 where s: "ctl_send_command env command sv w = (sent, err', w1)" by (cases "ctl_send_command env command sv w")
  have "w' = (if command \<noteq> [] then w1 else w)"
    using assms(1) r s by (auto simp: handle_ws_message_def split: bool.splits)
  moreover have "command \<noteq> [] \<Longrightarrow> P w1"
    using ctl_send_command_keeps [OF assms(2,3), of command] ws_request_command [OF r] s by simp
  ultimately show ?thesis using assms(3) by simp
qed

lemma ws_frame_world:
  "ws_frame env f c sv w = Some (c', sv', w') \<Longrightarrow> commands_keep env (cc_command_topic (cs_cfg sv)) P \<Longrightarrow> P w \<Longrightarrow> P w'"
  by (auto simp: ws_frame_def ws_text_def Let_def dest: handle_ws_message_world split: if_splits option.splits)

lemma handle_ws_frames_world:
  "handle_ws_frames env c sv w = Some (c', sv', w') \<Longrightarrow> commands_keep env (cc_command_topic (cs_cfg sv)) P \<Longrightarrow> P w \<Longrightarrow> P w'"
proof (induction env c sv w rule: handle_ws_frames.induct)
  case (1 env c sv w)
  note step = 1(2) [unfolded handle_ws_frames.simps [of env c sv w]]
  show ?case
  proof (cases "\<exists>f k r. \<not> (c_dead c \<or> close_after_write c) \<and> ws_parse_frame (c_in c) kMaxWsMessage = WsFrameAt f k \<and>
      ws_frame env f (c\<lparr>c_in := drop k (c_in c)\<rparr>) sv w = Some r")
    case True
    then obtain f k c1 sv1 w1 where f: "\<not> (c_dead c \<or> close_after_write c)"
      "ws_parse_frame (c_in c) kMaxWsMessage = WsFrameAt f k"
      "ws_frame env f (c\<lparr>c_in := drop k (c_in c)\<rparr>) sv w = Some (c1, sv1, w1)"
      by auto
    with step have "handle_ws_frames env c1 sv1 w1 = Some (c', sv', w')" by simp
    from 1(1) [OF f refl refl this] ws_frame_world [OF f(3) 1(3,4)] 1(3) same_server_cfg [OF ws_frame_server [OF f(3)]]
    show ?thesis by simp
  next
    case False
    with step 1(4) show ?thesis by (auto split: if_splits WsParse.splits option.splits)
  qed
qed

lemma stats_envelope_world: "untouched env P \<Longrightarrow> P w \<Longrightarrow> P (snd (snd (stats_envelope env sv w)))"
  using untouched_simps(1) [of env P w] untouched_simps(2) [of env P "snd (ct_monotonic env w)"]
  by (auto simp: stats_envelope_def Let_def split: prod.split)

lemma load_asset_world: "untouched env P \<Longrightarrow> P w \<Longrightarrow> P (snd (load_asset env sv path w))"
  using untouched_simps(9) [of env P w "web_root (cs_cfg sv) @ path"]
  by (cases "ct_read_file env (web_root (cs_cfg sv) @ path) w") (simp add: load_asset_def split: option.split prod.split)

lemma serve_http_world: "untouched env P \<Longrightarrow> P w \<Longrightarrow> P (snd (snd (serve_http env req c sv w)))"
proof -
  assume P: "untouched env P" "P w"
  let ?path = "if rq_path req = ''/'' then ''/index.html'' else rq_path req"
  obtain body sv1 w1 where e: "stats_envelope env sv w = (body, sv1, w1)" by (cases "stats_envelope env sv w")
  obtain a w2 where l: "load_asset env sv ?path w = (a, w2)" by (cases "load_asset env sv ?path w")
  have "P w1" "P w2" using stats_envelope_world [OF P, of sv] load_asset_world [OF P, of sv ?path] e l by simp_all
  with P(2) e l show ?thesis by (simp add: serve_http_def Let_def split: option.split prod.split)
qed

lemma handle_http_world:
  assumes "handle_http env c sv w = Some (c', sv', w')" "untouched env P" "P w"
    "commands_keep env (cc_command_topic (cs_cfg sv)) P \<or> \<not> upgrades (c_in c)"
  shows "P w'"
proof -
  obtain p where p: "parse_http_request (c_in c) kMaxHeaderBytes = Some p"
    using assms(1) by (auto simp: handle_http_def split: option.splits)
  show ?thesis
  proof (cases p)
    case (HttpRequestAt req k)
    let ?c = "c\<lparr>c_in := drop k (c_in c)\<rparr>"
    show ?thesis
    proof (cases "rq_path req = ''/ws''")
      case False
      with p HttpRequestAt assms(1) serve_http_world [OF assms(2,3), of req ?c sv] show ?thesis by (simp add: handle_http_def)
    next
      case ws: True
      then have up: "upgrade_websocket env req ?c sv w = Some (c', sv', w')"
        using p HttpRequestAt assms(1) by (simp add: handle_http_def)
      show ?thesis
      proof (cases "upgrade_error req")
        case (Some e)
        with up assms(3) show ?thesis by (cases e) (simp add: upgrade_websocket_def)
      next
        case None
        then have "upgrades (c_in c)" using p HttpRequestAt ws by (simp add: upgrades_def)
        then have keep: "commands_keep env (cc_command_topic (cs_cfg sv)) P" using assms(4) by simp
        obtain body sv1 w1 where e: "stats_envelope env sv w = (body, sv1, w1)" by (cases "stats_envelope env sv w")
        have "cs_cfg sv1 = cs_cfg sv" "P w1"
          using stats_envelope_world [OF assms(2,3), of sv] same_server_cfg [OF stats_envelope_server, of env sv w] e by simp_all
        with keep up None e show ?thesis
          by (auto simp: upgrade_websocket_def Let_def dest: handle_ws_frames_world split: if_splits)
      qed
    qed
  qed (use p assms(1,3) in \<open>auto simp: handle_http_def Let_def\<close>)
qed

lemma recv_client_world: "recv_client env c w = Some r \<Longrightarrow> untouched env P \<Longrightarrow> P w \<Longrightarrow> P (snd (snd r))"
proof (induction env c w r rule: recv_client.raw_induct [rotated, consumes 1])
  case (1 rec env c w r)
  obtain a w1 where a: "ct_recv env (c_fd c) w = (a, w1)" by (cases "ct_recv env (c_fd c) w")
  then have "P w1" using untouched_simps(3) [OF 1(3,4), of "c_fd c"] by simp
  with 1 a show ?case by (auto split: ClientRecv.splits if_splits)
qed

lemma write_client_world: "write_client env c w = Some r \<Longrightarrow> untouched env P \<Longrightarrow> P w \<Longrightarrow> P (snd r)"
proof (induction env c w r rule: write_client.raw_induct [rotated, consumes 1])
  case (1 rec env c w r)
  obtain a w1 where a: "ct_send env (c_fd c) (c_out c) w = (a, w1)" by (cases "ct_send env (c_fd c) (c_out c) w")
  then have "P w1" using untouched_simps(4) [OF 1(3,4), of "c_fd c" "c_out c"] by simp
  with 1 a show ?case by (auto split: SendResult.splits if_splits)
qed

lemma recv_stats_world:
  assumes "zmq_recv_multipart_nowait (ct_recv_stats env) w = Some r" "untouched env P" "P w"
  shows "P (snd (snd r))"
proof -
  have "P (snd (snd r))" if "recv_multipart_loop rcv frames w = Some r" "rcv = ct_recv_stats env" "P w" for rcv frames w
    using that
  proof (induction rcv frames w r rule: recv_multipart_loop.raw_induct [rotated, consumes 1])
    case (1 rec rcv frames w r)
    obtain a w1 where a: "rcv w = (a, w1)" by (cases "rcv w")
    then have "P w1" using untouched_simps(7) [OF assms(2) 1(4)] 1(3) by simp
    with 1 a show ?case by (auto split: RecvResult.splits if_splits)
  qed
  from this [OF assms(1) [unfolded zmq_recv_multipart_nowait_def] refl assms(3)] show ?thesis .
qed

lemma read_client_world:
  assumes "read_client env c sv w = Some (c', sv', w')" "untouched env P"
    "commands_keep env (cc_command_topic (cs_cfg sv)) P" "P w"
  shows "P w'"
proof -
  obtain ended c1 w1 where r: "recv_client env c w = Some (ended, c1, w1)"
    using assms by (auto simp: read_client_def split: option.splits)
  then have "P w1" using recv_client_world [OF r assms(2,4)] by simp
  with assms(1) r show ?thesis
    using handle_ws_frames_world [OF _ assms(3)] handle_http_world [OF _ assms(2)] assms(3)
    by (auto simp: read_client_def handle_input_def split: bool.splits if_splits)
qed

lemma take_stats_world:
  "take_stats env frames sv w = Some (accepted, sv', w') \<Longrightarrow> untouched env P \<Longrightarrow> P w \<Longrightarrow> P w'"
  using untouched_simps(1) [of env P w] by (auto simp: take_stats_def Let_def split: option.splits if_splits prod.splits)

text \<open>A world in which only commands to start and to stop recording keep \<open>P\<close> true.\<close>

lemma command_steps:
  assumes "untouched env P" "commands_keep env topic P"
  shows "round_steps env (\<lambda>_ _. True) (\<lambda>s s'. cs_cfg (fst s') = cs_cfg (fst s) \<and>
    (cc_command_topic (cs_cfg (fst s)) = topic \<longrightarrow> P (snd s) \<longrightarrow> P (snd s')))"
proof unfold_locales
  fix c sv w c' sv' w'
  assume r: "read_client env c sv w = Some (c', sv', w')"
  then show "True \<and> cs_cfg (fst (sv', w')) = cs_cfg (fst (sv, w)) \<and>
      (cc_command_topic (cs_cfg (fst (sv, w))) = topic \<longrightarrow> P (snd (sv, w)) \<longrightarrow> P (snd (sv', w')))"
    using same_server_cfg [OF read_client_server [OF r]] read_client_world [OF r assms(1)] assms(2) by auto
next
  fix c w c' w' and sv :: ControlServer
  assume "write_client env c w = Some (c', w')"
  from write_client_world [OF this assms(1)]
  show "True \<and> cs_cfg (fst (sv, w')) = cs_cfg (fst (sv, w)) \<and>
      (cc_command_topic (cs_cfg (fst (sv, w))) = topic \<longrightarrow> P (snd (sv, w)) \<longrightarrow> P (snd (sv, w')))" by simp
next
  fix w rc frames w' and sv :: ControlServer
  assume "zmq_recv_multipart_nowait (ct_recv_stats env) w = Some (rc, frames, w')"
  from recv_stats_world [OF this assms(1)]
  show "cs_cfg (fst (sv, w')) = cs_cfg (fst (sv, w)) \<and>
      (cc_command_topic (cs_cfg (fst (sv, w))) = topic \<longrightarrow> P (snd (sv, w)) \<longrightarrow> P (snd (sv, w')))" by simp
next
  fix frames sv w accepted sv' w'
  assume t: "take_stats env frames sv w = Some (accepted, sv', w')"
  from take_stats_cfg [OF t] take_stats_world [OF t assms(1)]
  show "cs_cfg (fst (sv', w')) = cs_cfg (fst (sv, w)) \<and>
      (cc_command_topic (cs_cfg (fst (sv, w))) = topic \<longrightarrow> P (snd (sv, w)) \<longrightarrow> P (snd (sv', w')))" by simp
qed (simp_all add: untouched_simps [OF assms(1)] same_server_cfg [OF stats_envelope_server]
    stats_envelope_world [OF assms(1)] close_client_def)



text \<open>C35: a connection becomes a WebSocket, and can send commands, only by an upgrade request (GET of /ws, version 13, a key of 24
  characters) that names no origin or the origin of this server: any other input leaves the connection what it is and changes nothing
  that a command to the receiver would change.\<close>

theorem only_same_origin_upgrades_control:
  assumes "\<not> c_websocket c" and "handle_input env c sv w = Some (c', sv', w')"
    and "\<And>req k. parse_http_request (c_in c) kMaxHeaderBytes = Some (HttpRequestAt req k) \<Longrightarrow>
      rq_path req \<noteq> ''/ws'' \<or> rq_method req \<noteq> ''GET'' \<or> header req ''sec-websocket-version'' \<noteq> ''13'' \<or>
      length (header req ''sec-websocket-key'') \<noteq> 24 \<or>
      has_header req ''origin'' \<and> (\<forall>p. find_text ''://'' (header req ''origin'') = Some p \<longrightarrow>
        to_lower (drop (p + 3) (header req ''origin'')) \<noteq> to_lower (header req ''host''))"
  shows "\<not> c_websocket c' \<and> push_on_next_stats sv' = push_on_next_stats sv \<and> (\<forall>P. untouched env P \<longrightarrow> P w \<longrightarrow> P w')"
proof -
  have no: "\<not> upgrades (c_in c)"
  proof
    assume "upgrades (c_in c)"
    then obtain req k where r: "parse_http_request (c_in c) kMaxHeaderBytes = Some (HttpRequestAt req k)"
      "rq_path req = ''/ws''" "upgrade_error req = None"
      unfolding upgrades_def by blast
    from assms(3) [OF r(1)] r(2,3) show False
      by (auto simp: upgrade_error_def origin_allowed_def Let_def split: if_splits option.splits)
  qed
  show ?thesis
  proof (cases "close_after_write c")
    case True
    with assms(1,2) show ?thesis by (simp add: handle_input_def)
  next
    case False
    then have h: "handle_http env c sv w = Some (c', sv', w')" using assms(1,2) by (simp add: handle_input_def)
    then have "\<forall>P. untouched env P \<longrightarrow> P w \<longrightarrow> P w'" using handle_http_world [OF h] no by blast
    with handle_http_unchanged [OF h no] assms(1) show ?thesis by simp
  qed
qed

section \<open>Samples\<close>

lemma sample_untouched: "untouched sample_env P"
  by (simp add: untouched_def sample_env_def)

lemma sample_commands_keep: "commands_keep sample_env topic (\<lambda>w. set w \<subseteq> insert topic record_commands)"
  by (auto simp: commands_keep_def sample_env_def)


text \<open>A page of another site asks for the WebSocket.\<close>

definition foreign_request :: RequestText where
  "foreign_request = \<lparr>rt_method = ''GET'', rt_target = ''/ws'', rt_version = ''HTTP/1.1'',
     rt_headers = [(''Host'', '' a:1''), (''Origin'', '' http://b'')]\<rparr>"

lemma only_same_origin_upgrades_control_witness:
  "\<exists>c' sv' w'. handle_input sample_env (new_Client\<lparr>c_in := head_text (request_lines foreign_request)\<rparr>)
     (new_ControlServer default_ControlServerConfig) [] = Some (c', sv', w') \<and> \<not> c_websocket c'"
proof -
  let ?c = "new_Client\<lparr>c_in := head_text (request_lines foreign_request)\<rparr>" and ?sv = "new_ControlServer default_ControlServerConfig"
  have req: "request_of foreign_request = \<lparr>rq_method = ''GET'', rq_target = ''/ws'', rq_path = ''/ws'', rq_version = ''HTTP/1.1'',
      rq_headers = [(''host'', ''a:1''), (''origin'', ''http://b'')]\<rparr>" by code_simp
  have send: "sendable foreign_request" by (simp add: sendable_def foreign_request_def)
  have len: "length (head_text (request_lines foreign_request)) \<le> kMaxHeaderBytes"
    by (simp add: head_text_def request_lines_def foreign_request_def CRLF_def kMaxHeaderBytes_def)
  have parse: "parse_http_request (c_in ?c) kMaxHeaderBytes =
      Some (HttpRequestAt (request_of foreign_request) (length (c_in ?c)))"
    using parse_request_text [OF send len, of "[]"] by simp
  have "upgrade_error (request_of foreign_request) = Some (426, ''WebSocket upgrade required'', [(''Upgrade'', ''websocket'')])"
    unfolding req by code_simp
  then obtain c' where h: "handle_input sample_env ?c ?sv [] = Some (c', ?sv, [])"
    using parse req by (simp add: handle_input_def handle_http_def new_Client_def upgrade_websocket_def)
  have "find_text ''://'' ''http://b'' = Some 4" "to_lower ''b'' \<noteq> to_lower ''a:1''" by code_simp+
  then have foreign: "find_text ''://'' (header (request_of foreign_request) ''origin'') = Some p \<Longrightarrow>
      to_lower (drop (p + 3) (header (request_of foreign_request) ''origin'')) \<noteq> to_lower (header (request_of foreign_request) ''host'')" for p
    by (auto simp: req header_def)
  have "\<not> c_websocket c' \<and> push_on_next_stats ?sv = push_on_next_stats ?sv \<and> (\<forall>P. untouched sample_env P \<longrightarrow> P [] \<longrightarrow> P [])"
    by (rule only_same_origin_upgrades_control [OF _ h])
      (use parse foreign in \<open>auto simp: new_Client_def has_header_def req\<close>)
  with h show ?thesis by blast
qed

end
