(* ===== verification/Multicast.thy ===== *)
theory Multicast
  imports Platform Config "HOL-Library.Multiset"
begin

text \<open>
  The multicast sockets: include/ipcrelay/common/udp_multicast.hpp and src/common/udp_multicast.cpp, opening and closing
  of the sender and of the receiver and the send call. The socket API is the parameter \<open>env\<close> on a world state \<open>'w\<close>; a
  socket option is a constructor with its value, an address is the pair of address and port in host order (\<open>htonl\<close> and
  \<open>htons\<close> belong to the API). The calls made can be observed: \<open>observed\<close> adds their list to the world, and the interface
  \<open>descriptors\<close> says what a descriptor is, so that what open and close leave behind is proved once for both classes.
\<close>

section \<open>The socket API\<close>

datatype SockOpt =
    IP_MULTICAST_IF u32
  | IP_MULTICAST_TTL byte
  | IP_MULTICAST_LOOP byte
  | IP_ADD_MEMBERSHIP u32 u32
  | SO_SNDBUF int
  | SO_SNDTIMEO int int
  | SO_REUSEADDR int
  | SO_RCVBUF int
  | SO_RXQ_OVFL int

text \<open>The boolean of \<open>so_socket\<close> is SOCK_NONBLOCK; \<open>so_rcvbuf\<close> is \<open>getsockopt(SO_RCVBUF)\<close>.\<close>

record 'w SocketEnv =
  so_socket :: "bool \<Rightarrow> 'w \<Rightarrow> (Errno + nat) \<times> 'w"
  so_setsockopt :: "int \<Rightarrow> SockOpt \<Rightarrow> 'w \<Rightarrow> Errno option \<times> 'w"
  so_rcvbuf :: "int \<Rightarrow> 'w \<Rightarrow> int option \<times> 'w"
  so_connect :: "int \<Rightarrow> u32 \<Rightarrow> u16 \<Rightarrow> 'w \<Rightarrow> Errno option \<times> 'w"
  so_bind :: "int \<Rightarrow> u32 \<Rightarrow> u16 \<Rightarrow> 'w \<Rightarrow> Errno option \<times> 'w"
  so_close :: "int \<Rightarrow> 'w \<Rightarrow> 'w"
  so_strerror :: "Errno \<Rightarrow> string"

definition errno_string :: "'w SocketEnv \<Rightarrow> string \<Rightarrow> Errno \<Rightarrow> string" where
  "errno_string env what err = what @ '': '' @ so_strerror env err"

text \<open>\<open>close()\<close> of both classes; a descriptor of -1 is no socket.\<close>

definition close_fd :: "'w SocketEnv \<Rightarrow> int \<Rightarrow> 'w \<Rightarrow> int \<times> 'w" where
  "close_fd env fd w = (if fd \<ge> 0 then (-1, so_close env fd w) else (fd, w))"

text \<open>A run of \<open>setsockopt\<close> calls, each of which ends it with the name of its option when it fails.\<close>

fun set_options :: "'w SocketEnv \<Rightarrow> int \<Rightarrow> (string \<times> SockOpt) list \<Rightarrow> 'w \<Rightarrow> string option \<times> 'w" where
  "set_options env fd [] w = (None, w)"
| "set_options env fd ((what, opt) # opts) w =
     (case so_setsockopt env fd opt w of
        (Some err, w) \<Rightarrow> (Some (errno_string env what err), w)
      | (None, w) \<Rightarrow> set_options env fd opts w)"

section \<open>The sender\<close>

record MulticastSenderConfig =
  sd_group :: u32
  sd_port :: u16
  sd_interface :: u32
  sd_ttl :: int
  sd_loopback :: bool
  sd_send_buffer_bytes :: int
  sd_send_timeout_ms :: int

definition sender_options :: "MulticastSenderConfig \<Rightarrow> (string \<times> SockOpt) list" where
  "sender_options cfg =
     (if sd_interface cfg \<noteq> 0 then [(''setsockopt(IP_MULTICAST_IF)'', IP_MULTICAST_IF (sd_interface cfg))] else []) @
     [(''setsockopt(IP_MULTICAST_TTL)'', IP_MULTICAST_TTL (of_int (sd_ttl cfg))),
      (''setsockopt(IP_MULTICAST_LOOP)'', IP_MULTICAST_LOOP (if sd_loopback cfg then 1 else 0))] @
     (if sd_send_buffer_bytes cfg > 0 then [(''setsockopt(SO_SNDBUF)'', SO_SNDBUF (sd_send_buffer_bytes cfg))] else []) @
     (if sd_send_timeout_ms cfg > 0
      then [(''setsockopt(SO_SNDTIMEO)'', SO_SNDTIMEO (sd_send_timeout_ms cfg div 1000) (sd_send_timeout_ms cfg mod 1000 * 1000))]
      else [])"

text \<open>The result is the error, if any, and the descriptor the object is left with.\<close>

definition sender_open ::
  "'w SocketEnv \<Rightarrow> MulticastSenderConfig \<Rightarrow> int \<Rightarrow> 'w \<Rightarrow> string option \<times> int \<times> 'w"
where
  "sender_open env cfg fd w =
     (case close_fd env fd w of (_, w) \<Rightarrow>
      (case so_socket env False w of
         (Inl err, w) \<Rightarrow> (Some (errno_string env ''socket'' err), -1, w)
       | (Inr s, w) \<Rightarrow>
           let fd = int s in
           (case set_options env fd (sender_options cfg) w of
              (Some err, w) \<Rightarrow> (Some err, close_fd env fd w)
            | (None, w) \<Rightarrow>
                (case so_connect env fd (sd_group cfg) (sd_port cfg) w of
                   (Some err, w) \<Rightarrow> (Some (errno_string env ''connect'' err), close_fd env fd w)
                 | (None, w) \<Rightarrow> (None, fd, w)))))"

text \<open>\<open>send\<close>: one \<open>sendmsg\<close>, repeated while it is interrupted.\<close>

partial_function (option) sender_send ::
  "('w \<Rightarrow> SendResult \<times> 'w) \<Rightarrow> 'w \<Rightarrow> (SendResult \<times> 'w) option"
where
  "sender_send sendmsg w =
     (case sendmsg w of (res, w) \<Rightarrow> if res = SendFailed E_INTR then sender_send sendmsg w else Some (res, w))"

section \<open>The receiver\<close>

record MulticastReceiverConfig =
  rx_group :: u32
  rx_port :: u16
  rx_interface :: u32
  rx_receive_buffer_bytes :: int

definition receiver_options :: "MulticastReceiverConfig \<Rightarrow> (string \<times> SockOpt) list" where
  "receiver_options cfg =
     [(''setsockopt(SO_REUSEADDR)'', SO_REUSEADDR 1)] @
     (if rx_receive_buffer_bytes cfg > 0 then [(''setsockopt(SO_RCVBUF)'', SO_RCVBUF (rx_receive_buffer_bytes cfg))] else [])"

text \<open>The pair of integers is the object: \<open>fd_\<close> and \<open>actual_rcvbuf_\<close>.\<close>

definition receiver_open ::
  "'w SocketEnv \<Rightarrow> MulticastReceiverConfig \<Rightarrow> int \<times> int \<Rightarrow> 'w \<Rightarrow> string option \<times> (int \<times> int) \<times> 'w"
where
  "receiver_open env cfg obj w =
     (case obj of (fd, rcvbuf) \<Rightarrow>
      (case close_fd env fd w of (_, w) \<Rightarrow>
      (case so_socket env True w of
         (Inl err, w) \<Rightarrow> (Some (errno_string env ''socket'' err), (-1, rcvbuf), w)
       | (Inr s, w) \<Rightarrow>
           let fd = int s in
           (case set_options env fd (receiver_options cfg) w of
              (Some err, w) \<Rightarrow> (case close_fd env fd w of (fd, w) \<Rightarrow> (Some err, (fd, rcvbuf), w))
            | (None, w) \<Rightarrow>
                (case so_rcvbuf env fd w of (got, w) \<Rightarrow>
                 let rcvbuf = (case got of None \<Rightarrow> rcvbuf | Some n \<Rightarrow> n) in
                 (case so_setsockopt env fd (SO_RXQ_OVFL 1) w of (_, w) \<Rightarrow>
                 (case so_bind env fd (rx_group cfg) (rx_port cfg) w of
                    (Some err, w) \<Rightarrow>
                      (case close_fd env fd w of (fd, w) \<Rightarrow> (Some (errno_string env ''bind'' err), (fd, rcvbuf), w))
                  | (None, w) \<Rightarrow>
                      (case so_setsockopt env fd (IP_ADD_MEMBERSHIP (rx_group cfg) (rx_interface cfg)) w of
                         (Some err, w) \<Rightarrow>
                           (case close_fd env fd w of (fd, w) \<Rightarrow>
                              (Some (errno_string env ''setsockopt(IP_ADD_MEMBERSHIP)'' err), (fd, rcvbuf), w))
                       | (None, w) \<Rightarrow> (None, (fd, rcvbuf), w)))))))))"

section \<open>Observing the calls\<close>

text \<open>A call and how it ended: \<open>None\<close> is success.\<close>

datatype SockEvent =
    NoSocket Errno
  | Opened int
  | SetOption int SockOpt "Errno option"
  | Connected int u32 u16 "Errno option"
  | Bound int u32 u16 "Errno option"
  | Closed int

definition observed :: "(SockEvent \<Rightarrow> 'e) \<Rightarrow> 'w SocketEnv \<Rightarrow> ('w \<times> 'e list) SocketEnv" where
  "observed ev env =
     \<lparr>so_socket = (\<lambda>nonblock (w, t). case so_socket env nonblock w of
        (Inl err, w) \<Rightarrow> (Inl err, w, t @ [ev (NoSocket err)])
      | (Inr s, w) \<Rightarrow> (Inr s, w, t @ [ev (Opened (int s))])),
      so_setsockopt = (\<lambda>fd opt (w, t). case so_setsockopt env fd opt w of (r, w) \<Rightarrow> (r, w, t @ [ev (SetOption fd opt r)])),
      so_rcvbuf = (\<lambda>fd (w, t). case so_rcvbuf env fd w of (r, w) \<Rightarrow> (r, w, t)),
      so_connect = (\<lambda>fd a p (w, t). case so_connect env fd a p w of (r, w) \<Rightarrow> (r, w, t @ [ev (Connected fd a p r)])),
      so_bind = (\<lambda>fd a p (w, t). case so_bind env fd a p w of (r, w) \<Rightarrow> (r, w, t @ [ev (Bound fd a p r)])),
      so_close = (\<lambda>fd (w, t). (so_close env fd w, t @ [ev (Closed fd)])),
      so_strerror = so_strerror env\<rparr>"

lemma observed_simps [simp]:
  "so_socket (observed ev env) nonblock (w, t) =
     (case so_socket env nonblock w of
        (Inl err, w) \<Rightarrow> (Inl err, w, t @ [ev (NoSocket err)])
      | (Inr s, w) \<Rightarrow> (Inr s, w, t @ [ev (Opened (int s))]))"
  "so_setsockopt (observed ev env) fd opt (w, t) =
     (case so_setsockopt env fd opt w of (r, w) \<Rightarrow> (r, w, t @ [ev (SetOption fd opt r)]))"
  "so_rcvbuf (observed ev env) fd (w, t) = (case so_rcvbuf env fd w of (g, w) \<Rightarrow> (g, w, t))"
  "so_connect (observed ev env) fd a p (w, t) =
     (case so_connect env fd a p w of (r, w) \<Rightarrow> (r, w, t @ [ev (Connected fd a p r)]))"
  "so_bind (observed ev env) fd a p (w, t) = (case so_bind env fd a p w of (r, w) \<Rightarrow> (r, w, t @ [ev (Bound fd a p r)]))"
  "so_close (observed ev env) fd (w, t) = (so_close env fd w, t @ [ev (Closed fd)])"
  "so_strerror (observed ev env) = so_strerror env"
  by (simp_all add: observed_def)

text \<open>The descriptors that a sequence of calls leaves open.\<close>

fun after_event :: "int multiset \<Rightarrow> SockEvent \<Rightarrow> int multiset" where
  "after_event m (Opened fd) = add_mset fd m"
| "after_event m (Closed fd) = m - {#fd#}"
| "after_event m _ = m"

definition left_open :: "SockEvent list \<Rightarrow> int multiset" where
  "left_open t = foldl after_event {#} t"

lemma left_open_simps [simp]:
  "left_open [] = {#}" "left_open (t @ [e]) = after_event (left_open t) e"
  by (simp_all add: left_open_def)

section \<open>What open and close leave behind\<close>

text \<open>The descriptor an object holds.\<close>

definition held :: "int \<Rightarrow> int multiset" where
  "held fd = (if fd \<ge> 0 then {#fd#} else {#})"

lemma held_simps [simp]: "held (-1) = {#}" "held (int n) = {#int n#}"
  by (simp_all add: held_def)

text \<open>The contract of the socket API as far as descriptors go: \<open>live\<close> are the open ones in a world.\<close>

locale descriptors =
  fixes env :: "'w SocketEnv" and live :: "'w \<Rightarrow> int multiset"
  assumes live_socket: "so_socket env nb w = (r, w') \<Longrightarrow> live w' = live w + (case r of Inl _ \<Rightarrow> {#} | Inr s \<Rightarrow> {#int s#})"
    and live_setsockopt: "so_setsockopt env fd opt w = (e, w') \<Longrightarrow> live w' = live w"
    and live_rcvbuf: "so_rcvbuf env fd w = (g, w') \<Longrightarrow> live w' = live w"
    and live_connect: "so_connect env fd a p w = (e, w') \<Longrightarrow> live w' = live w"
    and live_bind: "so_bind env fd a p w = (e, w') \<Longrightarrow> live w' = live w"
    and live_close: "live (so_close env fd w) = live w - {#fd#}"
begin

lemmas live_calls = live_setsockopt live_rcvbuf live_connect live_bind

lemma close_fd_live: "close_fd env fd w = (fd', w') \<Longrightarrow> fd' < 0 \<and> live w' = live w - held fd"
  by (auto simp: close_fd_def held_def live_close split: if_splits)

lemma set_options_live: "set_options env fd opts w = (e, w') \<Longrightarrow> live w' = live w"
  by (induction opts arbitrary: w) (auto split: prod.splits option.splits dest!: live_setsockopt)

lemma sender_open_live:
  assumes "sender_open env cfg fd w = (res, fd', w')"
  shows "live w' = live w - held fd + held fd'" "res = None \<longleftrightarrow> 0 \<le> fd'"
  using assms unfolding sender_open_def
  by (auto simp: Let_def held_def split: prod.splits sum.splits option.splits if_splits
      dest!: close_fd_live live_socket set_options_live live_connect)

lemma receiver_open_live:
  assumes "receiver_open env cfg (fd, rcvbuf) w = (res, (fd', rcvbuf'), w')"
  shows "live w' = live w - held fd + held fd'" "res = None \<longleftrightarrow> 0 \<le> fd'"
  using assms unfolding receiver_open_def
  by (auto simp: Let_def held_def split: prod.splits sum.splits option.splits if_splits
      dest!: close_fd_live live_socket set_options_live live_calls)

end

interpretation observed_sockets: descriptors "observed id env" "left_open \<circ> snd" for env :: "'w SocketEnv"
  by unfold_locales (auto split: prod.splits sum.splits)

text \<open>A view of the world that the socket API does not touch.\<close>

locale socket_frame =
  fixes env :: "'w SocketEnv" and view :: "'w \<Rightarrow> 'v"
  assumes view_socket: "so_socket env nb w = (r, w') \<Longrightarrow> view w' = view w"
    and view_setsockopt: "so_setsockopt env fd opt w = (e, w') \<Longrightarrow> view w' = view w"
    and view_rcvbuf: "so_rcvbuf env fd w = (g, w') \<Longrightarrow> view w' = view w"
    and view_connect: "so_connect env fd a p w = (e, w') \<Longrightarrow> view w' = view w"
    and view_bind: "so_bind env fd a p w = (e, w') \<Longrightarrow> view w' = view w"
    and view_close: "view (so_close env fd w) = view w"
begin

lemma close_fd_view: "close_fd env fd w = (fd', w') \<Longrightarrow> view w' = view w"
  by (auto simp: close_fd_def view_close split: if_splits)

lemma set_options_view: "set_options env fd opts w = (e, w') \<Longrightarrow> view w' = view w"
  by (induction opts arbitrary: w) (auto split: prod.splits option.splits dest!: view_setsockopt)

lemma sender_open_view: "sender_open env cfg fd w = (res, fd', w') \<Longrightarrow> view w' = view w"
  unfolding sender_open_def
  by (auto simp: Let_def split: prod.splits sum.splits option.splits
      dest!: close_fd_view view_socket set_options_view view_connect)

end

section \<open>The calls of open\<close>

definition closing :: "int \<Rightarrow> SockEvent list" where
  "closing fd = (if fd \<ge> 0 then [Closed fd] else [])"

definition options_set :: "int \<Rightarrow> (string \<times> SockOpt) list \<Rightarrow> SockEvent list" where
  "options_set fd opts = map (\<lambda>(_, opt). SetOption fd opt None) opts"

lemma close_fd_observed: "close_fd (observed id env) fd (w, t) = (fd', w', t') \<Longrightarrow> t' = t @ closing fd"
  by (auto simp: close_fd_def closing_def split: if_splits)

lemma set_options_observed:
  "set_options (observed id env) fd opts (w, t) = (None, w', t') \<Longrightarrow> t' = t @ options_set fd opts"
  by (induction opts arbitrary: w t) (fastforce simp: options_set_def split: prod.splits option.splits)+

lemma sender_open_observed:
  "sender_open (observed id env) cfg fd (w, t) = (None, fd', w', t') \<Longrightarrow>
     t' = t @ closing fd @ Opened fd' # options_set fd' (sender_options cfg) @
       [Connected fd' (sd_group cfg) (sd_port cfg) None]"
  unfolding sender_open_def
  by (auto simp: Let_def split: prod.splits sum.splits option.splits dest!: close_fd_observed set_options_observed)

lemma receiver_open_observed:
  "receiver_open (observed id env) cfg (fd, rcvbuf) (w, t) = (None, (fd', rcvbuf'), w', t') \<Longrightarrow>
     \<exists>e. t' = t @ closing fd @ Opened fd' # options_set fd' (receiver_options cfg) @
       [SetOption fd' (SO_RXQ_OVFL 1) e, Bound fd' (rx_group cfg) (rx_port cfg) None,
        SetOption fd' (IP_ADD_MEMBERSHIP (rx_group cfg) (rx_interface cfg)) None]"
  unfolding receiver_open_def
  by (auto simp: Let_def split: prod.splits sum.splits option.splits dest!: close_fd_observed set_options_observed)


text \<open>A kernel that hands out descriptors 3, 4, ... and refuses a timeout.\<close>

definition sample_sockets :: "nat SocketEnv" where
  "sample_sockets =
     \<lparr>so_socket = (\<lambda>_ n. (Inr n, n + 1)),
      so_setsockopt = (\<lambda>_ opt n. (case opt of SO_SNDTIMEO _ _ \<Rightarrow> Some (E_OTHER 22) | _ \<Rightarrow> None, n)),
      so_rcvbuf = (\<lambda>_ n. (Some 4096, n)), so_connect = (\<lambda>_ _ _ n. (None, n)), so_bind = (\<lambda>_ _ _ n. (None, n)),
      so_close = (\<lambda>_ n. n), so_strerror = (\<lambda>_. ''Invalid argument'')\<rparr>"


end
