(* ===== verification/Zmq.thy ===== *)
theory Zmq
  imports Platform Config "HOL-Library.Multiset"
begin

text \<open>
  The ZeroMQ calls of the programs as a parameter on a world state \<open>'w\<close>: contexts and sockets are handles, 0 is the null
  pointer, the error of a failed call is \<open>zq_errno\<close>. As for the multicast sockets the calls made can be observed, and the
  interface \<open>zmq_handles\<close> says which sockets are open: \<open>zmq_ctx_term\<close> waits until every socket of its context is closed,
  so a socket that is forgotten keeps a program from ending.
\<close>

section \<open>The interface\<close>

datatype ZmqType = ZMQ_PUB | ZMQ_SUB

datatype ZmqOpt =
    ZMQ_RCVHWM int
  | ZMQ_SNDHWM int
  | ZMQ_LINGER int
  | ZMQ_RECONNECT_IVL int
  | ZMQ_SUBSCRIBE string

text \<open>\<open>zq_send\<close> gets the frame and whether more follow.\<close>

record 'w ZmqEnv =
  zq_ctx_new :: "'w \<Rightarrow> nat \<times> 'w"
  zq_ctx_set_io_threads :: "nat \<Rightarrow> int \<Rightarrow> 'w \<Rightarrow> 'w"
  zq_ctx_term :: "nat \<Rightarrow> 'w \<Rightarrow> 'w"
  zq_socket :: "nat \<Rightarrow> ZmqType \<Rightarrow> 'w \<Rightarrow> nat \<times> 'w"
  zq_setsockopt :: "nat \<Rightarrow> ZmqOpt \<Rightarrow> 'w \<Rightarrow> bool \<times> 'w"
  zq_connect :: "nat \<Rightarrow> string \<Rightarrow> 'w \<Rightarrow> bool \<times> 'w"
  zq_bind :: "nat \<Rightarrow> string \<Rightarrow> 'w \<Rightarrow> bool \<times> 'w"
  zq_close :: "nat \<Rightarrow> 'w \<Rightarrow> 'w"
  zq_recv :: "nat \<Rightarrow> 'w \<Rightarrow> RecvResult \<times> 'w"
  zq_send :: "nat \<Rightarrow> byte list \<Rightarrow> bool \<Rightarrow> 'w \<Rightarrow> bool \<times> 'w"
  zq_poll :: "nat list \<Rightarrow> int \<Rightarrow> 'w \<Rightarrow> PollResult \<times> 'w"
  zq_errno :: "'w \<Rightarrow> Errno"
  zq_strerror :: "Errno \<Rightarrow> string"

text \<open>\<open>zmq_error_string(errno)\<close>.\<close>

definition zmq_error :: "'w ZmqEnv \<Rightarrow> 'w \<Rightarrow> string" where
  "zmq_error env w = zq_strerror env (zq_errno env w)"

text \<open>The bytes of a C++ string.\<close>

definition bytes_of :: "string \<Rightarrow> byte list" where
  "bytes_of s = map (\<lambda>c. of_nat (of_char c)) s"

definition chars_of :: "byte list \<Rightarrow> string" where
  "chars_of bs = map (\<lambda>b. char_of (unat b)) bs"

lemma chars_of_bytes_of [simp]: "chars_of (bytes_of s) = s"
proof -
  have "char_of (unat (of_nat (of_char c) :: byte)) = c" for c :: char
    using nat_of_char_less_256 [of c] by (simp add: unat_of_nat take_bit_nat_eq_self)
  then show ?thesis by (simp add: chars_of_def bytes_of_def o_def)
qed

lemma length_bytes_of [simp]: "length (bytes_of s) = length s"
  by (simp add: bytes_of_def)

section \<open>Observing the calls\<close>

datatype ZmqEvent =
    ZContext nat
  | ZTerminated nat
  | ZSocket nat ZmqType
  | ZOption nat ZmqOpt bool
  | ZConnected nat string bool
  | ZBound nat string bool
  | ZClosed nat
  | ZSent nat "byte list" bool bool

definition observed_zmq :: "(ZmqEvent \<Rightarrow> 'e) \<Rightarrow> 'w ZmqEnv \<Rightarrow> ('w \<times> 'e list) ZmqEnv" where
  "observed_zmq ev env =
     \<lparr>zq_ctx_new = (\<lambda>(w, t). case zq_ctx_new env w of (c, w) \<Rightarrow> (c, w, t @ [ev (ZContext c)])),
      zq_ctx_set_io_threads = (\<lambda>c n (w, t). (zq_ctx_set_io_threads env c n w, t)),
      zq_ctx_term = (\<lambda>c (w, t). (zq_ctx_term env c w, t @ [ev (ZTerminated c)])),
      zq_socket = (\<lambda>c ty (w, t). case zq_socket env c ty w of (s, w) \<Rightarrow> (s, w, t @ [ev (ZSocket s ty)])),
      zq_setsockopt = (\<lambda>s opt (w, t). case zq_setsockopt env s opt w of (r, w) \<Rightarrow> (r, w, t @ [ev (ZOption s opt r)])),
      zq_connect = (\<lambda>s ep (w, t). case zq_connect env s ep w of (r, w) \<Rightarrow> (r, w, t @ [ev (ZConnected s ep r)])),
      zq_bind = (\<lambda>s ep (w, t). case zq_bind env s ep w of (r, w) \<Rightarrow> (r, w, t @ [ev (ZBound s ep r)])),
      zq_close = (\<lambda>s (w, t). (zq_close env s w, t @ [ev (ZClosed s)])),
      zq_recv = (\<lambda>s (w, t). case zq_recv env s w of (r, w) \<Rightarrow> (r, w, t)),
      zq_send = (\<lambda>s d sndmore (w, t). case zq_send env s d sndmore w of (r, w) \<Rightarrow> (r, w, t @ [ev (ZSent s d sndmore r)])),
      zq_poll = (\<lambda>ss ms (w, t). case zq_poll env ss ms w of (r, w) \<Rightarrow> (r, w, t)),
      zq_errno = (\<lambda>(w, t). zq_errno env w),
      zq_strerror = zq_strerror env\<rparr>"

lemma observed_zmq_simps [simp]:
  "zq_ctx_new (observed_zmq ev env) (w, t) = (case zq_ctx_new env w of (c, w) \<Rightarrow> (c, w, t @ [ev (ZContext c)]))"
  "zq_ctx_set_io_threads (observed_zmq ev env) c n (w, t) = (zq_ctx_set_io_threads env c n w, t)"
  "zq_ctx_term (observed_zmq ev env) c (w, t) = (zq_ctx_term env c w, t @ [ev (ZTerminated c)])"
  "zq_socket (observed_zmq ev env) c ty (w, t) = (case zq_socket env c ty w of (s, w) \<Rightarrow> (s, w, t @ [ev (ZSocket s ty)]))"
  "zq_setsockopt (observed_zmq ev env) s opt (w, t) =
     (case zq_setsockopt env s opt w of (r, w) \<Rightarrow> (r, w, t @ [ev (ZOption s opt r)]))"
  "zq_connect (observed_zmq ev env) s ep (w, t) = (case zq_connect env s ep w of (r, w) \<Rightarrow> (r, w, t @ [ev (ZConnected s ep r)]))"
  "zq_bind (observed_zmq ev env) s ep (w, t) = (case zq_bind env s ep w of (r, w) \<Rightarrow> (r, w, t @ [ev (ZBound s ep r)]))"
  "zq_close (observed_zmq ev env) s (w, t) = (zq_close env s w, t @ [ev (ZClosed s)])"
  "zq_recv (observed_zmq ev env) s (w, t) = (case zq_recv env s w of (m, w) \<Rightarrow> (m, w, t))"
  "zq_send (observed_zmq ev env) s d sndmore (w, t) = (case zq_send env s d sndmore w of (r, w) \<Rightarrow> (r, w, t @ [ev (ZSent s d sndmore r)]))"
  "zq_poll (observed_zmq ev env) ss ms (w, t) = (case zq_poll env ss ms w of (p, w) \<Rightarrow> (p, w, t))"
  "zq_errno (observed_zmq ev env) (w, t) = zq_errno env w"
  "zq_strerror (observed_zmq ev env) = zq_strerror env"
  by (simp_all add: observed_zmq_def)

text \<open>The sockets that a sequence of calls leaves open, and those that could not be subscribed or connected.\<close>

fun after_zmq_event :: "nat multiset \<Rightarrow> ZmqEvent \<Rightarrow> nat multiset" where
  "after_zmq_event m (ZSocket s _) = (if s = 0 then m else add_mset s m)"
| "after_zmq_event m (ZClosed s) = m - {#s#}"
| "after_zmq_event m _ = m"

definition sockets_left :: "ZmqEvent list \<Rightarrow> nat multiset" where
  "sockets_left t = foldl after_zmq_event {#} t"

fun failed_on :: "ZmqEvent \<Rightarrow> nat multiset" where
  "failed_on (ZOption s (ZMQ_SUBSCRIBE _) False) = {#s#}"
| "failed_on (ZConnected s _ False) = {#s#}"
| "failed_on _ = {#}"

definition unusable_sockets :: "ZmqEvent list \<Rightarrow> nat multiset" where
  "unusable_sockets t = (\<Sum>e\<leftarrow>t. failed_on e)"

lemma sockets_left_simps [simp]:
  "sockets_left [] = {#}" "sockets_left (t @ [e]) = after_zmq_event (sockets_left t) e"
  by (simp_all add: sockets_left_def)

lemma unusable_sockets_simps [simp]:
  "unusable_sockets [] = {#}" "unusable_sockets (t @ u) = unusable_sockets t + unusable_sockets u"
  "unusable_sockets [e] = failed_on e"
  by (simp_all add: unusable_sockets_def)

section \<open>What the calls do to the open sockets\<close>

text \<open>\<open>live\<close> are the open sockets of a world and \<open>failed\<close> those with a failed subscription or connection.\<close>

locale zmq_handles =
  fixes env :: "'w ZmqEnv" and live failed :: "'w \<Rightarrow> nat multiset"
  assumes socket_live: "zq_socket env c ty w = (s, w') \<Longrightarrow>
      live w' = live w + (if s = 0 then {#} else {#s#}) \<and> failed w' = failed w"
    and setsockopt_live: "zq_setsockopt env s opt w = (r, w') \<Longrightarrow>
      live w' = live w \<and> failed w' = failed w + failed_on (ZOption s opt r)"
    and connect_live: "zq_connect env s ep w = (r, w') \<Longrightarrow>
      live w' = live w \<and> failed w' = failed w + failed_on (ZConnected s ep r)"
    and close_live: "live (zq_close env s w) = live w - {#s#}" "failed (zq_close env s w) = failed w"
    and ctx_new_live: "zq_ctx_new env w = (c, w') \<Longrightarrow> live w' = live w \<and> failed w' = failed w"
    and ctx_set_live: "live (zq_ctx_set_io_threads env c n w) = live w" "failed (zq_ctx_set_io_threads env c n w) = failed w"
    and ctx_term_live: "live (zq_ctx_term env c w) = live w" "failed (zq_ctx_term env c w) = failed w"

text \<open>A view of the world that no call of the start and the end of a program changes.\<close>

locale zmq_frame =
  fixes env :: "'w ZmqEnv" and view :: "'w \<Rightarrow> 'v"
  assumes socket_view: "zq_socket env c ty w = (s, w') \<Longrightarrow> view w' = view w"
    and setsockopt_view: "zq_setsockopt env s opt w = (r, w') \<Longrightarrow> view w' = view w"
    and connect_view: "zq_connect env s ep w = (r, w') \<Longrightarrow> view w' = view w"
    and close_view: "view (zq_close env s w) = view w"
    and ctx_new_view: "zq_ctx_new env w = (c, w') \<Longrightarrow> view w' = view w"
    and ctx_set_view: "view (zq_ctx_set_io_threads env c n w) = view w"
    and ctx_term_view: "view (zq_ctx_term env c w) = view w"

interpretation observed_handles: zmq_handles "observed_zmq id env" "sockets_left \<circ> snd" "unusable_sockets \<circ> snd"
  for env :: "'w ZmqEnv"
  by unfold_locales (auto split: prod.splits)

section \<open>A sample library\<close>

text \<open>Handles are numbered by the world; the flag is the answer of connect and bind.\<close>

definition sample_zmq :: "bool \<Rightarrow> nat ZmqEnv" where
  "sample_zmq reachable =
     \<lparr>zq_ctx_new = (\<lambda>n. (1, n)), zq_ctx_set_io_threads = (\<lambda>_ _ n. n), zq_ctx_term = (\<lambda>_ n. n),
      zq_socket = (\<lambda>_ _ n. (n, n + 1)), zq_setsockopt = (\<lambda>_ _ n. (True, n)), zq_connect = (\<lambda>_ _ n. (reachable, n)),
      zq_bind = (\<lambda>_ _ n. (reachable, n)), zq_close = (\<lambda>_ n. n), zq_recv = (\<lambda>_ n. (RecvFailed E_AGAIN, n)),
      zq_send = (\<lambda>_ _ _ n. (True, n)), zq_poll = (\<lambda>ss _ n. (Ready 0 [], n)),
      zq_errno = (\<lambda>_. E_OTHER 93), zq_strerror = (\<lambda>_. ''Protocol not supported'')\<rparr>"

end
