(* ===== verification/Command_Line.thy ===== *)
theory Command_Line
  imports Bridge_Config Receiver_Config
begin

text \<open>
  The command lines of the bridge and of the receiver: the first halves of \<open>main\<close> in src/bridge/main.cpp and
  tools/receiver/main.cpp, up to the accepted configuration. Arguments are the list after the program's name; what a
  program prints before it ends is part of the result. The version strings come from the build and from ZeroMQ, the files
  and the network interfaces are parameters as in the theories of the configuration.
\<close>

section \<open>Results\<close>

text \<open>Either the program goes on with a value, or it ends with a code, its standard output and its standard error.\<close>

datatype 'a Parsed = Go 'a | Exit int string string

definition lines :: "string list \<Rightarrow> string" where
  "lines ls = concat (map (\<lambda>l. l @ [CHR 0x0A]) ls)"

fun and_then :: "'a Parsed \<Rightarrow> ('a \<Rightarrow> 'b Parsed) \<Rightarrow> 'b Parsed" where
  "and_then (Go x) f = f x"
| "and_then (Exit code out err) f = Exit code out err"

definition requires_argument :: "string \<Rightarrow> 'a Parsed" where
  "requires_argument opt = Exit 2 [] (lines [opt @ '' requires an argument''])"

definition configuration_error :: "string \<Rightarrow> 'a Parsed" where
  "configuration_error err = Exit 2 [] (lines [''configuration error: '' @ err])"

definition configuration_invalid :: "string list \<Rightarrow> 'a Parsed" where
  "configuration_invalid errors =
     Exit 2 [] (lines ((''configuration invalid ('' @ to_string (int (length errors)) @ '' problem'' @
       (if length errors = 1 then [] else ''s'') @ ''):'') # map (\<lambda>e. ''  - '' @ c_str e) errors))"

lemma and_then_Go: "and_then p f = Go y \<longleftrightarrow> (\<exists>x. p = Go x \<and> f x = Go y)"
  by (cases p) auto

text \<open>What both command lines gather; the receiver has no sources.\<close>

record CommandLine =
  cl_config_path :: string
  cl_overrides :: "string list"
  cl_sources :: "string list"
  cl_log_level :: string
  cl_check :: bool

definition no_options :: CommandLine where
  "no_options = \<lparr>cl_config_path = [], cl_overrides = [], cl_sources = [], cl_log_level = [], cl_check = False\<rparr>"

text \<open>IPCRELAY_VERSION_STRING and \<open>zmq_version_string()\<close>.\<close>

record Versions =
  own_version :: string
  zmq_version :: string

text \<open>What a program finds on its host: versions, files, \<open>inet_pton\<close>, the network interfaces and \<open>inet_ntop\<close>.\<close>

record Host =
  h_versions :: Versions
  h_read_file :: "string \<Rightarrow> string option"
  h_inet_pton :: "string \<Rightarrow> u32 option"
  h_interfaces :: "string + (string \<times> u32 option) list"
  h_ntop :: "u32 \<Rightarrow> string"

section \<open>strtol\<close>

text \<open>\<open>std::strtol(s, &end, 10)\<close> on a 64-bit \<open>long\<close>: the value, saturated, and the text at \<open>end\<close>.\<close>

definition strtol :: "string \<Rightarrow> int \<times> string" where
  "strtol s =
     (let body = dropWhile is_space s;
          neg = (body \<noteq> [] \<and> hd body = CHR ''-'');
          body = (if body \<noteq> [] \<and> (hd body = CHR ''-'' \<or> hd body = CHR ''+'') then tl body else body);
          ds = takeWhile (is_digit 10) body;
          n = int (digits_value 10 ds)
      in if ds = [] then (0, s)
         else (max (- (2 ^ 63)) (min (2 ^ 63 - 1) (if neg then - n else n)), dropWhile (is_digit 10) body))"

section \<open>The bridge\<close>

definition bridge_usage :: "string \<Rightarrow> string" where
  "bridge_usage prog = lines
     [''Usage: '' @ prog @ '' [options]'',
      [],
      ''ZeroMQ IPC PUB/SUB -> UDP multicast bridge.'',
      [],
      ''Options:'',
      ''  -c, --config FILE        Configuration file (see examples/bridge.conf)'',
      ''  -s, --source ID=ENDPOINT[,FILTER]'',
      ''                           Add a ZeroMQ source (repeatable). Without FILTER all'',
      ''                           messages are forwarded.'',
      ''  -o, --set KEY=VALUE      Override a global option, e.g. multicast_port=6000.'',
      ''                           source.KEY=VALUE applies to the last [source].'',
      ''  -l, --log-level LEVEL    error | warn | info | debug'',
      ''      --check              Validate the configuration and exit'',
      ''  -V, --version            Print version and exit'',
      ''  -h, --help               Show this help'']"

fun bridge_args :: "Versions \<Rightarrow> string \<Rightarrow> string list \<Rightarrow> CommandLine \<Rightarrow> CommandLine Parsed" where
  "bridge_args v prog [] cl = Go cl"
| "bridge_args v prog (a # as) cl =
     (if a = ''-c'' \<or> a = ''--config'' then
        (case as of [] \<Rightarrow> requires_argument ''--config''
         | x # as \<Rightarrow> bridge_args v prog as (cl\<lparr>cl_config_path := x\<rparr>))
      else if a = ''-s'' \<or> a = ''--source'' then
        (case as of [] \<Rightarrow> requires_argument ''--source''
         | x # as \<Rightarrow> bridge_args v prog as (cl\<lparr>cl_sources := cl_sources cl @ [x]\<rparr>))
      else if a = ''-o'' \<or> a = ''--set'' then
        (case as of [] \<Rightarrow> requires_argument ''--set''
         | x # as \<Rightarrow> bridge_args v prog as (cl\<lparr>cl_overrides := cl_overrides cl @ [x]\<rparr>))
      else if a = ''-l'' \<or> a = ''--log-level'' then
        (case as of [] \<Rightarrow> requires_argument ''--log-level''
         | x # as \<Rightarrow> bridge_args v prog as (cl\<lparr>cl_log_level := x\<rparr>))
      else if a = ''--check'' then bridge_args v prog as (cl\<lparr>cl_check := True\<rparr>)
      else if a = ''-V'' \<or> a = ''--version'' then
        Exit 0 (lines [''ipc-relay-bridge '' @ own_version v @ '' (libzmq '' @ zmq_version v @ '')'']) []
      else if a = ''-h'' \<or> a = ''--help'' then Exit 0 [] (bridge_usage prog)
      else Exit 2 [] (lines [quoted_in ''unknown argument '' a []] @ bridge_usage prog))"

text \<open>The file, or the empty configuration.\<close>

definition base_config :: "(string \<Rightarrow> string option) \<Rightarrow> CommandLine \<Rightarrow> ConfigFile Parsed" where
  "base_config read_file cl =
     (if cl_config_path cl \<noteq> [] then
        (case load_config_file read_file (cl_config_path cl) of Inl err \<Rightarrow> configuration_error err | Inr f \<Rightarrow> Go f)
      else (case parse_config_text [] of Inl err \<Rightarrow> Go [empty_section] | Inr f \<Rightarrow> Go f))"

text \<open>ID=ENDPOINT[,FILTER] becomes a section.\<close>

definition plain_entry :: "string \<Rightarrow> string \<Rightarrow> ConfigEntry" where
  "plain_entry key val = \<lparr>ce_key = key, ce_value = val, ce_line = 0\<rparr>"

definition source_section :: "string \<Rightarrow> ConfigSection option" where
  "source_section s =
     (case find_char (CHR ''='') s of
        None \<Rightarrow> None
      | Some eq \<Rightarrow>
          let rest = drop (eq + 1) s in
          Some \<lparr>cs_name = ''source'', cs_line = 0,
            cs_entries = plain_entry ''id'' (trim (take eq s)) #
              (case find_char (CHR '','') rest of
                 None \<Rightarrow> [plain_entry ''endpoint'' (trim rest)]
               | Some comma \<Rightarrow>
                   [plain_entry ''endpoint'' (trim (take comma rest)), plain_entry ''filter'' (drop (comma + 1) rest)])\<rparr>)"

fun add_sources :: "string list \<Rightarrow> ConfigFile \<Rightarrow> ConfigFile Parsed" where
  "add_sources [] f = Go f"
| "add_sources (s # ss) f =
     (case source_section s of
        None \<Rightarrow> Exit 2 [] (lines [quoted_in ''--source expects ID=ENDPOINT[,FILTER], got '' s []])
      | Some sec \<Rightarrow> add_sources ss (f @ [sec]))"

fun apply_overrides :: "string list \<Rightarrow> ConfigFile \<Rightarrow> ConfigFile Parsed" where
  "apply_overrides [] f = Go f"
| "apply_overrides (o1 # os) f =
     (case apply_override f o1 of Inl err \<Rightarrow> configuration_error err | Inr f \<Rightarrow> apply_overrides os f)"

definition bridge_log_level :: "CommandLine \<Rightarrow> ConfigFile \<Rightarrow> ConfigFile Parsed" where
  "bridge_log_level cl f =
     (if cl_log_level cl \<noteq> [] then
        (case apply_override f (''log_level='' @ cl_log_level cl) of Inl err \<Rightarrow> configuration_error err | Inr f \<Rightarrow> Go f)
      else Go f)"

definition bridge_config_file :: "(string \<Rightarrow> string option) \<Rightarrow> CommandLine \<Rightarrow> ConfigFile Parsed" where
  "bridge_config_file read_file cl =
     and_then (base_config read_file cl) (\<lambda>f.
     and_then (add_sources (cl_sources cl) f) (\<lambda>f.
     and_then (apply_overrides (cl_overrides cl) f) (bridge_log_level cl)))"

section \<open>The receiver\<close>

definition receiver_usage :: "string \<Rightarrow> string" where
  "receiver_usage prog = lines
     [''Usage: '' @ prog @ '' [options]'',
      [],
      ''UDP multicast receiver and binary capture for ipc-relay-bridge streams.'',
      [],
      ''Options:'',
      ''  -c, --config FILE        Configuration file (see examples/receiver.conf)'',
      ''  -o, --set KEY=VALUE      Override an option, e.g. capture_file=/tmp/out.cap'',
      ''  -l, --log-level LEVEL    error | warn | info | debug'',
      ''      --check              Validate the configuration and exit'',
      ''  -V, --version            Print version and exit'',
      ''  -h, --help               Show this help'']"

fun receiver_args :: "Versions \<Rightarrow> string \<Rightarrow> string list \<Rightarrow> CommandLine \<Rightarrow> CommandLine Parsed" where
  "receiver_args v prog [] cl = Go cl"
| "receiver_args v prog (a # as) cl =
     (if a = ''-c'' \<or> a = ''--config'' then
        (case as of [] \<Rightarrow> requires_argument ''--config''
         | x # as \<Rightarrow> receiver_args v prog as (cl\<lparr>cl_config_path := x\<rparr>))
      else if a = ''-o'' \<or> a = ''--set'' then
        (case as of [] \<Rightarrow> requires_argument ''--set''
         | x # as \<Rightarrow> receiver_args v prog as (cl\<lparr>cl_overrides := cl_overrides cl @ [x]\<rparr>))
      else if a = ''-l'' \<or> a = ''--log-level'' then
        (case as of [] \<Rightarrow> requires_argument ''--log-level''
         | x # as \<Rightarrow> receiver_args v prog as (cl\<lparr>cl_log_level := x\<rparr>))
      else if a = ''--check'' then receiver_args v prog as (cl\<lparr>cl_check := True\<rparr>)
      else if a = ''-V'' \<or> a = ''--version'' then
        Exit 0 (lines [''ipc-relay-receiver '' @ own_version v @ '' (libzmq '' @ zmq_version v @ '')'']) []
      else if a = ''-h'' \<or> a = ''--help'' then Exit 0 [] (receiver_usage prog)
      else Exit 2 [] (lines [quoted_in ''unknown argument '' a []] @ receiver_usage prog))"

text \<open>The receiver ignores the result of the last override.\<close>

definition receiver_log_level :: "CommandLine \<Rightarrow> ConfigFile \<Rightarrow> ConfigFile" where
  "receiver_log_level cl f =
     (if cl_log_level cl \<noteq> [] then
        (case apply_override f (''log_level='' @ cl_log_level cl) of Inl err \<Rightarrow> f | Inr f \<Rightarrow> f)
      else f)"

definition receiver_config_file :: "(string \<Rightarrow> string option) \<Rightarrow> CommandLine \<Rightarrow> ConfigFile Parsed" where
  "receiver_config_file read_file cl =
     and_then (base_config read_file cl) (\<lambda>f.
     and_then (apply_overrides (cl_overrides cl) f) (\<lambda>f. Go (receiver_log_level cl f)))"

section \<open>How a command line ends a program\<close>

text \<open>A program that ends before it starts was asked to (0) or complains (2).\<close>

fun ends_properly :: "'a Parsed \<Rightarrow> bool" where
  "ends_properly (Go x) \<longleftrightarrow> True"
| "ends_properly (Exit code out err) \<longleftrightarrow> code = 0 \<or> code = 2 \<and> err \<noteq> []"

lemma lines_not_Nil [simp]: "lines ls = [] \<longleftrightarrow> ls = []"
  by (cases ls) (simp_all add: lines_def)

lemma ends_properly_exits [simp]:
  "ends_properly (requires_argument opt)" "ends_properly (configuration_error e)" "ends_properly (configuration_invalid es)"
  by (simp_all add: requires_argument_def configuration_error_def configuration_invalid_def)

lemma ends_properly_and_then [intro]: "ends_properly p \<Longrightarrow> (\<And>x. ends_properly (f x)) \<Longrightarrow> ends_properly (and_then p f)"
  by (cases p) auto

lemma bridge_args_ends: "ends_properly (bridge_args v prog as cl)"
  by (induction v prog as cl rule: bridge_args.induct) (simp_all split: list.split)

lemma receiver_args_ends: "ends_properly (receiver_args v prog as cl)"
  by (induction v prog as cl rule: receiver_args.induct) (simp_all split: list.split)

lemma base_config_ends: "ends_properly (base_config read_file cl)"
  by (simp add: base_config_def split: sum.split)

lemma add_sources_ends: "ends_properly (add_sources ss f)"
  by (induction ss f rule: add_sources.induct) (simp_all split: option.split)

lemma apply_overrides_ends: "ends_properly (apply_overrides os f)"
  by (induction os f rule: apply_overrides.induct) (simp_all split: sum.split)

lemma bridge_config_file_ends: "ends_properly (bridge_config_file read_file cl)"
proof -
  have "ends_properly (bridge_log_level cl f)" for f by (simp add: bridge_log_level_def split: sum.split)
  then show ?thesis
    unfolding bridge_config_file_def by (intro ends_properly_and_then base_config_ends add_sources_ends apply_overrides_ends)
qed

lemma receiver_config_file_ends: "ends_properly (receiver_config_file read_file cl)"
  unfolding receiver_config_file_def by (intro ends_properly_and_then base_config_ends apply_overrides_ends) simp

lemma no_exit_Go [simp]:
  "requires_argument opt \<noteq> Go x" "configuration_error e \<noteq> Go x" "configuration_invalid es \<noteq> Go x"
  by (simp_all add: requires_argument_def configuration_error_def configuration_invalid_def)

end
