(* ===== verification/Bridge_Program.thy ===== *)
theory Bridge_Program
  imports Bridge Multicast Zmq Command_Line
begin

text \<open>
  The bridge as a running program: set-up, main loop, statistics report and destructor of the class Bridge
  (src/bridge/bridge.cpp) around the core of the theory Bridge. \<open>sys\<close> gathers what the program is given: the
  socket API, ZeroMQ, the clocks, the shutdown flag and the log. An instance of the core's environment is made from it once
  the sockets are known.
\<close>

section \<open>The system\<close>

text \<open>\<open>sy_sendmsg\<close> is \<open>UdpMulticastSender::send\<close> on a descriptor; \<open>sy_log\<close> is \<open>log_write\<close>.\<close>

record 'w BridgeSys =
  sy_sockets :: "'w SocketEnv"
  sy_zmq :: "'w ZmqEnv"
  sy_sendmsg :: "int \<Rightarrow> byte list \<Rightarrow> 'w \<Rightarrow> SendResult \<times> 'w"
  sy_realtime :: "'w \<Rightarrow> u64 \<times> 'w"
  sy_monotonic :: "'w \<Rightarrow> u64 \<times> 'w"
  sy_shutdown_requested :: "'w \<Rightarrow> bool"
  sy_shutdown_signal :: "'w \<Rightarrow> int"
  sy_log :: "LogLevel \<Rightarrow> string \<Rightarrow> 'w \<Rightarrow> 'w"

fun level_number :: "LogLevel \<Rightarrow> nat" where
  "level_number LogError = 0"
| "level_number LogWarn = 1"
| "level_number LogInfo = 2"
| "level_number LogDebug = 3"

definition log_enabled :: "LogLevel \<Rightarrow> LogLevel \<Rightarrow> bool" where
  "log_enabled current level \<longleftrightarrow> level_number level \<le> level_number current"

fun log_level_text :: "LogLevel \<Rightarrow> string" where
  "log_level_text LogError = ''ERROR''"
| "log_level_text LogWarn = ''WARN''"
| "log_level_text LogInfo = ''INFO''"
| "log_level_text LogDebug = ''DEBUG''"

text \<open>The line that \<open>sy_log\<close> prints: the local time as \<open>strftime\<close> gives it, the milliseconds, the level and the message, which
  is cut at the 2048 bytes of its buffer.\<close>

definition log_line :: "string \<Rightarrow> nat \<Rightarrow> LogLevel \<Rightarrow> string \<Rightarrow> string" where
  "log_line time usec level message =
     (let ms = to_string (int (usec div 1000)) in
      time @ ''.'' @ replicate (3 - length ms) (CHR ''0'') @ ms @ '' ['' @ log_level_text level @ ''] '' @
        take 2047 message @ [CHR 0x0A])"

record BridgeProcess =
  bp_core :: Bridge
  bp_sender :: int
  bp_ctx :: nat
  bp_sockets :: "nat list"
  bp_last_stats :: u64

definition new_BridgeProcess :: "BridgeConfig \<Rightarrow> BridgeProcess" where
  "new_BridgeProcess cfg =
     \<lparr>bp_core = (new_Bridge cfg)\<lparr>source_stats := []\<rparr>, bp_sender = -1, bp_ctx = 0, bp_sockets = [], bp_last_stats = 0\<rparr>"

abbreviation bp_cfg :: "BridgeProcess \<Rightarrow> BridgeConfig" where
  "bp_cfg bp \<equiv> b_cfg (bp_core bp)"

text \<open>The macro LOG_*: \<open>main\<close> has set the level of the configuration.\<close>

definition ipc_log :: "'w BridgeSys \<Rightarrow> BridgeProcess \<Rightarrow> LogLevel \<Rightarrow> string \<Rightarrow> 'w \<Rightarrow> 'w" where
  "ipc_log sys bp level line w = (if log_enabled (log_level (bp_cfg bp)) level then sy_log sys level line w else w)"

definition bridge_env :: "'w BridgeSys \<Rightarrow> BridgeProcess \<Rightarrow> 'w BridgeEnv" where
  "bridge_env sys bp =
     \<lparr>be_send = sy_sendmsg sys (bp_sender bp),
      be_recv = (\<lambda>i. zq_recv (sy_zmq sys) (bp_sockets bp ! i)),
      be_clock = sy_realtime sys,
      be_poll = (\<lambda>ms. zq_poll (sy_zmq sys) (bp_sockets bp) ms)\<rparr>"

section \<open>Set-up\<close>

definition sender_config :: "BridgeConfig \<Rightarrow> MulticastSenderConfig" where
  "sender_config cfg =
     \<lparr>sd_group = multicast_group cfg, sd_port = multicast_port cfg, sd_interface = multicast_interface cfg,
      sd_ttl = multicast_ttl cfg, sd_loopback = multicast_loopback cfg,
      sd_send_buffer_bytes = send_buffer_bytes cfg, sd_send_timeout_ms = send_timeout_ms cfg\<rparr>"

definition for_source :: "BridgeSourceConfig \<Rightarrow> string" where
  "for_source sc = '' for source '' @ to_string (uint (bs_id sc)) @ '': ''"

definition source_hwm :: "BridgeConfig \<Rightarrow> BridgeSourceConfig \<Rightarrow> int" where
  "source_hwm cfg sc = (if recv_hwm sc > 0 then recv_hwm sc else zmq_recv_hwm cfg)"

text \<open>The subscriptions of a source: everything, or one call per filter.\<close>

fun subscribe_filters :: "'w ZmqEnv \<Rightarrow> BridgeSourceConfig \<Rightarrow> nat \<Rightarrow> string list \<Rightarrow> 'w \<Rightarrow> string option \<times> 'w" where
  "subscribe_filters env sc s [] w = (None, w)"
| "subscribe_filters env sc s (f # fs) w =
     (case zq_setsockopt env s (ZMQ_SUBSCRIBE f) w of
        (False, w) \<Rightarrow> (Some (quoted_in ''zmq_setsockopt(SUBSCRIBE '' f '')'' @ for_source sc @ zmq_error env w), w)
      | (True, w) \<Rightarrow> subscribe_filters env sc s fs w)"

definition subscribe :: "'w ZmqEnv \<Rightarrow> BridgeSourceConfig \<Rightarrow> nat \<Rightarrow> 'w \<Rightarrow> string option \<times> 'w" where
  "subscribe env sc s w =
     (if filters sc = [] then
        (case zq_setsockopt env s (ZMQ_SUBSCRIBE []) w of
           (False, w) \<Rightarrow> (Some (''zmq_setsockopt(SUBSCRIBE)'' @ for_source sc @ zmq_error env w), w)
         | (True, w) \<Rightarrow> (None, w))
      else subscribe_filters env sc s (filters sc) w)"

definition source_connected :: "BridgeSourceConfig \<Rightarrow> int \<Rightarrow> string" where
  "source_connected sc hwm =
     ''source '' @ to_string (uint (bs_id sc)) @ (if bs_name sc = [] then [] else c_str (quoted_in '' '' (bs_name sc) [])) @
     '': connected SUB to '' @ c_str (endpoint sc) @ '' ('' @ to_string (int (length (filters sc))) @ '' filter(s), hwm='' @
     to_string hwm @ '')''"

text \<open>One socket per source. The socket joins \<open>sources_\<close> only after everything went well.\<close>

definition set_up_socket :: "'w ZmqEnv \<Rightarrow> BridgeConfig \<Rightarrow> BridgeSourceConfig \<Rightarrow> nat \<Rightarrow> 'w \<Rightarrow> string option \<times> 'w" where
  "set_up_socket env cfg sc s w =
     (case zq_setsockopt env s (ZMQ_RCVHWM (source_hwm cfg sc)) w of (_, w) \<Rightarrow>
      (case zq_setsockopt env s (ZMQ_LINGER 0) w of (_, w) \<Rightarrow>
      (case zq_setsockopt env s (ZMQ_RECONNECT_IVL (reconnect_ivl_ms cfg)) w of (_, w) \<Rightarrow>
      (case subscribe env sc s w of
         (Some err, w) \<Rightarrow> (Some err, w)
       | (None, w) \<Rightarrow>
           (case zq_connect env s (c_str (endpoint sc)) w of
              (False, w) \<Rightarrow> (Some (quoted_in ''zmq_connect('' (endpoint sc) '')'' @ for_source sc @ zmq_error env w), w)
            | (True, w) \<Rightarrow> (None, w))))))"

fun open_sources ::
  "'w BridgeSys \<Rightarrow> BridgeSourceConfig list \<Rightarrow> BridgeProcess \<Rightarrow> 'w \<Rightarrow> string option \<times> BridgeProcess \<times> 'w"
where
  "open_sources sys [] bp w = (None, bp, w)"
| "open_sources sys (sc # scs) bp w =
     (case zq_socket (sy_zmq sys) (bp_ctx bp) ZMQ_SUB w of (s, w) \<Rightarrow>
        if s = 0 then (Some (''zmq_socket(SUB)'' @ for_source sc @ zmq_error (sy_zmq sys) w), bp, w)
        else
          (case set_up_socket (sy_zmq sys) (bp_cfg bp) sc s w of
             (Some err, w) \<Rightarrow> (Some err, bp, w)
           | (None, w) \<Rightarrow>
               let bp = bp\<lparr>bp_sockets := bp_sockets bp @ [s]\<rparr> in
               open_sources sys scs bp (ipc_log sys bp LogInfo (source_connected sc (source_hwm (bp_cfg bp) sc)) w)))"

definition bridge_init :: "'w BridgeSys \<Rightarrow> BridgeProcess \<Rightarrow> 'w \<Rightarrow> string option \<times> BridgeProcess \<times> 'w" where
  "bridge_init sys bp w =
     (case sender_open (sy_sockets sys) (sender_config (bp_cfg bp)) (bp_sender bp) w of (res, fd, w) \<Rightarrow>
        let bp = bp\<lparr>bp_sender := fd\<rparr> in
        (case res of
           Some err \<Rightarrow> (Some (''UDP multicast sender: '' @ err), bp, w)
         | None \<Rightarrow>
             (case zq_ctx_new (sy_zmq sys) w of (ctx, w) \<Rightarrow>
                let bp = bp\<lparr>bp_ctx := ctx\<rparr> in
                if ctx = 0 then (Some (''zmq_ctx_new: '' @ zmq_error (sy_zmq sys) w), bp, w)
                else
                  let w = zq_ctx_set_io_threads (sy_zmq sys) ctx (zmq_io_threads (bp_cfg bp)) w;
                      bp = bp\<lparr>bp_sockets := [],
                             bp_core := (bp_core bp)\<lparr>source_stats := replicate (length (sources (bp_cfg bp))) zero_BridgeSourceStats\<rparr>\<rparr>
                  in (case open_sources sys (sources (bp_cfg bp)) bp w of
                        (Some err, bp, w) \<Rightarrow> (Some err, bp, w)
                      | (None, bp, w) \<Rightarrow>
                          (case sy_monotonic sys w of (now, w) \<Rightarrow> (None, bp\<lparr>bp_last_stats := now\<rparr>, w))))))"

section \<open>Statistics\<close>

definition counter :: "string \<Rightarrow> u64 \<Rightarrow> string" where
  "counter name n = name @ ''='' @ to_string (uint n)"

definition stats_line :: "BridgeStats \<Rightarrow> string" where
  "stats_line s =
     ''stats: '' @ counter ''datagrams'' (datagrams_sent s) @ counter '' bytes'' (bytes_sent s) @
     counter '' send_errors'' (b_send_errors s) @ counter '' send_timeouts'' (b_send_timeouts s) @
     counter '' batch_limit_hits'' (max_batch_hits s) @ counter '' polls'' (poll_iterations s)"

definition source_line :: "BridgeSourceConfig \<Rightarrow> BridgeSourceStats \<Rightarrow> string" where
  "source_line sc st =
     ''  source '' @ to_string (uint (bs_id sc)) @ '':'' @ counter '' messages'' (bs_messages st) @
     counter '' bytes'' (bs_bytes st) @ counter '' datagrams'' (bs_datagrams st) @
     counter '' fragmented'' (bs_fragmented st) @ counter '' multipart'' (bs_multipart st) @
     counter '' recv_errors'' (bs_recv_errors st) @ counter '' send_errors'' (bs_send_errors st) @
     counter '' send_timeouts'' (bs_send_timeouts st) @ counter '' oversize'' (bs_oversize st)"

definition stats_report :: "BridgeProcess \<Rightarrow> string list" where
  "stats_report bp =
     stats_line (b_stats (bp_core bp)) #
     map (\<lambda>i. source_line (sources (bp_cfg bp) ! i) (source_stats (bp_core bp) ! i)) [0..<length (bp_sockets bp)]"

definition log_stats :: "'w BridgeSys \<Rightarrow> BridgeProcess \<Rightarrow> 'w \<Rightarrow> 'w" where
  "log_stats sys bp w = fold (ipc_log sys bp LogInfo) (stats_report bp) w"

section \<open>The description of a configuration\<close>

text \<open>\<open>ntop\<close> is \<open>ipv4_to_string\<close>, the text of \<open>inet_ntop\<close>.\<close>

definition describe_filters :: "string list \<Rightarrow> string" where
  "describe_filters fs =
     (if fs = [] then '' filter=*'' else concat (map (\<lambda>f. quoted_in '' filter='' f []) fs))"

definition describe_source :: "BridgeSourceConfig \<Rightarrow> string" where
  "describe_source s =
     '' ['' @ to_string (uint (bs_id s)) @ (if bs_name s = [] then [] else ''/'' @ bs_name s) @ '' '' @ endpoint s @
     describe_filters (filters s) @ '']''"

definition describe_bridge_config :: "(u32 \<Rightarrow> string) \<Rightarrow> BridgeConfig \<Rightarrow> string" where
  "describe_bridge_config ntop cfg =
     ''multicast '' @ multicast_group_text cfg @ '':'' @ to_string (uint (multicast_port cfg)) @
     '' iface='' @ (if multicast_interface cfg \<noteq> 0 then ntop (multicast_interface cfg) else ''default'') @
     '' ttl='' @ to_string (multicast_ttl cfg) @ '' loop='' @ (if multicast_loopback cfg then ''on'' else ''off'') @
     '' max_datagram='' @ to_string (uint (max_datagram_size cfg)) @
     '' (payload/fragment='' @ to_string (uint (fragment_payload cfg)) @ '')'' @
     '' sndbuf='' @ to_string (send_buffer_bytes cfg) @ '' batch='' @ to_string (max_messages_per_poll cfg) @ ''; sources:'' @
     concat (map describe_source (sources cfg))"

section \<open>The main loop\<close>

definition stats_interval_ns :: "BridgeConfig \<Rightarrow> u64" where
  "stats_interval_ns cfg = of_int (stats_interval_ms cfg) * kNsPerMs"

text \<open>The statistics report when it is due, and how long to wait for messages.\<close>

definition report_when_due :: "'w BridgeSys \<Rightarrow> BridgeProcess \<Rightarrow> 'w \<Rightarrow> int \<times> BridgeProcess \<times> 'w" where
  "report_when_due sys bp w =
     (if stats_interval_ns (bp_cfg bp) > 0 then
        (case sy_monotonic sys w of (now, w) \<Rightarrow>
           let due = bp_last_stats bp + stats_interval_ns (bp_cfg bp) in
           if now \<ge> due then
             (stats_interval_ms (bp_cfg bp), bp\<lparr>bp_last_stats := now\<rparr>, log_stats sys bp w)
           else
             let remaining_ms = (due - now) div kNsPerMs + 1
             in (if remaining_ms < 1000 then uint remaining_ms else 1000, bp, w))
      else (1000, bp, w))"

text \<open>The result is whether the loop ended because of the shutdown flag.\<close>

partial_function (option) bridge_loop ::
  "'w BridgeSys \<Rightarrow> BridgeProcess \<Rightarrow> 'w \<Rightarrow> (bool \<times> BridgeProcess \<times> 'w) option"
where
  "bridge_loop sys bp w =
     (if sy_shutdown_requested sys w then Some (True, bp, w)
      else
        (case report_when_due sys bp w of (timeout_ms, bp, w) \<Rightarrow>
           (case poll_once (bridge_env sys bp) timeout_ms (bp_core bp) w of
              None \<Rightarrow> None
            | Some (good, core, w) \<Rightarrow>
                let bp = bp\<lparr>bp_core := core\<rparr> in
                if good then bridge_loop sys bp w else Some (False, bp, w))))"

definition bridge_run ::
  "'w BridgeSys \<Rightarrow> (u32 \<Rightarrow> string) \<Rightarrow> BridgeProcess \<Rightarrow> 'w \<Rightarrow> (int \<times> BridgeProcess \<times> 'w) option"
where
  "bridge_run sys ntop bp w =
     (case bridge_loop sys bp (ipc_log sys bp LogInfo (''bridge running: '' @ c_str (describe_bridge_config ntop (bp_cfg bp))) w) of
        None \<Rightarrow> None
      | Some (orderly, bp, w) \<Rightarrow>
          if orderly then
            let w = ipc_log sys bp LogInfo (''shutdown requested (signal '' @ to_string (sy_shutdown_signal sys w) @
                      ''); final statistics:'') w
            in Some (0, bp, log_stats sys bp w)
          else
            let w = ipc_log sys bp LogError ''fatal poll error; shutting down'' w
            in Some (1, bp, log_stats sys bp w))"

section \<open>The destructor\<close>

fun close_sockets :: "'w ZmqEnv \<Rightarrow> nat list \<Rightarrow> 'w \<Rightarrow> 'w" where
  "close_sockets env [] w = w"
| "close_sockets env (s # ss) w = close_sockets env ss (if s \<noteq> 0 then zq_close env s w else w)"

definition bridge_destroy :: "'w BridgeSys \<Rightarrow> BridgeProcess \<Rightarrow> 'w \<Rightarrow> 'w" where
  "bridge_destroy sys bp w =
     (let w = close_sockets (sy_zmq sys) (bp_sockets bp) w;
          w = snd (close_fd (sy_sockets sys) (bp_sender bp) w)
      in if bp_ctx bp \<noteq> 0 then zq_ctx_term (sy_zmq sys) (bp_ctx bp) w else w)"

text \<open>What \<open>main\<close> does with an accepted configuration: the exit code after start, main loop and destructor.\<close>

definition bridge_session ::
  "'w BridgeSys \<Rightarrow> (u32 \<Rightarrow> string) \<Rightarrow> BridgeConfig \<Rightarrow> 'w \<Rightarrow> (int \<times> BridgeProcess \<times> 'w) option"
where
  "bridge_session sys ntop cfg w =
     (case bridge_init sys (new_BridgeProcess cfg) w of
        (Some err, bp, w) \<Rightarrow>
          Some (1, bp, bridge_destroy sys bp (ipc_log sys bp LogError (''startup failed: '' @ c_str err) w))
      | (None, bp, w) \<Rightarrow>
          (case bridge_run sys ntop bp w of
             None \<Rightarrow> None
           | Some (code, bp, w) \<Rightarrow> Some (code, bp, bridge_destroy sys bp w)))"

section \<open>What a session leaves behind\<close>

datatype BridgeEvent = Udp SockEvent | Zmq ZmqEvent

definition observed_sys :: "'w BridgeSys \<Rightarrow> ('w \<times> BridgeEvent list) BridgeSys" where
  "observed_sys sys =
     \<lparr>sy_sockets = observed Udp (sy_sockets sys), sy_zmq = observed_zmq Zmq (sy_zmq sys),
      sy_sendmsg = (\<lambda>fd d (w, t). case sy_sendmsg sys fd d w of (r, w) \<Rightarrow> (r, w, t)),
      sy_realtime = (\<lambda>(w, t). case sy_realtime sys w of (n, w) \<Rightarrow> (n, w, t)),
      sy_monotonic = (\<lambda>(w, t). case sy_monotonic sys w of (n, w) \<Rightarrow> (n, w, t)),
      sy_shutdown_requested = (\<lambda>(w, t). sy_shutdown_requested sys w),
      sy_shutdown_signal = (\<lambda>(w, t). sy_shutdown_signal sys w),
      sy_log = (\<lambda>level line (w, t). (sy_log sys level line w, t))\<rparr>"

fun udp_event :: "BridgeEvent \<Rightarrow> SockEvent option" where
  "udp_event (Udp e) = Some e"
| "udp_event (Zmq e) = None"

fun zmq_event :: "BridgeEvent \<Rightarrow> ZmqEvent option" where
  "zmq_event (Udp e) = None"
| "zmq_event (Zmq e) = Some e"

text \<open>Descriptors left open, sockets left open, and sockets that could not be subscribed or connected.\<close>

definition fds_left :: "'w \<times> BridgeEvent list \<Rightarrow> int multiset" where
  "fds_left s = left_open (List.map_filter udp_event (snd s))"

definition zmq_left :: "'w \<times> BridgeEvent list \<Rightarrow> nat multiset" where
  "zmq_left s = sockets_left (List.map_filter zmq_event (snd s))"

definition zmq_failed :: "'w \<times> BridgeEvent list \<Rightarrow> nat multiset" where
  "zmq_failed s = unusable_sockets (List.map_filter zmq_event (snd s))"

lemmas left_defs = fds_left_def zmq_left_def zmq_failed_def

lemma map_filter_snoc [simp]:
  "List.map_filter f (xs @ [x]) = List.map_filter f xs @ (case f x of None \<Rightarrow> [] | Some y \<Rightarrow> [y])"
  by (simp add: map_filter_def split: option.splits)

interpretation bridge_fds: descriptors "observed Udp env" fds_left for env :: "'w SocketEnv"
  by unfold_locales (auto simp: fds_left_def split: prod.splits sum.splits)

interpretation bridge_fd_frame: socket_frame "observed Udp env" "\<lambda>s. (zmq_left s, zmq_failed s)" for env :: "'w SocketEnv"
  by unfold_locales (auto simp: left_defs split: prod.splits sum.splits)

interpretation bridge_zmq: zmq_handles "observed_zmq Zmq env" zmq_left zmq_failed for env :: "'w ZmqEnv"
  by unfold_locales (auto simp: left_defs split: prod.splits)

interpretation bridge_zmq_frame: zmq_frame "observed_zmq Zmq env" fds_left for env :: "'w ZmqEnv"
  by unfold_locales (auto simp: left_defs split: prod.splits)

section \<open>The calls of the core keep what they do not concern\<close>

text \<open>A view of the world that no call but the poll itself changes, and one that the poll does not change either.\<close>

locale calls_frame =
  fixes env :: "'w BridgeEnv" and view :: "'w \<Rightarrow> 'v"
  assumes send_view: "be_send env d w = (r, w') \<Longrightarrow> view w' = view w"
    and recv_view: "be_recv env i w = (m, w') \<Longrightarrow> view w' = view w"
    and clock_view: "be_clock env w = (n, w') \<Longrightarrow> view w' = view w"
begin

lemma send_fragments_view: "send_fragments env index data chunk h k i offset b w = (good, b', w') \<Longrightarrow> view w' = view w"
  by (induction k arbitrary: h i offset b w)
    (auto simp: Let_def split: prod.splits SendResult.splits dest!: send_view)

lemma transmit_view: "transmit env index data flgs ts b w = (good, b', w') \<Longrightarrow> view w' = view w"
  by (auto simp: transmit_def Let_def split: if_splits dest!: send_fragments_view)

lemma recv_parts_view:
  assumes "recv_parts env index acc w = Some (good, d, w')"
  shows "view w' = view w"
proof -
  have "env = env \<longrightarrow> view (snd (snd (good, d, w'))) = view w"
    by (rule recv_parts.raw_induct [of "\<lambda>e _ _ w r. e = env \<longrightarrow> view (snd (snd r)) = view w", OF _ assms])
      (fastforce split: prod.splits RecvResult.splits if_splits dest: recv_view)
  then show ?thesis by simp
qed

lemma service_loop_view: "service_loop env index k b w = Some (b', w') \<Longrightarrow> view w' = view w"
proof (induction k arbitrary: b w)
  case (Suc k)
  obtain m w1 where m: "be_recv env index w = (m, w1)" by fastforce
  show ?case
  proof (cases m)
    case (RecvFailed err)
    with Suc m show ?thesis by (auto dest: recv_view split: if_splits)
  next
    case (Frame d has_more)
    obtain ts w2 where c: "be_clock env w1 = (ts, w2)" by fastforce
    have w2: "view w2 = view w" using m c by (simp add: recv_view clock_view)
    show ?thesis
    proof (cases has_more)
      case False
      then show ?thesis
        using Suc.prems Suc.IH m Frame c w2 by (auto split: prod.splits dest!: transmit_view)
    next
      case True
      then show ?thesis
        using Suc.prems Suc.IH m Frame c w2
        by (auto simp: Let_def split: prod.splits option.splits if_splits dest!: transmit_view recv_parts_view)
    qed
  qed
qed simp

lemma service_ready_view: "service_ready env i rs b w = Some (b', w') \<Longrightarrow> view w' = view w"
  by (induction rs arbitrary: i b w)
    (auto simp: service_source_def split: if_splits option.splits dest!: service_loop_view)

lemma poll_once_polls: "poll_once env ms b w = Some (good, b', w') \<Longrightarrow> view w' = view (snd (be_poll env ms w))"
  by (auto simp: poll_once_def Let_def split: prod.splits PollResult.splits if_splits option.splits
      dest!: service_ready_view)

end

locale core_frame = calls_frame +
  assumes poll_view: "be_poll env ms w = (p, w') \<Longrightarrow> view w' = view w"
begin

lemma poll_once_view: "poll_once env ms b w = Some (good, b', w') \<Longrightarrow> view w' = view w"
  using poll_once_polls poll_view [of ms w] by (metis prod.collapse)

end

section \<open>The ledger of a session\<close>

lemma failed_on_other [simp]:
  "failed_on (ZOption s (ZMQ_RCVHWM n) r) = {#}" "failed_on (ZOption s (ZMQ_LINGER n) r) = {#}"
  "failed_on (ZOption s (ZMQ_RECONNECT_IVL n) r) = {#}" "failed_on (ZOption s (ZMQ_SUBSCRIBE f) True) = {#}"
  "failed_on (ZConnected s ep True) = {#}"
  by (cases r; simp)+

text \<open>The socket that an error concerns.\<close>

definition blamed :: "string option \<Rightarrow> nat \<Rightarrow> nat multiset" where
  "blamed err s = (if err = None then {#} else {#s#})"

lemma blamed_simps [simp]: "blamed None s = {#}" "blamed (Some e) s = {#s#}"
  by (simp_all add: blamed_def)

context zmq_handles
begin

lemma subscribe_filters_live:
  "subscribe_filters env sc s fs w = (err, w') \<Longrightarrow> live w' = live w \<and> failed w' = failed w + blamed err s"
  by (induction fs arbitrary: w) (auto split: prod.splits bool.splits dest!: setsockopt_live)

lemma subscribe_live: "subscribe env sc s w = (err, w') \<Longrightarrow> live w' = live w \<and> failed w' = failed w + blamed err s"
  by (auto simp: subscribe_def split: prod.splits bool.splits if_splits dest!: setsockopt_live subscribe_filters_live)

lemma set_up_socket_live:
  "set_up_socket env cfg sc s w = (err, w') \<Longrightarrow> live w' = live w \<and> failed w' = failed w + blamed err s"
  by (auto simp: set_up_socket_def split: prod.splits bool.splits option.splits
      dest!: setsockopt_live subscribe_live connect_live)

lemma close_sockets_live: "0 \<notin> set ss \<Longrightarrow> live (close_sockets env ss w) = live w - mset ss \<and> failed (close_sockets env ss w) = failed w"
  by (induction ss arbitrary: w) (auto simp: close_live)

end

context zmq_frame
begin

lemma subscribe_filters_view: "subscribe_filters env sc s fs w = (err, w') \<Longrightarrow> view w' = view w"
  by (induction fs arbitrary: w) (auto split: prod.splits bool.splits dest!: setsockopt_view)

lemma set_up_socket_view: "set_up_socket env cfg sc s w = (err, w') \<Longrightarrow> view w' = view w"
  by (auto simp: set_up_socket_def subscribe_def split: prod.splits bool.splits option.splits if_splits
      dest!: setsockopt_view subscribe_filters_view connect_view)

lemma close_sockets_view: "view (close_sockets env ss w) = view w"
  by (induction ss arbitrary: w) (auto simp: close_view)

end

text \<open>The whole system: which descriptors and sockets are open in a world, and that the calls of the main loop and the
  log change nothing about it.\<close>

locale bridge_handles =
  descriptors "sy_sockets sys" fds + zmq_handles "sy_zmq sys" live failed +
  fd_frame: socket_frame "sy_sockets sys" "\<lambda>w. (live w, failed w)" + zmq_frame "sy_zmq sys" fds
  for sys :: "'w BridgeSys" and fds :: "'w \<Rightarrow> int multiset" and live failed :: "'w \<Rightarrow> nat multiset" +
  assumes quiet_send: "sy_sendmsg sys fd d w = (r, w') \<Longrightarrow> (fds w', live w', failed w') = (fds w, live w, failed w)"
    and quiet_recv: "zq_recv (sy_zmq sys) s w = (m, w') \<Longrightarrow> (fds w', live w', failed w') = (fds w, live w, failed w)"
    and quiet_poll: "zq_poll (sy_zmq sys) ss ms w = (p, w') \<Longrightarrow> (fds w', live w', failed w') = (fds w, live w, failed w)"
    and quiet_realtime: "sy_realtime sys w = (n, w') \<Longrightarrow> (fds w', live w', failed w') = (fds w, live w, failed w)"
    and quiet_monotonic: "sy_monotonic sys w = (n, w') \<Longrightarrow> (fds w', live w', failed w') = (fds w, live w, failed w)"
    and quiet_log: "(fds (sy_log sys level line w), live (sy_log sys level line w), failed (sy_log sys level line w)) = (fds w, live w, failed w)"
begin

definition ledger :: "'w \<Rightarrow> int multiset \<times> nat multiset \<times> nat multiset" where
  "ledger w = (fds w, live w, failed w)"

sublocale core: core_frame "bridge_env sys bp" ledger for bp
  by unfold_locales
    (auto simp: bridge_env_def ledger_def dest: quiet_send quiet_recv quiet_poll quiet_realtime)

lemma ipc_log_ledger [simp]: "ledger (ipc_log sys bp level line w) = ledger w"
  using quiet_log by (simp add: ipc_log_def ledger_def)

lemma log_stats_ledger [simp]: "ledger (log_stats sys bp w) = ledger w"
proof -
  have "ledger (fold (ipc_log sys bp LogInfo) lines w) = ledger w" for lines
    by (induction lines arbitrary: w) simp_all
  then show ?thesis by (simp add: log_stats_def)
qed

lemma report_when_due_ledger:
  "report_when_due sys bp w = (ms, bp', w') \<Longrightarrow>
     ledger w' = ledger w \<and> bp_sockets bp' = bp_sockets bp \<and> bp_sender bp' = bp_sender bp"
  by (auto simp: report_when_due_def Let_def ledger_def [symmetric] split: prod.splits if_splits
      dest!: quiet_monotonic [folded ledger_def])

lemma bridge_loop_ledger:
  assumes "bridge_loop sys bp w = Some (orderly, bp', w')"
  shows "ledger w' = ledger w \<and> bp_sockets bp' = bp_sockets bp \<and> bp_sender bp' = bp_sender bp"
proof -
  have "sys = sys \<longrightarrow> ledger (snd (snd (orderly, bp', w'))) = ledger w \<and>
      bp_sockets (fst (snd (orderly, bp', w'))) = bp_sockets bp \<and> bp_sender (fst (snd (orderly, bp', w'))) = bp_sender bp"
    by (rule bridge_loop.raw_induct [of "\<lambda>y bp w r. y = sys \<longrightarrow> ledger (snd (snd r)) = ledger w \<and>
          bp_sockets (fst (snd r)) = bp_sockets bp \<and> bp_sender (fst (snd r)) = bp_sender bp", OF _ assms])
      (fastforce simp: Let_def split: prod.splits option.splits if_splits
        dest!: report_when_due_ledger core.poll_once_view)
  then show ?thesis by simp
qed

lemma open_sources_ledger:
  "open_sources sys scs bp w = (err, bp', w') \<Longrightarrow> 0 \<notin> set (bp_sockets bp) \<Longrightarrow>
     \<exists>bad. fds w' = fds w \<and> failed w' = failed w + bad \<and>
       live w' + mset (bp_sockets bp) = live w + bad + mset (bp_sockets bp') \<and>
       (if err = None then bad = {#} else size bad \<le> 1) \<and>
       0 \<notin> set (bp_sockets bp') \<and> bp_sender bp' = bp_sender bp"
proof (induction scs arbitrary: bp w)
  case (Cons sc scs)
  obtain s w1 where s: "zq_socket (sy_zmq sys) (bp_ctx bp) ZMQ_SUB w = (s, w1)" by fastforce
  have w1: "fds w1 = fds w" "failed w1 = failed w" "live w1 = live w + (if s = 0 then {#} else {#s#})"
    using socket_live [OF s] socket_view [OF s] by auto
  obtain e w2 where e: "set_up_socket (sy_zmq sys) (bp_cfg bp) sc s w1 = (e, w2)" by fastforce
  have w2: "fds w2 = fds w1" "live w2 = live w1" "failed w2 = failed w1 + blamed e s"
    using set_up_socket_live [OF e] set_up_socket_view [OF e] by auto
  let ?bp = "bp\<lparr>bp_sockets := bp_sockets bp @ [s]\<rparr>"
  consider "s = 0" | "s \<noteq> 0" "e \<noteq> None" | "s \<noteq> 0" "e = None" by auto
  then show ?case
  proof cases
    case 3
    let ?w = "ipc_log sys ?bp LogInfo (source_connected sc (source_hwm (bp_cfg bp) sc)) w2"
    have "open_sources sys scs ?bp ?w = (err, bp', w')"
      using Cons.prems(1) s e 3 by (simp add: Let_def)
    moreover have "fds ?w = fds w2" "live ?w = live w2" "failed ?w = failed w2"
      using ipc_log_ledger [of ?bp LogInfo] by (simp_all add: ledger_def)
    ultimately show ?thesis
      using Cons.IH [of ?bp ?w] Cons.prems(2) 3 w1 w2 by (auto simp: ac_simps)
  qed (use Cons.prems s e w1 w2 in auto)
qed auto

end

context bridge_handles
begin

lemma bridge_init_ledger:
  assumes "bridge_init sys (new_BridgeProcess cfg) w = (err, bp, w')"
  shows "\<exists>bad. fds w' = fds w + held (bp_sender bp) \<and> failed w' = failed w + bad \<and>
    live w' = live w + bad + mset (bp_sockets bp) \<and> (if err = None then bad = {#} else size bad \<le> 1) \<and>
    0 \<notin> set (bp_sockets bp)"
proof -
  obtain res fd w1 where open1: "sender_open (sy_sockets sys) (sender_config cfg) (-1) w = (res, fd, w1)"
    by (metis prod_cases3)
  have w1: "fds w1 = fds w + held fd" "live w1 = live w" "failed w1 = failed w"
    using sender_open_live(1) [OF open1] fd_frame.sender_open_view [OF open1] by auto
  obtain ctx w2 where ctx: "zq_ctx_new (sy_zmq sys) w1 = (ctx, w2)" by fastforce
  have w2: "fds w2 = fds w1" "live w2 = live w1" "failed w2 = failed w1"
    using ctx_new_live [OF ctx] ctx_new_view [OF ctx] by auto
  let ?w3 = "zq_ctx_set_io_threads (sy_zmq sys) ctx (zmq_io_threads cfg) w2"
  have w3: "fds ?w3 = fds w2" "live ?w3 = live w2" "failed ?w3 = failed w2"
    by (simp_all add: ctx_set_live ctx_set_view)
  let ?bp = "(new_BridgeProcess cfg)\<lparr>bp_sender := fd, bp_ctx := ctx, bp_sockets := [],
      bp_core := (bp_core (new_BridgeProcess cfg))\<lparr>source_stats := replicate (length (sources cfg)) zero_BridgeSourceStats\<rparr>\<rparr>"
  have new [simp]: "bp_cfg (new_BridgeProcess cfg) = cfg" "bp_sender (new_BridgeProcess cfg) = -1" "bp_sockets (new_BridgeProcess cfg) = []"
    by (simp_all add: new_BridgeProcess_def new_Bridge_def)
  obtain e bp4 w4 where srcs: "open_sources sys (sources cfg) ?bp ?w3 = (e, bp4, w4)" by (metis prod_cases3)
  obtain bad where w4: "fds w4 = fds ?w3" "failed w4 = failed ?w3 + bad" "live w4 = live ?w3 + bad + mset (bp_sockets bp4)"
      "if e = None then bad = {#} else size bad \<le> 1" "0 \<notin> set (bp_sockets bp4)" "bp_sender bp4 = fd"
    using open_sources_ledger [OF srcs] by auto
  consider "res \<noteq> None" | "res = None" "ctx = 0" | "res = None" "ctx \<noteq> 0" "e \<noteq> None" | "res = None" "ctx \<noteq> 0" "e = None" by blast
  then show ?thesis
  proof cases
    case 4
    obtain now w5 where mono: "sy_monotonic sys w4 = (now, w5)" by fastforce
    have "(err, bp, w') = (None, bp4\<lparr>bp_last_stats := now\<rparr>, w5)"
      using assms open1 ctx srcs 4 mono by (simp add: bridge_init_def Let_def)
    then show ?thesis using 4 w1 w2 w3 w4 quiet_monotonic [OF mono] by (auto intro!: exI [of _ bad])
  next
    case 3
    then have "(err, bp, w') = (e, bp4, w4)" using assms open1 ctx srcs by (auto simp: bridge_init_def Let_def)
    then show ?thesis using 3 w1 w2 w3 w4 by (auto intro!: exI [of _ bad])
  qed (use assms open1 ctx w1 w2 in \<open>auto simp: bridge_init_def Let_def\<close>)
qed

lemma bridge_destroy_ledger:
  assumes "0 \<notin> set (bp_sockets bp)"
  shows "fds (bridge_destroy sys bp w) = fds w - held (bp_sender bp)"
    "live (bridge_destroy sys bp w) = live w - mset (bp_sockets bp)"
    "failed (bridge_destroy sys bp w) = failed w"
  using close_sockets_live [OF assms, of w] close_sockets_view [of "bp_sockets bp" w]
    close_fd_live [of "bp_sender bp" "close_sockets (sy_zmq sys) (bp_sockets bp) w", OF prod.collapse [symmetric]]
    fd_frame.close_fd_view [of "bp_sender bp" "close_sockets (sy_zmq sys) (bp_sockets bp) w", OF prod.collapse [symmetric]]
  by (auto simp: bridge_destroy_def Let_def ctx_term_view ctx_term_live)

lemma bridge_session_ledger:
  assumes "bridge_session sys ntop cfg w = Some (code, bp, w')"
  shows "\<exists>bad. fds w' = fds w \<and> live w' = live w + bad \<and> failed w' = failed w + bad \<and>
    size bad \<le> 1 \<and> (code = 0 \<longrightarrow> bad = {#})"
proof -
  obtain err bp1 w1 where init: "bridge_init sys (new_BridgeProcess cfg) w = (err, bp1, w1)" by (metis prod_cases3)
  obtain bad where w1: "fds w1 = fds w + held (bp_sender bp1)" "failed w1 = failed w + bad"
      "live w1 = live w + bad + mset (bp_sockets bp1)" "0 \<notin> set (bp_sockets bp1)"
      "if err = None then bad = {#} else size bad \<le> 1"
    using bridge_init_ledger [OF init] by blast
  have "err \<noteq> None \<Longrightarrow> code = 1" using assms init by (auto simp: bridge_session_def)
  moreover have "\<exists>w2. ledger w2 = ledger w1 \<and> bp_sockets bp = bp_sockets bp1 \<and> bp_sender bp = bp_sender bp1 \<and>
      w' = bridge_destroy sys bp w2"
  proof (cases err)
    case (Some e)
    with assms init show ?thesis
      by (auto simp: bridge_session_def intro!: exI [of _ "ipc_log sys bp1 LogError (''startup failed: '' @ c_str e) w1"])
  next
    case None
    then obtain w2 where run: "bridge_run sys ntop bp1 w1 = Some (code, bp, w2)" and w2: "w' = bridge_destroy sys bp w2"
      using assms init by (auto simp: bridge_session_def split: option.splits)
    from run obtain w0 orderly w3 where "bridge_loop sys bp1 w0 = Some (orderly, bp, w3)" "ledger w0 = ledger w1" "ledger w2 = ledger w3"
      by (auto simp: bridge_run_def Let_def split: option.splits if_splits)
    then show ?thesis using bridge_loop_ledger [of bp1 w0 orderly bp w3] w2 by auto
  qed
  ultimately show ?thesis using w1 bridge_destroy_ledger [of bp] by (auto simp: ledger_def split: if_splits)
qed

end

interpretation session: bridge_handles "observed_sys sys" fds_left zmq_left zmq_failed for sys :: "'w BridgeSys"
proof -
  have sys: "sy_sockets (observed_sys sys) = observed Udp (sy_sockets sys)" "sy_zmq (observed_sys sys) = observed_zmq Zmq (sy_zmq sys)"
    by (simp_all add: observed_sys_def)
  show "bridge_handles (observed_sys sys) fds_left zmq_left zmq_failed"
    unfolding bridge_handles_def sys
    by (intro conjI bridge_fds.descriptors_axioms bridge_zmq.zmq_handles_axioms bridge_fd_frame.socket_frame_axioms
        bridge_zmq_frame.zmq_frame_axioms, unfold_locales)
      (auto simp: observed_sys_def left_defs split: prod.splits)
qed

text \<open>A session gives up its context last.\<close>

lemma bridge_session_ends: "bridge_session sys ntop cfg w = Some (code, bp, w') \<Longrightarrow> \<exists>w2. w' = bridge_destroy sys bp w2"
  by (auto simp: bridge_session_def split: prod.splits option.splits)

lemma bridge_session_terminates_context:
  assumes "bridge_session (observed_sys sys) ntop cfg s = Some (code, bp, w', t)" "bp_ctx bp \<noteq> 0"
  shows "\<exists>t0. t = t0 @ [Zmq (ZTerminated (bp_ctx bp))]"
proof -
  obtain s0 where s0: "bridge_destroy (observed_sys sys) bp s0 = (w', t)"
    using bridge_session_ends [OF assms(1)] by metis
  obtain w1 t1 where "snd (close_fd (sy_sockets (observed_sys sys)) (bp_sender bp)
      (close_sockets (sy_zmq (observed_sys sys)) (bp_sockets bp) s0)) = (w1, t1)" by fastforce
  with s0 assms(2) show ?thesis by (auto simp: bridge_destroy_def Let_def observed_sys_def)
qed

text \<open>C17: Whatever the system calls answer, a session of the bridge that ends has closed its UDP socket, and the context is
  terminated last. The ZeroMQ sockets that are still open then are exactly those whose subscription or connection
  failed, at most one of them, and none when the exit code is 0: an orderly session closes every socket, but a source that
  cannot be set up leaves its socket open, on which the termination of the context waits.\<close>

theorem bridge_session_closes_handles:
  assumes "bridge_session (observed_sys sys) ntop cfg (w, []) = Some (code, bp, w', t)"
  shows "fds_left (w', t) = {#} \<and> zmq_left (w', t) = zmq_failed (w', t) \<and> size (zmq_failed (w', t)) \<le> 1 \<and>
    (code = 0 \<longrightarrow> zmq_left (w', t) = {#}) \<and>
    (bp_ctx bp \<noteq> 0 \<longrightarrow> (\<exists>t0. t = t0 @ [Zmq (ZTerminated (bp_ctx bp))]))"
  using session.bridge_session_ledger [OF assms] bridge_session_terminates_context [OF assms]
  by (auto simp: left_defs map_filter_def)

text \<open>A system whose \<open>zmq_connect\<close> refuses the endpoint.\<close>

definition sample_sys :: "nat BridgeSys" where
  "sample_sys =
     \<lparr>sy_sockets = sample_sockets, sy_zmq = sample_zmq False, sy_sendmsg = (\<lambda>_ d n. (Sent (length d), n)),
      sy_realtime = (\<lambda>n. (0, n)), sy_monotonic = (\<lambda>n. (0, n)), sy_shutdown_requested = (\<lambda>_. True),
      sy_shutdown_signal = (\<lambda>_. 15), sy_log = (\<lambda>_ _ n. n)\<rparr>"

definition sample_session_config :: BridgeConfig where
  "sample_session_config =
     default_BridgeConfig\<lparr>send_timeout_ms := 0, sources := [default_BridgeSourceConfig\<lparr>endpoint := ''x''\<rparr>]\<rparr>"

lemma sample_init:
  "\<exists>err. bridge_init (observed_sys sample_sys) (new_BridgeProcess sample_session_config) (3, []) =
     (Some err,
      (new_BridgeProcess sample_session_config)\<lparr>bp_sender := 3, bp_ctx := 1,
        bp_core := new_Bridge sample_session_config\<rparr>, 5,
      [Udp (Opened 3), Udp (SetOption 3 (IP_MULTICAST_TTL 1) None), Udp (SetOption 3 (IP_MULTICAST_LOOP 1) None),
       Udp (SetOption 3 (SO_SNDBUF 4194304) None), Udp (Connected 3 0 0 None), Zmq (ZContext 1),
       Zmq (ZSocket 4 ZMQ_SUB), Zmq (ZOption 4 (ZMQ_RCVHWM 10000) True), Zmq (ZOption 4 (ZMQ_LINGER 0) True),
       Zmq (ZOption 4 (ZMQ_RECONNECT_IVL 100) True), Zmq (ZOption 4 (ZMQ_SUBSCRIBE []) True), Zmq (ZConnected 4 ''x'' False)])"
  by (simp add: bridge_init_def new_BridgeProcess_def new_Bridge_def sample_session_config_def default_BridgeConfig_def
      default_BridgeSourceConfig_def observed_sys_def sample_sys_def sample_zmq_def sample_sockets_def sender_open_def close_fd_def
      sender_config_def sender_options_def set_up_socket_def subscribe_def source_hwm_def c_str_def Let_def)

lemma sample_log: "ipc_log (observed_sys sample_sys) bp level line s = s"
  by (cases s) (simp add: ipc_log_def observed_sys_def sample_sys_def)

theorem bridge_session_closes_handles_witness:
  "\<exists>bp w t. bridge_session (observed_sys sample_sys) (\<lambda>_. []) sample_session_config (3, []) = Some (1, bp, w, t) \<and>
     fds_left (w, t) = {#} \<and> zmq_left (w, t) = {#4#} \<and> (\<exists>t0. t = t0 @ [Zmq (ZTerminated 1)])"
proof -
  obtain bp w t where s: "bridge_session (observed_sys sample_sys) (\<lambda>_. []) sample_session_config (3, []) = Some (1, bp, w, t)"
    and bp: "bp_ctx bp = 1" and failed: "zmq_failed (w, t) = {#4#}"
    using sample_init
    by (auto simp: bridge_session_def bridge_destroy_def sample_log)
      (auto simp: close_fd_def observed_sys_def sample_sys_def new_BridgeProcess_def zmq_failed_def map_filter_def unusable_sockets_def)
  show ?thesis using bridge_session_closes_handles [OF s] s bp failed by auto
qed

section \<open>The program\<close>

text \<open>src/bridge/main.cpp.\<close>

definition bridge_start :: "Host \<Rightarrow> string \<Rightarrow> string list \<Rightarrow> BridgeConfig Parsed" where
  "bridge_start h prog args =
     and_then (bridge_args (h_versions h) prog args no_options) (\<lambda>cl.
     and_then (bridge_config_file (h_read_file h) cl) (\<lambda>f.
       case build_bridge_config (h_inet_pton h) (h_interfaces h) f of (cfg, errors) \<Rightarrow>
         if errors \<noteq> [] then configuration_invalid errors
         else if cl_check cl then Exit 0 (lines [''configuration OK: '' @ c_str (describe_bridge_config (h_ntop h) cfg)]) []
         else Go cfg))"

text \<open>The exit code, standard output, standard error (without the log) and the world.\<close>

definition bridge_main ::
  "Host \<Rightarrow> 'w BridgeSys \<Rightarrow> string \<Rightarrow> string list \<Rightarrow> 'w \<Rightarrow> (int \<times> string \<times> string \<times> 'w) option"
where
  "bridge_main h sys prog args w =
     (case bridge_start h prog args of
        Exit code out err \<Rightarrow> Some (code, out, err, w)
      | Go cfg \<Rightarrow>
          (case bridge_session sys (h_ntop h) cfg w of
             None \<Rightarrow> None
           | Some (code, bp, w) \<Rightarrow> Some (code, [], [], w)))"

lemma bridge_start_ends: "ends_properly (bridge_start h prog args)"
  unfolding bridge_start_def
  by (intro ends_properly_and_then bridge_args_ends bridge_config_file_ends) (simp split: prod.split)

lemma bridge_start_Go:
  "bridge_start h prog args = Go cfg \<Longrightarrow> \<exists>f. build_bridge_config (h_inet_pton h) (h_interfaces h) f = (cfg, [])"
  by (auto simp: bridge_start_def and_then_Go case_prod_beta prod_eq_iff split: if_splits)

lemma bridge_session_code: "bridge_session sys ntop cfg w = Some (code, bp, w') \<Longrightarrow> code \<in> {0, 1}"
  by (auto simp: bridge_session_def bridge_run_def Let_def split: prod.splits option.splits if_splits)

text \<open>C18: The bridge opens sockets only for a configuration that is valid as a whole (a multicast group, a port, every number
  in its range, at least one source, distinct ids and endpoints), wherever its values come from: file, command line or
  default. In every other case the program ends without any effect on the system, with code 0 when it was asked for help,
  the version or a check, and otherwise with code 2 and an explanation; code 1 is left to failures at run time.\<close>

theorem bridge_opens_sockets_only_when_valid:
  assumes "bridge_main h sys prog args w = Some (code, out, err, w')"
  shows "(\<exists>cfg bp. bridge_start h prog args = Go cfg \<and> bridge_config_ok cfg \<and> code \<in> {0, 1} \<and>
      bridge_session sys (h_ntop h) cfg w = Some (code, bp, w')) \<or>
    w' = w \<and> (code = 0 \<or> code = 2 \<and> err \<noteq> [])"
proof (cases "bridge_start h prog args")
  case (Go cfg)
  with assms obtain bp where s: "bridge_session sys (h_ntop h) cfg w = Some (code, bp, w')"
    by (auto simp: bridge_main_def split: option.splits)
  moreover have "bridge_config_ok cfg" using bridge_start_Go [OF Go] accepted_bridge_config_ok by blast
  ultimately show ?thesis using Go bridge_session_code [OF s] by blast
next
  case (Exit c o1 e1)
  with assms bridge_start_ends [of h prog args] show ?thesis by (auto simp: bridge_main_def)
qed

text \<open>A source without an equals sign.\<close>

definition sample_host :: Host where
  "sample_host =
     \<lparr>h_versions = \<lparr>own_version = ''1.0.0'', zmq_version = ''4.3.5''\<rparr>, h_read_file = (\<lambda>_. None),
      h_inet_pton = sample_pton, h_interfaces = Inr [], h_ntop = (\<lambda>_. [])\<rparr>"

theorem bridge_opens_sockets_only_when_valid_witness:
  "bridge_main sample_host sample_sys ''bridge'' [''-s'', ''1''] 3 =
     Some (2, [], lines [quoted_in ''--source expects ID=ENDPOINT[,FILTER], got '' ''1'' []], 3)"
proof -
  have "bridge_start sample_host ''bridge'' [''-s'', ''1''] =
      Exit 2 [] (lines [quoted_in ''--source expects ID=ENDPOINT[,FILTER], got '' ''1'' []])"
    by (simp add: bridge_start_def no_options_def bridge_config_file_def base_config_def source_section_def find_char_def
        split: sum.split)
  then have run: "bridge_main sample_host sample_sys ''bridge'' [''-s'', ''1''] 3 =
      Some (2, [], lines [quoted_in ''--source expects ID=ENDPOINT[,FILTER], got '' ''1'' []], 3)"
    by (simp add: bridge_main_def)
  show ?thesis using bridge_opens_sockets_only_when_valid [OF run] run by blast
qed

end
