(* ===== verification/Receiver_Program.thy ===== *)
theory Receiver_Program
  imports Receiver_Invariant Command_Line
begin

text \<open>
  The receiver as a program: tools/receiver/main.cpp, \<open>describe_receiver_config\<close> of receiver_config.cpp and the destructor
  of the class Receiver. \<open>teardown\<close> closes the statistics socket and the command socket where they exist, then the UDP
  socket and the context.
\<close>

section \<open>The description of a configuration\<close>

definition describe_receiver_config :: "(u32 \<Rightarrow> string) \<Rightarrow> ReceiverConfig \<Rightarrow> string" where
  "describe_receiver_config ntop cfg =
     ''multicast '' @ rc_multicast_group_text cfg @ '':'' @ to_string (uint (rc_multicast_port cfg)) @
     '' iface='' @ (if rc_multicast_interface cfg \<noteq> 0 then ntop (rc_multicast_interface cfg) else ''default'') @
     '' rcvbuf='' @ to_string (rc_receive_buffer_bytes cfg) @
     ''; capture='' @ capture_file cfg @ '' record_on_start='' @ (if record_on_start cfg then ''yes'' else ''no'') @
     '' flush_ms='' @ to_string (capture_flush_interval_ms cfg) @
     ''; reassembly timeout_ms='' @ to_string (reassembly_timeout_ms cfg) @
     '' max_pending='' @ to_string (reassembly_max_pending cfg) @
     ''; stats='' @ (if stats_endpoint cfg = [] then ''disabled'' else stats_endpoint cfg) @
     '' every '' @ to_string (rc_stats_interval_ms cfg) @ ''ms'' @
     ''; commands='' @ (if command_endpoint cfg = [] then ''disabled''
                        else command_endpoint cfg @ (if command_bind cfg then '' (bind)'' else '' (connect)''))"

section \<open>The program\<close>

definition receiver_start :: "Host \<Rightarrow> string \<Rightarrow> string list \<Rightarrow> ReceiverConfig Parsed" where
  "receiver_start h prog args =
     and_then (receiver_args (h_versions h) prog args no_options) (\<lambda>cl.
     and_then (receiver_config_file (h_read_file h) cl) (\<lambda>f.
       case build_receiver_config (h_inet_pton h) (h_interfaces h) f of (cfg, errors) \<Rightarrow>
         if errors \<noteq> [] then configuration_invalid errors
         else if cl_check cl then Exit 0 (lines [''configuration OK: '' @ c_str (describe_receiver_config (h_ntop h) cfg)]) []
         else Go cfg))"

definition receiver_destroy :: "'w ReceiverEnv \<Rightarrow> (bool \<Rightarrow> bool \<Rightarrow> 'w \<Rightarrow> 'w) \<Rightarrow> Receiver \<Rightarrow> 'w \<Rightarrow> 'w" where
  "receiver_destroy env teardown rv w =
     (let w = (if w_is_open (rv_writer rv)
               then (case writer_close (re_capture env) (rv_writer rv) w of (_, _, w) \<Rightarrow> w) else w)
      in teardown (has_stats_pub rv) (has_command_sub rv) w)"

definition receiver_session ::
  "'w ReceiverEnv \<Rightarrow> (bool \<Rightarrow> bool \<Rightarrow> 'w \<Rightarrow> 'w) \<Rightarrow> ReceiverConfig \<Rightarrow> 'w \<Rightarrow> (int \<times> 'w) option"
where
  "receiver_session env teardown cfg w =
     (case init env (new_Receiver cfg) w of
        (Some err, rv, w) \<Rightarrow> Some (1, receiver_destroy env teardown rv w)
      | (None, rv, w) \<Rightarrow>
          (case run_receiver env rv w of
             None \<Rightarrow> None
           | Some (code, rv, w) \<Rightarrow> Some (code, receiver_destroy env teardown rv w)))"

definition receiver_main ::
  "Host \<Rightarrow> 'w ReceiverEnv \<Rightarrow> (bool \<Rightarrow> bool \<Rightarrow> 'w \<Rightarrow> 'w) \<Rightarrow> string \<Rightarrow> string list \<Rightarrow> 'w \<Rightarrow>
     (int \<times> string \<times> string \<times> 'w) option"
where
  "receiver_main h env teardown prog args w =
     (case receiver_start h prog args of
        Exit code out err \<Rightarrow> Some (code, out, err, w)
      | Go cfg \<Rightarrow>
          (case receiver_session env teardown cfg w of None \<Rightarrow> None | Some (code, w) \<Rightarrow> Some (code, [], [], w)))"

section \<open>Only a valid configuration starts the receiver\<close>

lemma receiver_start_ends: "ends_properly (receiver_start h prog args)"
  unfolding receiver_start_def
  by (intro ends_properly_and_then receiver_args_ends receiver_config_file_ends) (simp split: prod.split)

lemma receiver_start_Go:
  "receiver_start h prog args = Go cfg \<Longrightarrow> \<exists>f. build_receiver_config (h_inet_pton h) (h_interfaces h) f = (cfg, [])"
  by (auto simp: receiver_start_def and_then_Go case_prod_beta prod_eq_iff split: if_splits)

lemma receiver_session_run:
  assumes "receiver_session env teardown cfg w = Some (code, w')"
  shows "code = 1 \<and> (\<exists>err rv w1. init env (new_Receiver cfg) w = (Some err, rv, w1)) \<or>
    (\<exists>rv w1. run_program env cfg w = Inr (Some (code, rv, w1)))"
proof -
  obtain e rv w1 where start: "init env (new_Receiver cfg) w = (e, rv, w1)" by (metis prod_cases3)
  show ?thesis
  proof (cases e)
    case (Some err)
    with assms start show ?thesis by (simp add: receiver_session_def)
  next
    case None
    with assms start obtain rv2 w2 where "run_receiver env rv w1 = Some (code, rv2, w2)"
      by (auto simp: receiver_session_def split: option.splits)
    with None start show ?thesis by (auto simp: run_program_def)
  qed
qed



end
