(* ===== verification/Shutdown.thy ===== *)
theory Shutdown
  imports Bridge_Program Receiver_Program
begin

text \<open>
  How the programs stop: src/common/signal_handler.cpp, and that a SIGINT or SIGTERM which arrives while a program waits for
  messages ends its main loop. The kernel's side is a schedule: during each poll the next entry of it is delivered.
\<close>

section \<open>signal_handler.cpp\<close>

definition SIGINT :: int where "SIGINT = 2"
definition SIGPIPE :: int where "SIGPIPE = 13"
definition SIGTERM :: int where "SIGTERM = 15"

text \<open>The two variables of the file, and what the kernel has been told.\<close>

record Signals =
  g_shutdown :: int
  g_signal :: int
  sg_caught :: "int set"
  sg_ignored :: "int set"

definition no_signals :: Signals where
  "no_signals = \<lparr>g_shutdown = 0, g_signal = 0, sg_caught = {}, sg_ignored = {}\<rparr>"

definition on_signal :: "int \<Rightarrow> Signals \<Rightarrow> Signals" where
  "on_signal n sg = sg\<lparr>g_shutdown := 1, g_signal := n\<rparr>"

definition install_shutdown_handlers :: "Signals \<Rightarrow> Signals" where
  "install_shutdown_handlers sg =
     sg\<lparr>sg_caught := insert SIGTERM (insert SIGINT (sg_caught sg)), sg_ignored := insert SIGPIPE (sg_ignored sg)\<rparr>"

definition shutdown_requested :: "Signals \<Rightarrow> bool" where
  "shutdown_requested sg \<longleftrightarrow> g_shutdown sg \<noteq> 0"

definition shutdown_signal :: "Signals \<Rightarrow> int" where
  "shutdown_signal sg = g_signal sg"

text \<open>The kernel delivers what is caught; the default action of other signals is not modelled.\<close>

definition deliver :: "int \<Rightarrow> Signals \<Rightarrow> Signals" where
  "deliver n sg = (if n \<in> sg_caught sg then on_signal n sg else sg)"

fun deliver_next :: "Signals \<times> int option list \<Rightarrow> Signals \<times> int option list" where
  "deliver_next (sg, []) = (sg, [])"
| "deliver_next (sg, None # es) = (sg, es)"
| "deliver_next (sg, Some n # es) = (deliver n sg, es)"

lemma deliver_caught [simp]: "sg_caught (deliver n sg) = sg_caught sg"
  by (simp add: deliver_def on_signal_def)

text \<open>A stop, once requested, stays requested.\<close>

lemma deliver_requested: "shutdown_requested sg \<Longrightarrow> shutdown_requested (deliver n sg)"
  by (simp add: deliver_def on_signal_def shutdown_requested_def)

text \<open>After \<open>j\<close> of the entries of a schedule whose entry \<open>k\<close> is a caught signal.\<close>

definition awaiting :: "int set \<Rightarrow> int option list \<Rightarrow> nat \<Rightarrow> Signals \<times> int option list \<Rightarrow> bool" where
  "awaiting caught es k v \<longleftrightarrow>
     (\<exists>j. snd v = drop j es \<and> sg_caught (fst v) = caught \<and> (shutdown_requested (fst v) \<or> j \<le> k) \<and> j \<le> Suc k)"

lemma awaiting_next:
  assumes "awaiting caught es k v" "\<not> shutdown_requested (fst v)" "k < length es" "es ! k = Some n" "n \<in> caught"
  shows "awaiting caught es k (deliver_next v) \<and> length (snd (deliver_next v)) < length (snd v)"
proof -
  obtain j where j: "snd v = drop j es" "sg_caught (fst v) = caught" "j \<le> k" using assms(1,2) by (auto simp: awaiting_def)
  define e rest sg where "e = es ! j" and "rest = drop (Suc j) es" and "sg = fst v"
  have "drop j es = e # rest" using j(3) assms(3) by (simp add: e_def rest_def Cons_nth_drop_Suc)
  then have v: "v = (sg, e # rest)" using j(1) by (simp add: prod_eq_iff sg_def)
  have caught: "sg_caught sg = caught" using j(2) by (simp add: sg_def)
  then have stops: "shutdown_requested (deliver n sg)"
    using assms(5) by (simp add: deliver_def on_signal_def shutdown_requested_def)
  have "snd (deliver_next v) = rest" "sg_caught (fst (deliver_next v)) = caught"
    unfolding v using caught by (cases e; simp)+
  moreover have "shutdown_requested (fst (deliver_next v)) \<or> Suc j \<le> k"
    unfolding v using j(3) assms(4) stops by (cases "j = k") (auto simp: e_def)
  ultimately have "awaiting caught es k (deliver_next v)"
    using j(3) unfolding awaiting_def rest_def by (intro exI [of _ "Suc j"]) auto
  then show ?thesis using \<open>snd (deliver_next v) = rest\<close> by (simp add: v)
qed

section \<open>Loops that a request stops\<close>

text \<open>The main loop of a program: a test of the flag, then a turn. Under an invariant that makes every turn return and
  brings the stop nearer, the loop ends.\<close>

locale stoppable_loop =
  fixes stopped :: "'w \<Rightarrow> bool" and turn :: "'s \<Rightarrow> 'w \<Rightarrow> (bool \<times> 's \<times> 'w) option"
    and main_loop :: "'s \<Rightarrow> 'w \<Rightarrow> ('s \<times> 'w) option" and inv :: "'s \<Rightarrow> 'w \<Rightarrow> bool" and left :: "'w \<Rightarrow> nat"
  assumes loop_stopped: "stopped w \<Longrightarrow> main_loop s w = Some (s, w)"
    and loop_turn: "\<not> stopped w \<Longrightarrow> turn s w = Some (go, s', w') \<Longrightarrow> main_loop s w = (if go then main_loop s' w' else Some (s', w'))"
    and turn_returns: "inv s w \<Longrightarrow> \<not> stopped w \<Longrightarrow> \<exists>r. turn s w = Some r"
    and turn_nearer: "inv s w \<Longrightarrow> \<not> stopped w \<Longrightarrow> turn s w = Some (go, s', w') \<Longrightarrow> inv s' w' \<and> left w' < left w"
begin

lemma main_loop_returns: "inv s w \<Longrightarrow> \<exists>s' w'. main_loop s w = Some (s', w') \<and> inv s' w'"
proof (induction "left w" arbitrary: s w rule: less_induct)
  case less
  show ?case
  proof (cases "stopped w")
    case True
    then show ?thesis using less.prems loop_stopped by blast
  next
    case False
    obtain go s1 w1 where turn: "turn s w = Some (go, s1, w1)"
      using turn_returns [OF less.prems False] by (metis prod_cases3)
    note near = turn_nearer [OF less.prems False turn]
    show ?thesis
      using less.hyps [of w1 s1] near loop_turn [OF False turn] by (cases go) auto
  qed
qed

end

section \<open>Receives that end\<close>

text \<open>A receive that is interrupted, or hands out a frame of a message that goes on, comes to an end when repeated: ZeroMQ
  delivers a multipart message as a whole, and interruptions stop.\<close>

definition patient :: "('m \<Rightarrow> bool) \<Rightarrow> ('w \<Rightarrow> 'm \<times> 'w) \<Rightarrow> bool" where
  "patient again recv \<longleftrightarrow> (\<exists>rank :: 'w \<Rightarrow> nat. \<forall>w m w'. recv w = (m, w') \<longrightarrow> again m \<longrightarrow> rank w' < rank w)"

fun goes_on :: "RecvResult \<Rightarrow> bool" where
  "goes_on (RecvFailed err) \<longleftrightarrow> err = E_INTR"
| "goes_on (Frame d has_more) \<longleftrightarrow> has_more"

fun interrupted :: "MsgResult \<Rightarrow> bool" where
  "interrupted (MsgFailed err) \<longleftrightarrow> err = E_INTR"
| "interrupted (Msg d drops) \<longleftrightarrow> False"

lemma recv_parts_returns:
  assumes "patient goes_on (be_recv env i)"
  shows "\<exists>r. recv_parts env i acc w = Some r"
proof -
  obtain rank :: "'a \<Rightarrow> nat" where rank:
    "be_recv env i w = (m, w') \<Longrightarrow> goes_on m \<Longrightarrow> rank w' < rank w" for w m w'
    using assms unfolding patient_def by blast
  show ?thesis
  proof (induction "rank w" arbitrary: acc w rule: less_induct)
    case less
    obtain m w' where m: "be_recv env i w = (m, w')" by fastforce
    show ?case
      using less.hyps [of w'] rank [OF m] m by (subst recv_parts.simps) (auto split: RecvResult.split)
  qed
qed

lemma service_loop_returns:
  assumes "patient goes_on (be_recv env i)"
  shows "\<exists>r. service_loop env i n b w = Some r"
proof (induction n arbitrary: b w)
  case (Suc n)
  obtain m w1 where m: "be_recv env i w = (m, w1)" by fastforce
  show ?case
  proof (cases m)
    case (RecvFailed err)
    then show ?thesis using Suc.IH m by simp
  next
    case (Frame d has_more)
    obtain ts w2 where ts: "be_clock env w1 = (ts, w2)" by fastforce
    obtain r where "recv_parts env i d w2 = Some r" using recv_parts_returns [OF assms] by blast
    then show ?thesis using Suc.IH m ts Frame by (cases r) (auto simp: Let_def split: prod.split)
  qed
qed simp

lemma service_ready_returns:
  assumes "\<And>i. patient goes_on (be_recv env i)"
  shows "\<exists>r. service_ready env i rs b w = Some r"
proof (induction rs arbitrary: i b w)
  case (Cons ready rs)
  obtain r where "service_source env i b w = Some r"
    using service_loop_returns [OF assms] unfolding service_source_def by blast
  then show ?case using Cons.IH by (cases r) simp
qed simp

lemma poll_once_returns:
  assumes "\<And>i. patient goes_on (be_recv env i)"
  shows "\<exists>r. poll_once env ms b w = Some r"
proof -
  obtain p w1 where p: "be_poll env ms w = (p, w1)" by fastforce
  show ?thesis
  proof (cases p)
    case (Ready rc revents)
    obtain r where "service_ready env 0 revents (on_stats (\<lambda>s. s\<lparr>poll_iterations := poll_iterations s + 1\<rparr>) b) w1 = Some r"
      using service_ready_returns [OF assms] by blast
    with p Ready show ?thesis by (cases r) (auto simp: poll_once_def Let_def)
  qed (use p in \<open>auto simp: poll_once_def Let_def\<close>)
qed

section \<open>The bridge\<close>

text \<open>A system beside which something else is kept, and the system to which the kernel delivers signals during its polls.\<close>

definition beside :: "('w \<Rightarrow> 'a \<times> 'w) \<Rightarrow> 'w \<times> 'v \<Rightarrow> 'a \<times> 'w \<times> 'v" where
  "beside f v = (case f (fst v) of (a, w) \<Rightarrow> (a, w, snd v))"

lemma beside_snd: "beside f v = (a, v') \<Longrightarrow> snd v' = snd v"
  by (auto simp: beside_def split: prod.splits)

lemma patient_beside: "patient again recv \<Longrightarrow> patient again (beside recv)"
proof -
  assume "patient again recv"
  then obtain rank :: "'b \<Rightarrow> nat" where
    "\<forall>w m w'. recv w = (m, w') \<longrightarrow> again m \<longrightarrow> rank w' < rank w"
    unfolding patient_def by blast
  then show "patient again (beside recv)"
    unfolding patient_def by (intro exI [of _ "rank \<circ> fst"]) (auto simp: beside_def split: prod.splits)
qed

type_synonym 'w signalled = "'w \<times> Signals \<times> int option list"

definition polling :: "('w \<Rightarrow> 'a \<times> 'w) \<Rightarrow> 'w signalled \<Rightarrow> 'a \<times> 'w signalled" where
  "polling f v = (case f (fst v) of (a, w) \<Rightarrow> (a, w, deliver_next (snd v)))"

lemma polling_snd: "snd (snd (polling f v)) = deliver_next (snd v)"
  by (simp add: polling_def split: prod.split)

definition signalled_sockets :: "'w SocketEnv \<Rightarrow> 'w signalled SocketEnv" where
  "signalled_sockets env =
     \<lparr>so_socket = (\<lambda>b. beside (so_socket env b)), so_setsockopt = (\<lambda>fd opt. beside (so_setsockopt env fd opt)),
      so_rcvbuf = (\<lambda>fd. beside (so_rcvbuf env fd)), so_connect = (\<lambda>fd g p. beside (so_connect env fd g p)),
      so_bind = (\<lambda>fd g p. beside (so_bind env fd g p)), so_close = (\<lambda>fd. apfst (so_close env fd)),
      so_strerror = so_strerror env\<rparr>"

definition signalled_zmq :: "'w ZmqEnv \<Rightarrow> 'w signalled ZmqEnv" where
  "signalled_zmq env =
     \<lparr>zq_ctx_new = beside (zq_ctx_new env), zq_ctx_set_io_threads = (\<lambda>c n. apfst (zq_ctx_set_io_threads env c n)),
      zq_ctx_term = (\<lambda>c. apfst (zq_ctx_term env c)), zq_socket = (\<lambda>c ty. beside (zq_socket env c ty)),
      zq_setsockopt = (\<lambda>s opt. beside (zq_setsockopt env s opt)), zq_connect = (\<lambda>s ep. beside (zq_connect env s ep)),
      zq_bind = (\<lambda>s ep. beside (zq_bind env s ep)), zq_close = (\<lambda>s. apfst (zq_close env s)),
      zq_recv = (\<lambda>s. beside (zq_recv env s)), zq_send = (\<lambda>s d sndmore. beside (zq_send env s d sndmore)),
      zq_poll = (\<lambda>ss ms. polling (zq_poll env ss ms)), zq_errno = zq_errno env \<circ> fst, zq_strerror = zq_strerror env\<rparr>"

definition signalled_bridge :: "'w BridgeSys \<Rightarrow> 'w signalled BridgeSys" where
  "signalled_bridge sys =
     \<lparr>sy_sockets = signalled_sockets (sy_sockets sys), sy_zmq = signalled_zmq (sy_zmq sys),
      sy_sendmsg = (\<lambda>fd d. beside (sy_sendmsg sys fd d)), sy_realtime = beside (sy_realtime sys),
      sy_monotonic = beside (sy_monotonic sys), sy_shutdown_requested = shutdown_requested \<circ> fst \<circ> snd,
      sy_shutdown_signal = shutdown_signal \<circ> fst \<circ> snd, sy_log = (\<lambda>level line. apfst (sy_log sys level line))\<rparr>"

definition bridge_turn :: "'w BridgeSys \<Rightarrow> BridgeProcess \<Rightarrow> 'w \<Rightarrow> (bool \<times> BridgeProcess \<times> 'w) option" where
  "bridge_turn sys bp w =
     (case report_when_due sys bp w of (timeout_ms, bp, w) \<Rightarrow>
        (case poll_once (bridge_env sys bp) timeout_ms (bp_core bp) w of
           None \<Rightarrow> None
         | Some (good, core, w) \<Rightarrow> Some (good, bp\<lparr>bp_core := core\<rparr>, w)))"

lemma bridge_loop_turn:
  "bridge_loop sys bp w =
     (if sy_shutdown_requested sys w then Some (True, bp, w)
      else (case bridge_turn sys bp w of
              None \<Rightarrow> None
            | Some (good, bp, w) \<Rightarrow> if good then bridge_loop sys bp w else Some (False, bp, w)))"
  by (subst bridge_loop.simps) (simp add: bridge_turn_def Let_def split: prod.split option.split)

interpretation bridge_calls: calls_frame "bridge_env (signalled_bridge sys) bp" snd for sys :: "'w BridgeSys" and bp
  by unfold_locales (auto simp: bridge_env_def signalled_bridge_def signalled_zmq_def beside_snd)

lemma signalled_log: "snd (ipc_log (signalled_bridge sys) bp level line v) = snd v"
  by (simp add: ipc_log_def signalled_bridge_def)

lemma signalled_log_stats: "snd (log_stats (signalled_bridge sys) bp v) = snd v"
proof -
  have "snd (fold (ipc_log (signalled_bridge sys) bp LogInfo) ls v) = snd v" for ls
    by (induction ls arbitrary: v) (simp_all add: signalled_log)
  then show ?thesis by (simp add: log_stats_def)
qed

lemma signalled_report:
  assumes "report_when_due (signalled_bridge sys) bp v = (ms, bp', v')"
  shows "snd v' = snd v"
proof -
  obtain now v1 where now: "sy_monotonic (signalled_bridge sys) v = (now, v1)" by (meson surj_pair)
  then have "snd v1 = snd v" by (auto simp: signalled_bridge_def dest: beside_snd)
  then show ?thesis using assms now by (auto simp: report_when_due_def Let_def signalled_log_stats split: if_splits)
qed

lemma bridge_turn_polls:
  assumes "bridge_turn (signalled_bridge sys) bp v = Some (go, bp', v')"
  shows "snd v' = deliver_next (snd v)"
proof -
  obtain ms bp1 v1 where rep: "report_when_due (signalled_bridge sys) bp v = (ms, bp1, v1)" by (meson prod_cases3)
  then obtain core where "poll_once (bridge_env (signalled_bridge sys) bp1) ms (bp_core bp1) v1 = Some (go, core, v')"
    using assms by (auto simp: bridge_turn_def split: option.splits prod.splits)
  from bridge_calls.poll_once_polls [OF this] have "snd v' = snd (snd (be_poll (bridge_env (signalled_bridge sys) bp1) ms v1))" .
  also have "\<dots> = deliver_next (snd v1)"
    by (simp add: bridge_env_def signalled_bridge_def signalled_zmq_def polling_snd)
  finally show ?thesis using signalled_report [OF rep] by simp
qed

lemma signalled_requested: "sy_shutdown_requested (signalled_bridge sys) v \<longleftrightarrow> shutdown_requested (fst (snd v))"
  by (simp add: signalled_bridge_def)

lemma bridge_turn_returns:
  assumes "\<And>s. patient goes_on (zq_recv (sy_zmq sys) s)"
  shows "\<exists>r. bridge_turn (signalled_bridge sys) bp v = Some r"
proof -
  obtain ms bp1 v1 where rep: "report_when_due (signalled_bridge sys) bp v = (ms, bp1, v1)" by (meson prod_cases3)
  have "patient goes_on (be_recv (bridge_env (signalled_bridge sys) bp1) i)" for i
    using assms by (simp add: bridge_env_def signalled_bridge_def signalled_zmq_def patient_beside)
  from poll_once_returns [OF this, of ms "bp_core bp1" v1] obtain r where "poll_once (bridge_env (signalled_bridge sys) bp1) ms (bp_core bp1) v1 = Some r"
    by (elim exE)
  moreover obtain good core w2 where "r = (good, core, w2)" by (meson prod_cases3)
  ultimately show ?thesis
    using rep by (intro exI [of _ "(good, bp1\<lparr>bp_core := core\<rparr>, w2)"]) (simp only: bridge_turn_def prod.case option.case)
qed

text \<open>A caught signal is due at entry \<open>k\<close>.\<close>

definition signal_due :: "int option list \<Rightarrow> nat \<Rightarrow> bool" where
  "signal_due es k \<longleftrightarrow> k < length es \<and> (es ! k = Some SIGINT \<or> es ! k = Some SIGTERM)"

definition awaiting_stop :: "int option list \<Rightarrow> nat \<Rightarrow> Signals \<times> int option list \<Rightarrow> bool" where
  "awaiting_stop es k v \<longleftrightarrow> signal_due es k \<and> (\<exists>caught. {SIGINT, SIGTERM} \<subseteq> caught \<and> awaiting caught es k v)"

lemma awaiting_stop_next:
  assumes "awaiting_stop es k v" "\<not> shutdown_requested (fst v)"
  shows "awaiting_stop es k (deliver_next v) \<and> length (snd (deliver_next v)) < length (snd v)"
proof -
  obtain caught n where c: "{SIGINT, SIGTERM} \<subseteq> caught" "awaiting caught es k v" "k < length es" "es ! k = Some n" "n \<in> caught"
    using assms(1) by (auto simp: awaiting_stop_def signal_due_def)
  from awaiting_next [OF c(2) assms(2) c(3-5)] show ?thesis
    using assms(1) c(1) by (auto simp: awaiting_stop_def)
qed

lemma awaiting_stop_start: "signal_due es k \<Longrightarrow> awaiting_stop es k (install_shutdown_handlers sg, es)"
  unfolding awaiting_stop_def awaiting_def
  by (intro conjI exI [of _ "insert SIGTERM (insert SIGINT (sg_caught sg))"] exI [of _ 0])
    (simp_all add: install_shutdown_handlers_def)

lemma awaiting_stop_polls: "awaiting_stop es k v \<Longrightarrow> length es \<le> length (snd v) + Suc k"
  by (auto simp: awaiting_stop_def awaiting_def)

interpretation bridge_stop: stoppable_loop "shutdown_requested \<circ> fst \<circ> snd" "bridge_turn (signalled_bridge sys)"
  "\<lambda>bp v. map_option snd (bridge_loop (signalled_bridge sys) bp v)"
  "\<lambda>bp v. (\<forall>s. patient goes_on (zq_recv (sy_zmq sys) s)) \<and> awaiting_stop es k (snd v)" "length \<circ> snd \<circ> snd"
  for sys :: "'w BridgeSys" and es k
proof (unfold_locales, goal_cases)
  case (1 v bp)
  then show ?case by (subst bridge_loop_turn) (simp add: signalled_requested)
next
  case (2 v bp go bp' v')
  then show ?case by (subst bridge_loop_turn) (simp add: signalled_requested)
next
  case (3 bp v)
  then show ?case using bridge_turn_returns by blast
next
  case (4 bp v go bp' v')
  then show ?case using awaiting_stop_next [of es k "snd v"] bridge_turn_polls [OF 4(3)] by simp
qed

lemma bridge_run_stops:
  assumes "\<And>s. patient goes_on (zq_recv (sy_zmq sys) s)" "signal_due es k"
  shows "\<exists>code bp' w' sg' es'. bridge_run (signalled_bridge sys) ntop bp (w, install_shutdown_handlers sg, es) =
      Some (code, bp', w', sg', es') \<and> code \<in> {0, 1} \<and> length es \<le> length es' + Suc k"
proof -
  let ?v = "ipc_log (signalled_bridge sys) bp LogInfo (''bridge running: '' @ c_str (describe_bridge_config ntop (bp_cfg bp)))
      (w, install_shutdown_handlers sg, es)"
  have "(\<forall>s. patient goes_on (zq_recv (sy_zmq sys) s)) \<and> awaiting_stop es k (snd ?v)"
    using assms by (simp add: signalled_log awaiting_stop_start)
  from bridge_stop.main_loop_returns [OF this, of bp]
  obtain orderly bp' v' where loop: "bridge_loop (signalled_bridge sys) bp ?v = Some (orderly, bp', v')" "awaiting_stop es k (snd v')"
    by auto
  obtain code v2 where run: "bridge_run (signalled_bridge sys) ntop bp (w, install_shutdown_handlers sg, es) = Some (code, bp', v2)"
      "code \<in> {0, 1}" "snd v2 = snd v'"
    using loop(1) by (cases orderly) (auto simp: bridge_run_def Let_def signalled_log signalled_log_stats)
  then show ?thesis
    using awaiting_stop_polls [OF loop(2)]
    by (intro exI [of _ code] exI [of _ bp'] exI [of _ "fst v2"] exI [of _ "fst (snd v2)"] exI [of _ "snd (snd v2)"])
      (simp add: prod_eq_iff)
qed

end
