(* ===== verification/Shutdown_Receiver.thy ===== *)
theory Shutdown_Receiver
  imports Shutdown
begin

text \<open>
  The receiver stops on a signal too: what its calls leave alone, that a round of its loop returns, and the two programs
  together.
\<close>

section \<open>The calls of a round keep what they do not concern\<close>

locale round_frame =
  fixes env :: "'w ReceiverEnv" and view :: "'w \<Rightarrow> 'v"
  assumes fopen_view: "ce_fopen (re_capture env) path w = (e, w') \<Longrightarrow> view w' = view w"
    and fwrite_view: "ce_fwrite (re_capture env) d w = (n, e', w') \<Longrightarrow> view w' = view w"
    and fflush_view: "ce_fflush (re_capture env) w = (e, w') \<Longrightarrow> view w' = view w"
    and fsync_view: "ce_fsync (re_capture env) w = (e, w') \<Longrightarrow> view w' = view w"
    and fclose_view: "ce_fclose (re_capture env) w = (e, w') \<Longrightarrow> view w' = view w"
    and realtime_view: "ce_realtime (re_capture env) w = (now, w') \<Longrightarrow> view w' = view w"
    and monotonic_view: "re_monotonic env w = (now, w') \<Longrightarrow> view w' = view w"
    and recvmsg_view: "re_recvmsg env w = (m, w') \<Longrightarrow> view w' = view w"
    and command_view: "re_recv_command env w = (f, w') \<Longrightarrow> view w' = view w"
    and send_view: "re_send_stats env s sndmore w = (good, w') \<Longrightarrow> view w' = view w"
begin

lemmas call_views = fopen_view fwrite_view fflush_view fsync_view fclose_view realtime_view monotonic_view

lemma writer_open_view: "writer_open (re_capture env) path v cw w = (good, cw', w') \<Longrightarrow> view w' = view w"
  by (auto simp: writer_open_def Let_def split: if_splits prod.splits option.splits dest!: call_views)

lemma write_record_view: "write_record (re_capture env) h d cw w = (good, cw', w') \<Longrightarrow> view w' = view w"
  by (auto simp: write_record_def Let_def split: if_splits prod.splits dest!: call_views)

lemma writer_flush_view: "writer_flush (re_capture env) sync cw w = (good, cw', w') \<Longrightarrow> view w' = view w"
  by (auto simp: writer_flush_def Let_def split: if_splits prod.splits option.splits dest!: call_views)

lemma writer_close_view: "writer_close (re_capture env) cw w = (good, cw', w') \<Longrightarrow> view w' = view w"
  by (auto simp: writer_close_def Let_def split: if_splits prod.splits dest!: call_views)

lemma set_recording_view: "set_recording env b rv w = (good, rv', w') \<Longrightarrow> view w' = view w"
  by (auto simp: set_recording_def Let_def split: if_splits prod.splits bool.splits dest!: writer_open_view writer_flush_view)

lemma stats_json_view: "stats_json env rv w = (json, w') \<Longrightarrow> view w' = view w"
  by (auto simp: stats_json_def Let_def split: prod.splits dest!: call_views)

lemma handle_command_view: "handle_command env c rv w = (good, rv', w') \<Longrightarrow> view w' = view w"
  by (auto simp: handle_command_def Let_def split: if_splits prod.splits bool.splits
      dest!: set_recording_view writer_flush_view stats_json_view)

lemma on_complete_view: "on_complete env m rv w = (rv', w') \<Longrightarrow> view w' = view w"
  by (auto simp: on_complete_def Let_def split: if_splits prod.splits bool.splits dest!: write_record_view)

lemma handle_datagram_view: "handle_datagram env d rv w = Some (rv', w') \<Longrightarrow> view w' = view w"
  by (auto simp: handle_datagram_def Let_def split: if_splits prod.splits option.splits Result.splits
      dest!: call_views on_complete_view)

lemma udp_receive_view:
  assumes "udp_receive (re_recvmsg env) buf drops w = Some (n, buf', drops', w')"
  shows "view w' = view w"
proof -
  have "re_recvmsg env = re_recvmsg env \<longrightarrow> view (snd (snd (snd (n, buf', drops', w')))) = view w"
    by (rule udp_receive.raw_induct [of "\<lambda>f _ _ w r. f = re_recvmsg env \<longrightarrow> view (snd (snd (snd r))) = view w", OF _ assms])
      (fastforce split: prod.splits MsgResult.splits if_splits dest: recvmsg_view)
  then show ?thesis by simp
qed

lemma recv_multipart_loop_view:
  assumes "recv_multipart_loop (re_recv_command env) frames w = Some (n, frames', w')"
  shows "view w' = view w"
proof -
  have "re_recv_command env = re_recv_command env \<longrightarrow> view (snd (snd (n, frames', w'))) = view w"
    by (rule recv_multipart_loop.raw_induct [of "\<lambda>f _ w r. f = re_recv_command env \<longrightarrow> view (snd (snd r)) = view w", OF _ assms])
      (fastforce split: prod.splits RecvResult.splits if_splits dest: command_view)
  then show ?thesis by simp
qed

lemma drain_udp_loop_view: "drain_udp_loop env n rv w = Some (rv', w') \<Longrightarrow> view w' = view w"
proof (induction n arbitrary: rv w)
  case (Suc n)
  obtain k buf drops w1 where rcv: "udp_receive (re_recvmsg env) (rv_buffer rv) (kernel_drops_raw rv) w = Some (k, buf, drops, w1)"
    using Suc.prems by (auto split: option.splits)
  note w1 = udp_receive_view [OF rcv]
  show ?case
    using Suc.prems Suc.IH w1 rcv
    by (auto simp: Let_def split: if_splits option.splits dest!: handle_datagram_view)
qed simp

lemma drain_udp_view: "drain_udp env rv w = Some (rv', w') \<Longrightarrow> view w' = view w"
  by (auto simp: drain_udp_def split: option.splits dest: drain_udp_loop_view)

lemma drain_commands_loop_view: "drain_commands_loop env n rv w = Some (rv', w') \<Longrightarrow> view w' = view w"
proof (induction n arbitrary: rv w)
  case (Suc n)
  obtain rc fs w1 where rcv: "zmq_recv_multipart_nowait (re_recv_command env) w = Some (rc, fs, w1)"
    using Suc.prems by (auto split: option.splits)
  then have w1: "view w1 = view w" unfolding zmq_recv_multipart_nowait_def by (rule recv_multipart_loop_view)
  show ?case
    using Suc.prems Suc.IH w1 rcv
    by (auto simp: Let_def split: if_splits prod.splits dest!: handle_command_view)
qed simp

lemma drain_commands_view: "drain_commands env rv w = Some (rv', w') \<Longrightarrow> view w' = view w"
  unfolding drain_commands_def by (rule drain_commands_loop_view)

lemma send_frames_view: "zmq_send_frames (re_send_stats env) fs w = (good, w') \<Longrightarrow> view w' = view w"
  by (induction fs arbitrary: w) (auto split: prod.splits bool.splits dest!: send_view)

lemma publish_stats_view: "publish_stats env rv w = (rv', w') \<Longrightarrow> view w' = view w"
  by (auto simp: publish_stats_def Let_def simp del: zmq_send_frames.simps split: if_splits prod.splits bool.splits
      dest!: stats_json_view send_frames_view)

lemma sweep_view: "sweep_reassembly env rv w = (rv', w') \<Longrightarrow> view w' = view w"
  by (auto simp: sweep_reassembly_def Let_def split: prod.splits dest!: call_views)

lemma periodic_view:
  assumes "periodic env rv w = (rv', w')"
  shows "view w' = view w"
proof -
  obtain now w1 where now: "re_monotonic env w = (now, w1)" by (meson surj_pair)
  obtain rv2 w2 where sweep: "(if now \<ge> next_sweep_ns rv then (case sweep_reassembly env rv w1 of (rv, w) \<Rightarrow>
      (rv\<lparr>next_sweep_ns := now + sweep_interval (rv_cfg rv)\<rparr>, w)) else (rv, w1)) = (rv2, w2)" by (meson surj_pair)
  then have w2: "view w2 = view w1" by (auto split: if_splits prod.splits dest!: sweep_view)
  define flushed where "flushed = (if w_is_open (rv_writer rv2) \<and> \<not> w_failed (rv_writer rv2) then
      (case writer_flush (re_capture env) (capture_sync_on_flush (rv_cfg rv2)) (rv_writer rv2) w2 of
         (False, cw, w) \<Rightarrow> (count_write_error (rv2\<lparr>rv_writer := cw\<rparr>), w)
       | (True, cw, w) \<Rightarrow> (rv2\<lparr>rv_writer := cw\<rparr>, w)) else (rv2, w2))"
  obtain rv3 w3 where w3: "flushed = (rv3, w3)" by (meson surj_pair)
  then have "view w3 = view w2"
    by (auto simp: flushed_def split: if_splits prod.splits bool.splits dest!: writer_flush_view)
  moreover have "view w1 = view w" using now by (rule monotonic_view)
  ultimately show ?thesis
    using assms w2 w3 unfolding periodic_def Let_def now prod.case sweep flushed_def [symmetric]
    by (auto split: if_splits prod.splits dest!: publish_stats_view)
qed

lemma receiver_poll_once_polls:
  assumes "receiver_poll_once env ms rv w = Some (go, rv', w')"
  shows "view w' = view (snd (re_poll env (has_command_sub rv) ms w))"
proof -
  obtain p w1 where p: "re_poll env (has_command_sub rv) ms w = (p, w1)" by (meson surj_pair)
  show ?thesis
  proof (cases p)
    case (PollFailed err)
    then show ?thesis using assms p by (simp add: receiver_poll_once_def)
  next
    case (Ready rc revents)
    obtain rv1 w2 where udp: "(if rc > 0 \<and> revents ! 0 then drain_udp env rv w1 else Some (rv, w1)) = Some (rv1, w2)"
      using assms p Ready by (auto simp: receiver_poll_once_def split: option.splits)
    obtain rv2 w3 where cmd: "(if rc > 0 \<and> has_command_sub rv1 \<and> revents ! 1 then drain_commands env rv1 w2 else Some (rv1, w2)) = Some (rv2, w3)"
      using assms p Ready udp unfolding receiver_poll_once_def by (auto split: option.splits)
    have "view w2 = view w1" using udp by (auto split: if_splits dest!: drain_udp_view)
    moreover have "view w3 = view w2" using cmd by (auto split: if_splits dest!: drain_commands_view)
    ultimately show ?thesis
      using assms p Ready udp cmd unfolding receiver_poll_once_def by (auto split: prod.splits dest!: periodic_view)
  qed
qed

end

section \<open>A round returns\<close>

lemma recv_multipart_returns:
  assumes "patient goes_on recv"
  shows "\<exists>r. recv_multipart_loop recv frames w = Some r"
proof -
  obtain rank :: "'a \<Rightarrow> nat" where rank: "recv w = (m, w') \<Longrightarrow> goes_on m \<Longrightarrow> rank w' < rank w" for w m w'
    using assms unfolding patient_def by blast
  show ?thesis
  proof (induction "rank w" arbitrary: frames w rule: less_induct)
    case less
    obtain m w' where m: "recv w = (m, w')" by (meson surj_pair)
    show ?case
      using less.hyps [of w'] rank [OF m] m by (subst recv_multipart_loop.simps) (auto split: RecvResult.split)
  qed
qed

lemma udp_receive_returns:
  assumes "patient interrupted recvmsg"
  shows "\<exists>r. udp_receive recvmsg buf drops w = Some r"
proof -
  obtain rank :: "'a \<Rightarrow> nat" where rank: "recvmsg w = (m, w') \<Longrightarrow> interrupted m \<Longrightarrow> rank w' < rank w" for w m w'
    using assms unfolding patient_def by blast
  show ?thesis
  proof (induction "rank w" arbitrary: w rule: less_induct)
    case less
    obtain m w' where m: "recvmsg w = (m, w')" by (meson surj_pair)
    show ?case
      using less.hyps [of w'] rank [OF m] m by (subst udp_receive.simps) (auto split: MsgResult.split)
  qed
qed

lemma drain_udp_loop_returns:
  assumes "patient interrupted (re_recvmsg env)"
  shows "receiver_inv cfg rv \<Longrightarrow> \<exists>r. drain_udp_loop env n rv w = Some r"
proof (induction n arbitrary: rv w)
  case (Suc n)
  obtain r where "udp_receive (re_recvmsg env) (rv_buffer rv) (kernel_drops_raw rv) w = Some r"
    using udp_receive_returns [OF assms] by blast
  moreover obtain k buf drops w1 where "r = (k, buf, drops, w1)" by (meson prod_cases4)
  ultimately have rcv: "udp_receive (re_recvmsg env) (rv_buffer rv) (kernel_drops_raw rv) w = Some (k, buf, drops, w1)" by simp
  define rv1 where "rv1 = rv\<lparr>rv_buffer := buf, kernel_drops_raw := drops\<rparr>"
  have "length buf = length (rv_buffer rv)" using udp_receive_length [OF rcv] by simp
  then have inv1: "receiver_inv cfg rv1" using Suc.prems by (simp add: rv1_def receiver_inv_def)
  have over: "receiver_inv cfg (note_malformed ''oversize'' 0 False (on_rs (\<lambda>s. s\<lparr>rs_oversize := rs_oversize s + 1\<rparr>) rv1))"
    using inv1 by (intro note_malformed_inv) simp
  obtain rv2 w2 where handled: "handle_datagram env (take (nat k) (rv_buffer rv1)) rv1 w1 = Some (rv2, w2)" "receiver_inv cfg rv2"
    using handle_datagram_returns_inv [OF inv1, of env] by blast
  show ?case
    unfolding drain_udp_loop.simps rcv option.case prod.case Let_def rv1_def [symmetric] handled(1)
    using Suc.IH [OF over, of w1] Suc.IH [OF handled(2), of w2] by (simp del: drain_udp_loop.simps)
qed simp

lemma drain_commands_loop_returns:
  assumes "patient goes_on (re_recv_command env)"
  shows "\<exists>r. drain_commands_loop env n rv w = Some r"
proof (induction n arbitrary: rv w)
  case (Suc n)
  obtain r where "zmq_recv_multipart_nowait (re_recv_command env) w = Some r"
    using recv_multipart_returns [OF assms] unfolding zmq_recv_multipart_nowait_def by blast
  then show ?case
    using Suc.IH by (cases r) (simp add: Let_def case_prod_beta)
qed simp

lemma receiver_poll_once_returns:
  assumes "patient interrupted (re_recvmsg env)" "patient goes_on (re_recv_command env)" "receiver_inv cfg rv"
  shows "\<exists>r. receiver_poll_once env ms rv w = Some r"
proof -
  obtain p w1 where p: "re_poll env (has_command_sub rv) ms w = (p, w1)" by (meson surj_pair)
  show ?thesis
  proof (cases p)
    case (PollFailed err)
    then show ?thesis using p by (simp add: receiver_poll_once_def)
  next
    case (Ready rc revents)
    have udp: "\<exists>r. drain_udp env rv w1 = Some r"
      using drain_udp_loop_returns [OF assms(1,3), of "nat (max_datagrams_per_poll (rv_cfg rv))" w1]
      by (auto simp: drain_udp_def)
    have cmd: "\<exists>r. drain_commands env rv' w' = Some r" for rv' w'
      unfolding drain_commands_def by (rule drain_commands_loop_returns [OF assms(2)])
    obtain rv1 w2 where 1: "(if rc > 0 \<and> revents ! 0 then drain_udp env rv w1 else Some (rv, w1)) = Some (rv1, w2)"
      using udp by (cases "rc > 0 \<and> revents ! 0") auto
    obtain rv2 w3 where 2: "(if rc > 0 \<and> has_command_sub rv1 \<and> revents ! 1 then drain_commands env rv1 w2 else Some (rv1, w2)) = Some (rv2, w3)"
      using cmd [of rv1 w2] by (cases "rc > 0 \<and> has_command_sub rv1 \<and> revents ! 1") auto
    obtain rv3 w4 where 3: "periodic env rv2 w3 = (rv3, w4)" by (meson surj_pair)
    show ?thesis
      unfolding receiver_poll_once_def p Ready prod.case PollResult.case 1 2 3 option.case by blast
  qed
qed

section \<open>The receiver\<close>

definition signalled_capture :: "'w CaptureEnv \<Rightarrow> 'w signalled CaptureEnv" where
  "signalled_capture env =
     \<lparr>ce_fopen = (\<lambda>path. beside (ce_fopen env path)),
      ce_fwrite = (\<lambda>d v. case ce_fwrite env d (fst v) of (n, err, w) \<Rightarrow> (n, err, w, snd v)),
      ce_fflush = beside (ce_fflush env), ce_fsync = beside (ce_fsync env), ce_fclose = beside (ce_fclose env),
      ce_realtime = beside (ce_realtime env), ce_strerror = ce_strerror env\<rparr>"

definition signalled_receiver :: "'w ReceiverEnv \<Rightarrow> 'w signalled ReceiverEnv" where
  "signalled_receiver env =
     \<lparr>re_capture = signalled_capture (re_capture env), re_monotonic = beside (re_monotonic env),
      re_recvmsg = beside (re_recvmsg env), re_recv_command = beside (re_recv_command env),
      re_send_stats = (\<lambda>s sndmore. beside (re_send_stats env s sndmore)),
      re_poll = (\<lambda>sub ms. polling (re_poll env sub ms)),
      re_shutdown_requested = shutdown_requested \<circ> fst \<circ> snd, re_udp_open = beside (re_udp_open env),
      re_zmq_ctx_new = beside (re_zmq_ctx_new env), re_zmq_pub = beside (re_zmq_pub env),
      re_zmq_bind_pub = (\<lambda>ep. beside (re_zmq_bind_pub env ep)), re_zmq_sub = (\<lambda>topic. beside (re_zmq_sub env topic)),
      re_zmq_attach_sub = (\<lambda>b ep. beside (re_zmq_attach_sub env b ep)), re_zmq_strerror = re_zmq_strerror env\<rparr>"

interpretation receiver_calls: round_frame "signalled_receiver env" snd for env :: "'w ReceiverEnv"
  by unfold_locales
    (auto simp: signalled_receiver_def signalled_capture_def beside_snd split: prod.splits)

definition receiver_turn :: "'w ReceiverEnv \<Rightarrow> Receiver \<Rightarrow> 'w \<Rightarrow> (bool \<times> Receiver \<times> 'w) option" where
  "receiver_turn env rv w =
     (case re_monotonic env w of (now, w) \<Rightarrow> receiver_poll_once env (poll_timeout rv now) rv w)"

lemma run_loop_turn:
  "run_loop env rv w =
     (if re_shutdown_requested env w then Some (rv, w)
      else (case receiver_turn env rv w of
              None \<Rightarrow> None
            | Some (good, rv, w) \<Rightarrow> if good then run_loop env rv w else Some (rv, w)))"
  by (subst run_loop.simps) (simp add: receiver_turn_def split: prod.split)

lemma receiver_turn_polls:
  assumes "receiver_turn (signalled_receiver env) rv v = Some (go, rv', v')"
  shows "snd v' = deliver_next (snd v)"
proof -
  obtain now v1 where now: "re_monotonic (signalled_receiver env) v = (now, v1)" by (meson surj_pair)
  then have "receiver_poll_once (signalled_receiver env) (poll_timeout rv now) rv v1 = Some (go, rv', v')"
    using assms by (simp add: receiver_turn_def)
  from receiver_calls.receiver_poll_once_polls [OF this]
  have "snd v' = snd (snd (re_poll (signalled_receiver env) (has_command_sub rv) (poll_timeout rv now) v1))" .
  also have "\<dots> = deliver_next (snd v1)" by (simp add: signalled_receiver_def polling_snd)
  finally show ?thesis using receiver_calls.monotonic_view [OF now] by simp
qed

text \<open>What the outside has to grant: receives end when they are repeated.\<close>

definition patient_receiver :: "'w ReceiverEnv \<Rightarrow> bool" where
  "patient_receiver env \<longleftrightarrow> patient interrupted (re_recvmsg env) \<and> patient goes_on (re_recv_command env)"

lemma receiver_turn_returns:
  assumes "patient_receiver env" "receiver_inv cfg rv"
  shows "\<exists>r. receiver_turn (signalled_receiver env) rv v = Some r"
proof -
  have "patient interrupted (re_recvmsg (signalled_receiver env))" "patient goes_on (re_recv_command (signalled_receiver env))"
    using assms(1) by (simp_all add: patient_receiver_def signalled_receiver_def patient_beside)
  note returns = receiver_poll_once_returns [OF this assms(2)]
  obtain now v1 where now: "re_monotonic (signalled_receiver env) v = (now, v1)" by (meson surj_pair)
  show ?thesis unfolding receiver_turn_def now prod.case by (rule returns)
qed

lemma receiver_turn_inv: "receiver_inv cfg rv \<Longrightarrow> receiver_turn env rv w = Some (go, rv', w') \<Longrightarrow> receiver_inv cfg rv'"
  by (auto simp: receiver_turn_def dest: receiver_poll_once_inv split: prod.splits)

lemma signalled_receiver_requested: "re_shutdown_requested (signalled_receiver env) v \<longleftrightarrow> shutdown_requested (fst (snd v))"
  by (simp add: signalled_receiver_def)

interpretation receiver_stop: stoppable_loop "shutdown_requested \<circ> fst \<circ> snd" "receiver_turn (signalled_receiver env)"
  "run_loop (signalled_receiver env)"
  "\<lambda>rv v. patient_receiver env \<and> receiver_inv cfg rv \<and> awaiting_stop es k (snd v)" "length \<circ> snd \<circ> snd"
  for env :: "'w ReceiverEnv" and cfg es k
proof (unfold_locales, goal_cases)
  case (1 v rv)
  then show ?case by (subst run_loop_turn) (simp add: signalled_receiver_requested)
next
  case (2 v rv go rv' v')
  then show ?case by (subst run_loop_turn) (simp add: signalled_receiver_requested)
next
  case (3 rv v)
  then show ?case using receiver_turn_returns by blast
next
  case (4 rv v go rv' v')
  then show ?case
    using awaiting_stop_next [of es k "snd v"] receiver_turn_polls [OF 4(3)] receiver_turn_inv [OF _ 4(3), of cfg] by simp
qed

lemma run_receiver_stops:
  assumes "patient_receiver env" "receiver_inv cfg rv" "signal_due es k"
  shows "\<exists>code rv' w' sg' es'. run_receiver (signalled_receiver env) rv (w, install_shutdown_handlers sg, es) =
      Some (code, rv', w', sg', es') \<and> length es \<le> length es' + Suc k"
proof -
  let ?env = "signalled_receiver env" and ?v = "(w, install_shutdown_handlers sg, es)"
  have "patient_receiver env \<and> receiver_inv cfg rv \<and> awaiting_stop es k (snd ?v)"
    using assms by (simp add: awaiting_stop_start)
  from receiver_stop.main_loop_returns [OF this]
  obtain rv1 v1 where loop: "run_loop ?env rv ?v = Some (rv1, v1)" "awaiting_stop es k (snd v1)" by blast
  obtain rv2 v2 where sweep: "sweep_reassembly ?env rv1 v1 = (rv2, v2)" by (meson surj_pair)
  obtain code rv3 v3 where close: "(if w_is_open (rv_writer rv2) then
       (case writer_close (re_capture ?env) (rv_writer rv2) v2 of
          (True, cw, w) \<Rightarrow> (0 :: int, rv2\<lparr>rv_writer := cw\<rparr>, w)
        | (False, cw, w) \<Rightarrow> (1, count_write_error (rv2\<lparr>rv_writer := cw\<rparr>), w))
     else (0, rv2, v2)) = (code, rv3, v3)" by (meson prod_cases3)
  then have v3: "snd v3 = snd v2"
    by (auto split: if_splits prod.splits bool.splits dest!: receiver_calls.writer_close_view)
  obtain json v4 where json: "stats_json ?env rv3 v3 = (json, v4)" by (meson surj_pair)
  have "run_receiver ?env rv ?v = Some (code, rv3, v4)"
    unfolding run_receiver_def loop(1) option.case prod.case sweep Let_def close json by (rule refl)
  moreover have "snd v4 = snd v1"
    using receiver_calls.sweep_view [OF sweep] v3 receiver_calls.stats_json_view [OF json] by simp
  ultimately show ?thesis
    using awaiting_stop_polls [OF loop(2)]
    by (intro exI [of _ code] exI [of _ rv3] exI [of _ "fst v4"] exI [of _ "fst (snd v4)"] exI [of _ "snd (snd v4)"])
      (simp add: prod_eq_iff)
qed

section \<open>The relay stops\<close>

text \<open>C22: A SIGINT or SIGTERM that arrives during poll \<open>k\<close> of a program stops it, however the sockets, the clocks and the
  capture file behave, as long as receives end when they are repeated: the bridge's \<open>run\<close>, in whatever state it starts,
  and the receiver's \<open>run\<close> after a successful start return, within that many polls, with an exit code; and the receiver's
  statistics are then accounted for and its capture file is closed.\<close>

theorem programs_stop_on_signal:
  assumes due: "signal_due es k"
    and bridge: "\<And>s. patient goes_on (zq_recv (sy_zmq sys) s)"
    and receiver: "patient_receiver env"
    and started: "0 < reassembly_max_pending cfg" "init env (new_Receiver cfg) w0 = (None, rv, w1)"
  shows "(\<exists>code bp' w' sg' es'. bridge_run (signalled_bridge sys) ntop bp (w, install_shutdown_handlers sg, es) =
      Some (code, bp', w', sg', es') \<and> code \<in> {0, 1} \<and> length es \<le> length es' + Suc k) \<and>
    (\<exists>code rv' w' sg' es'. run_receiver (signalled_receiver env) rv (w1, install_shutdown_handlers sg, es) =
      Some (code, rv', w', sg', es') \<and> length es \<le> length es' + Suc k \<and>
      accounted rv' \<and> \<not> w_is_open (rv_writer rv') \<and> (code = 0 \<or> code = 1 \<and> w_failed (rv_writer rv')))"
proof -
  have inv: "receiver_inv cfg rv" by (rule init_inv [OF receiver_inv_new [OF started(1)] started(2)])
  from run_receiver_stops [OF receiver inv due] obtain code rv' w' sg' es' where run:
      "run_receiver (signalled_receiver env) rv (w1, install_shutdown_handlers sg, es) = Some (code, rv', w', sg', es')"
      "length es \<le> length es' + Suc k" by blast
  with run_receiver_accounts [OF inv run(1)] bridge_run_stops [OF bridge due, of ntop bp w sg] show ?thesis by blast
qed

text \<open>Two quiet polls, then a SIGTERM.\<close>

lemma never_again: "(\<And>w. \<not> again (fst (recv w))) \<Longrightarrow> patient again recv"
  unfolding patient_def by (metis fst_conv)

definition quiet_sys :: "nat BridgeSys" where
  "quiet_sys = sample_sys\<lparr>sy_zmq := sample_zmq True\<rparr>"

theorem programs_stop_on_signal_witness:
  "\<exists>rv w1 code bp' w' sg' es' code2 rv' w2 sg2 es2.
     init (file_env 100 5) (new_Receiver (default_ReceiverConfig\<lparr>record_on_start := False\<rparr>)) [] = (None, rv, w1) \<and>
     bridge_run (signalled_bridge quiet_sys) (\<lambda>_. []) (new_BridgeProcess sample_session_config)
       (3, install_shutdown_handlers no_signals, [None, None, Some SIGTERM, None]) = Some (code, bp', w', sg', es') \<and>
     length es' \<ge> 1 \<and>
     run_receiver (signalled_receiver (file_env 100 5)) rv (w1, install_shutdown_handlers no_signals, [None, None, Some SIGTERM, None]) =
       Some (code2, rv', w2, sg2, es2) \<and> length es2 \<ge> 1 \<and> accounted rv'"
proof -
  let ?es = "[None, None, Some SIGTERM, None]" and ?cfg = "default_ReceiverConfig\<lparr>record_on_start := False\<rparr>"
  have due: "signal_due ?es 2" by (simp add: signal_due_def)
  have bridge: "patient goes_on (zq_recv (sy_zmq quiet_sys) s)" for s
    by (rule never_again) (simp add: quiet_sys_def sample_zmq_def)
  have receiver: "patient_receiver (file_env 100 5)"
    unfolding patient_receiver_def by (intro conjI never_again) (simp_all add: file_env_def)
  have pend: "0 < reassembly_max_pending ?cfg" by (simp add: default_ReceiverConfig_def)
  obtain rv w1 where start: "init (file_env 100 5) (new_Receiver ?cfg) [] = (None, rv, w1)"
    by (simp add: init_def Let_def init_stats_socket_def init_command_socket_def file_env_def disk_env_def new_Receiver_def on_rs_def
        default_ReceiverConfig_def)
  show ?thesis
    using programs_stop_on_signal [OF due bridge receiver pend start, of "\<lambda>_. []" "new_BridgeProcess sample_session_config" 3 no_signals] start
    by fastforce
qed

end
