(* ===== verification/Ctl_Program.thy ===== *)
theory Ctl_Program
  imports Control_Server Command_Line Zmq
begin

text \<open>
  The control tool as a program: tools/ctl/main.cpp. The mode \<open>serve\<close> reads its options and runs the control server;
  \<open>send\<close> publishes one command and \<open>monitor\<close> prints statistics messages. The two small modes are written over ZeroMQ, a
  sleep and the standard streams; what is written before the program ends is part of the world there.
\<close>

section \<open>serve\<close>

definition ctl_usage :: "string \<Rightarrow> string" where
  \<open>ctl_usage prog = lines
     [''Usage:'',
      ''  '' @ prog @ '' [serve] [--http HOST:PORT] [--update-ms MS] [--stale-ms MS]'',
      ''        [--stats-endpoint EP] [--stats-topic T] [--command-endpoint EP] [--connect]'',
      ''        [--command-topic T] [--web-root DIR] [--log-level LEVEL]'',
      ''  '' @ prog @ '' send [--endpoint tcp://127.0.0.1:5557] [--connect] [--topic T] [--settle-ms MS] COMMAND...'',
      ''  '' @ prog @ '' monitor [--endpoint tcp://127.0.0.1:5556] [--topic stats] [--count N]'',
      ''  '' @ prog @ '' --version'',
      [],
      ''serve:    (default) runs until SIGINT/SIGTERM. Serves the control web page on'',
      ''          --http (default 127.0.0.1:8083; use 0.0.0.0:PORT to allow remote browsers)'',
      ''          and pushes the latest receiver statistics to it every --update-ms'',
      ''          (default 1000, 50..60000) over a WebSocket (/ws). Start/stop recording'',
      ''          from the page is sent to the receiver as 'record on'/'record off'.'',
      ''          The receiver counts as offline when no statistics arrived for'',
      ''          --stale-ms (default 3000). Statistics: SUB connects --stats-endpoint'',
      ''          (default tcp://127.0.0.1:5556, topic 'stats'). Commands: PUB binds'',
      ''          --command-endpoint (default tcp://127.0.0.1:5557), or connects with'',
      ''          --connect when the receiver has command_bind = true.'',
      ''          GET /api/stats returns the same JSON snapshot the page receives.'',
      ''send:     publishes COMMAND (e.g. "record on", "record off", "flush", "stats")'',
      ''          on a PUB socket. By default the socket BINDS the endpoint, matching the'',
      ''          receiver's default of connecting to the command endpoint; use --connect'',
      ''          when the receiver is configured with command_bind = true.'',
      ''monitor:  connects a SUB socket to the receiver's statistics endpoint and prints'',
      ''          each JSON statistics message on its own line (Ctrl-C to stop).'']\<close>

definition bad_usage :: "string \<Rightarrow> 'a Parsed" where
  "bad_usage message = Exit 2 [] (lines [''ipc-relay-ctl: '' @ message @ '' (see --help)''])"

definition parse_ms :: "string \<Rightarrow> string \<Rightarrow> int \<Rightarrow> int \<Rightarrow> int Parsed" where
  "parse_ms opt txt lo hi =
     (case parse_i64 txt of
        Inr v \<Rightarrow> if v < lo \<or> v > hi
          then bad_usage (opt @ '' must be an integer in '' @ to_string lo @ ''..'' @ to_string hi) else Go v
      | Inl _ \<Rightarrow> bad_usage (opt @ '' must be an integer in '' @ to_string lo @ ''..'' @ to_string hi))"

text \<open>The last position of a character: \<open>rfind\<close>.\<close>

definition rfind_char :: "char \<Rightarrow> string \<Rightarrow> nat option" where
  "rfind_char c s = map_option (\<lambda>i. length s - 1 - i) (find_char c (rev s))"

text \<open>HOST:PORT, :PORT or PORT.\<close>

definition parse_http :: "string \<Rightarrow> ControlServerConfig \<Rightarrow> ControlServerConfig Parsed" where
  "parse_http txt cfg =
     (let colon = rfind_char (CHR '':'') txt;
          port = (case colon of None \<Rightarrow> txt | Some i \<Rightarrow> drop (i + 1) txt);
          cfg = (case colon of None \<Rightarrow> cfg | Some i \<Rightarrow> if i > 0 then cfg\<lparr>http_host := take i txt\<rparr> else cfg)
      in case parse_u16 port of
           Inl _ \<Rightarrow> bad_usage (quoted_in ''--http expects HOST:PORT, got '' txt [])
         | Inr p \<Rightarrow> Go (cfg\<lparr>http_port := p\<rparr>))"

definition needs_argument :: "string \<Rightarrow> 'a Parsed" where
  "needs_argument a = bad_usage (a @ '' requires an argument'')"

text \<open>The options of \<open>serve\<close>: the configuration and the log level.\<close>

fun serve_args ::
  "string \<Rightarrow> string list \<Rightarrow> ControlServerConfig \<times> LogLevel \<Rightarrow> (ControlServerConfig \<times> LogLevel) Parsed"
where
  "serve_args prog [] (cfg, level) = Go (cfg, level)"
| "serve_args prog (a # as) (cfg, level) =
     (if a = ''--http'' then
        (case as of [] \<Rightarrow> needs_argument a
         | x # as \<Rightarrow> and_then (parse_http x cfg) (\<lambda>cfg. serve_args prog as (cfg, level)))
      else if a = ''--update-ms'' \<or> a = ''-u'' then
        (case as of [] \<Rightarrow> needs_argument a
         | x # as \<Rightarrow> and_then (parse_ms a x 50 60000) (\<lambda>v. serve_args prog as (cfg\<lparr>update_interval_ms := v\<rparr>, level)))
      else if a = ''--stale-ms'' then
        (case as of [] \<Rightarrow> needs_argument a
         | x # as \<Rightarrow> and_then (parse_ms a x 100 3600000) (\<lambda>v. serve_args prog as (cfg\<lparr>stale_after_ms := v\<rparr>, level)))
      else if a = ''--stats-endpoint'' then
        (case as of [] \<Rightarrow> needs_argument a | x # as \<Rightarrow> serve_args prog as (cfg\<lparr>cc_stats_endpoint := x\<rparr>, level))
      else if a = ''--stats-topic'' then
        (case as of [] \<Rightarrow> needs_argument a | x # as \<Rightarrow> serve_args prog as (cfg\<lparr>cc_stats_topic := x\<rparr>, level))
      else if a = ''--command-endpoint'' then
        (case as of [] \<Rightarrow> needs_argument a | x # as \<Rightarrow> serve_args prog as (cfg\<lparr>cc_command_endpoint := x\<rparr>, level))
      else if a = ''--command-topic'' then
        (case as of [] \<Rightarrow> needs_argument a | x # as \<Rightarrow> serve_args prog as (cfg\<lparr>cc_command_topic := x\<rparr>, level))
      else if a = ''--connect'' then serve_args prog as (cfg\<lparr>command_connect := True\<rparr>, level)
      else if a = ''--bind'' then serve_args prog as (cfg\<lparr>command_connect := False\<rparr>, level)
      else if a = ''--web-root'' then
        (case as of [] \<Rightarrow> needs_argument a | x # as \<Rightarrow> serve_args prog as (cfg\<lparr>web_root := x\<rparr>, level))
      else if a = ''--log-level'' then
        (case as of [] \<Rightarrow> needs_argument a
         | x # as \<Rightarrow>
             (case parse_log_level x of
                None \<Rightarrow> bad_usage ''unknown log level''
              | Some l \<Rightarrow> serve_args prog as (cfg, l)))
      else if a = ''-h'' \<or> a = ''--help'' then Exit 0 [] (ctl_usage prog)
      else bad_usage (quoted_in ''unexpected argument '' a []))"

text \<open>The result is an end before the server starts or the exit code of the server.\<close>

definition run_serve ::
  "'w ControlEnv \<Rightarrow> string \<Rightarrow> string list \<Rightarrow> 'w \<Rightarrow> (int Parsed \<times> 'w) option"
where
  "run_serve env prog args w =
     (case serve_args prog args (default_ControlServerConfig, LogInfo) of
        Exit code out err \<Rightarrow> Some (Exit code out err, w)
      | Go (cfg, level) \<Rightarrow>
          (case server_init env (new_ControlServer cfg) w of
             (Some err, sv, w) \<Rightarrow> Some (Go 1, server_destroy env sv w)
           | (None, sv, w) \<Rightarrow>
               (case server_run env sv w of
                  None \<Rightarrow> None
                | Some (code, sv, w) \<Rightarrow> Some (Go code, server_destroy env sv w))))"

section \<open>The options of send and monitor\<close>

record ToolOptions =
  to_endpoint :: string
  to_topic :: string
  to_connect :: bool
  to_settle_ms :: int
  to_count :: int
  to_commands :: "string list"
  to_topic_set :: bool

definition default_ToolOptions :: ToolOptions where
  "default_ToolOptions =
     \<lparr>to_endpoint = [], to_topic = [], to_connect = False, to_settle_ms = 300, to_count = 0, to_commands = [],
      to_topic_set = False\<rparr>"

fun tool_args :: "string \<Rightarrow> string list \<Rightarrow> ToolOptions \<Rightarrow> ToolOptions Parsed" where
  "tool_args prog [] t = Go t"
| "tool_args prog (a # as) t =
     (if a = ''-e'' \<or> a = ''--endpoint'' then
        (case as of [] \<Rightarrow> requires_argument ''--endpoint'' | x # as \<Rightarrow> tool_args prog as (t\<lparr>to_endpoint := x\<rparr>))
      else if a = ''-t'' \<or> a = ''--topic'' then
        (case as of [] \<Rightarrow> requires_argument ''--topic''
         | x # as \<Rightarrow> tool_args prog as (t\<lparr>to_topic := x, to_topic_set := True\<rparr>))
      else if a = ''--connect'' then tool_args prog as (t\<lparr>to_connect := True\<rparr>)
      else if a = ''--bind'' then tool_args prog as (t\<lparr>to_connect := False\<rparr>)
      else if a = ''--settle-ms'' then
        (case as of [] \<Rightarrow> requires_argument ''--settle-ms''
         | x # as \<Rightarrow> tool_args prog as (t\<lparr>to_settle_ms := fst (strtol x)\<rparr>))
      else if a = ''-n'' \<or> a = ''--count'' then
        (case as of [] \<Rightarrow> requires_argument ''--count''
         | x # as \<Rightarrow> tool_args prog as (t\<lparr>to_count := fst (strtol x)\<rparr>))
      else if a = ''-h'' \<or> a = ''--help'' then Exit 0 [] (ctl_usage prog)
      else tool_args prog as (t\<lparr>to_commands := to_commands t @ [a]\<rparr>))"

section \<open>send\<close>

record 'w ToolSys =
  ts_zmq :: "'w ZmqEnv"
  ts_sleep_ms :: "int \<Rightarrow> 'w \<Rightarrow> 'w"
  ts_shutdown_requested :: "'w \<Rightarrow> bool"
  ts_stdout :: "string \<Rightarrow> 'w \<Rightarrow> 'w"
  ts_stderr :: "string \<Rightarrow> 'w \<Rightarrow> 'w"

definition join_commands :: "string list \<Rightarrow> string" where
  "join_commands cs = foldl (\<lambda>joined c. joined @ (if joined = [] then [] else '' '') @ c) [] cs"

definition command_frames :: "ToolOptions \<Rightarrow> string list" where
  "command_frames t = (if to_topic_set t then [to_topic t] else []) @ [join_commands (to_commands t)]"

definition send_frames :: "'w ZmqEnv \<Rightarrow> nat \<Rightarrow> string list \<Rightarrow> 'w \<Rightarrow> bool \<times> 'w" where
  "send_frames env s = zmq_send_frames (\<lambda>f sndmore. zq_send env s (bytes_of f) sndmore)"

definition failed_text :: "'w ToolSys \<Rightarrow> string \<Rightarrow> string \<Rightarrow> 'w \<Rightarrow> string" where
  "failed_text sys verb ep w = lines [quoted_in (verb @ '' '') ep ('' failed: '' @ zmq_error (ts_zmq sys) w)]"

definition ctl_send :: "'w ToolSys \<Rightarrow> nat \<Rightarrow> ToolOptions \<Rightarrow> 'w \<Rightarrow> int \<times> 'w" where
  "ctl_send sys ctx t w =
     (if to_commands t = [] then (2, ts_stderr sys (lines [''send: no command given'']) w)
      else
        let ep = (if to_endpoint t = [] then ''tcp://127.0.0.1:5557'' else to_endpoint t);
            (pub, w) = zq_socket (ts_zmq sys) ctx ZMQ_PUB w;
            (_, w) = zq_setsockopt (ts_zmq sys) pub (ZMQ_LINGER 1000) w;
            (good, w) = (if to_connect t then zq_connect (ts_zmq sys) pub ep w else zq_bind (ts_zmq sys) pub ep w)
        in if \<not> good then (1, ts_stderr sys (failed_text sys (if to_connect t then ''connect'' else ''bind'') ep w) w)
           else
             let w = ts_sleep_ms sys (to_settle_ms t) w;
                 (good, w) = send_frames (ts_zmq sys) pub (command_frames t) w
             in if \<not> good then (1, ts_stderr sys (lines [''send failed: '' @ zmq_error (ts_zmq sys) w]) w)
                else
                  let w = ts_stderr sys (lines [quoted_in ''sent '' (join_commands (to_commands t)) ('' to '' @ ep)]) w;
                      w = ts_sleep_ms sys (to_settle_ms t) w
                  in (0, zq_ctx_term (ts_zmq sys) ctx (zq_close (ts_zmq sys) pub w)))"

section \<open>monitor\<close>

text \<open>The messages that are there now, until the count is reached; the integer is \<open>received\<close>.\<close>

partial_function (option) monitor_drain ::
  "'w ToolSys \<Rightarrow> nat \<Rightarrow> int \<Rightarrow> int \<Rightarrow> 'w \<Rightarrow> (int \<times> 'w) option"
where
  "monitor_drain sys sub cnt received w =
     (case zmq_recv_multipart_nowait (zq_recv (ts_zmq sys) sub) w of
        None \<Rightarrow> None
      | Some (rc, frames, w) \<Rightarrow>
          if rc \<le> 0 then Some (received, w)
          else
            let f = (if length frames \<ge> 2 then frames ! 1 else frames ! 0);
                w = ts_stdout sys (lines [chars_of f]) w
            in if received + 1 \<ge> cnt \<and> cnt > 0 then Some (received + 1, w)
               else monitor_drain sys sub cnt (received + 1) w)"

partial_function (option) monitor_loop ::
  "'w ToolSys \<Rightarrow> nat \<Rightarrow> int \<Rightarrow> int \<Rightarrow> 'w \<Rightarrow> 'w option"
where
  "monitor_loop sys sub cnt received w =
     (if ts_shutdown_requested sys w \<or> \<not> (cnt = 0 \<or> received < cnt) then Some w
      else
        (case zq_poll (ts_zmq sys) [sub] 500 w of
           (PollFailed err, w) \<Rightarrow> if err \<noteq> E_INTR then Some w else monitor_loop sys sub cnt received w
         | (Ready p revents, w) \<Rightarrow>
             if p = 0 then monitor_loop sys sub cnt received w
             else
               (case monitor_drain sys sub cnt received w of
                  None \<Rightarrow> None
                | Some (received, w) \<Rightarrow> monitor_loop sys sub cnt received w)))"

definition ctl_monitor :: "'w ToolSys \<Rightarrow> nat \<Rightarrow> ToolOptions \<Rightarrow> 'w \<Rightarrow> (int \<times> 'w) option" where
  "ctl_monitor sys ctx t w =
     (let ep = (if to_endpoint t = [] then ''tcp://127.0.0.1:5556'' else to_endpoint t);
          topic = (if to_topic_set t then to_topic t else ''stats'');
          (sub, w) = zq_socket (ts_zmq sys) ctx ZMQ_SUB w;
          (_, w) = zq_setsockopt (ts_zmq sys) sub (ZMQ_LINGER 0) w;
          (_, w) = zq_setsockopt (ts_zmq sys) sub (ZMQ_SUBSCRIBE topic) w;
          (good, w) = zq_connect (ts_zmq sys) sub ep w
      in if \<not> good then Some (1, ts_stderr sys (failed_text sys ''connect'' ep w) w)
         else
           (case monitor_loop sys sub (to_count t) 0 w of
              None \<Rightarrow> None
            | Some w \<Rightarrow> Some (0, zq_ctx_term (ts_zmq sys) ctx (zq_close (ts_zmq sys) sub w))))"

section \<open>main\<close>

definition ctl_tool :: "'w ToolSys \<Rightarrow> string \<Rightarrow> string \<Rightarrow> string list \<Rightarrow> 'w \<Rightarrow> (int \<times> 'w) option" where
  "ctl_tool sys mode prog args w =
     (case tool_args prog args default_ToolOptions of
        Exit code out err \<Rightarrow> Some (code, ts_stderr sys err (ts_stdout sys out w))
      | Go t \<Rightarrow>
          (case zq_ctx_new (ts_zmq sys) w of (ctx, w) \<Rightarrow>
             if mode = ''send'' then Some (ctl_send sys ctx t w) else ctl_monitor sys ctx t w))"

definition ctl_main ::
  "string \<Rightarrow> 'w ControlEnv \<Rightarrow> 'w ToolSys \<Rightarrow> string \<Rightarrow> string list \<Rightarrow> 'w \<Rightarrow> (int \<times> 'w) option"
where
  "ctl_main ver env sys prog args w =
     (let mode = (if args \<noteq> [] then hd args else ''serve'') in
      if mode = ''--version'' then Some (0, ts_stdout sys (lines [''ipc-relay-ctl '' @ ver]) w)
      else if mode = ''send'' \<or> mode = ''monitor'' then ctl_tool sys mode prog (tl args) w
      else
        (case run_serve env prog (if mode = ''serve'' then tl args else args) w of
           None \<Rightarrow> None
         | Some (Go code, w) \<Rightarrow> Some (code, w)
         | Some (Exit code out err, w) \<Rightarrow> Some (code, ts_stderr sys err (ts_stdout sys out w))))"

end
