(* ===== verification/Ctl_Properties.thy ===== *)
theory Ctl_Properties
  imports Ctl_Program Receiver_Invariant Bridge
begin

text \<open>
  The small modes of the control tool against the rest of the system: what \<open>send\<close> publishes is a command the receiver
  obeys, and \<open>monitor\<close> prints the messages that wait for it.
\<close>

section \<open>What send publishes\<close>

definition observed_tool :: "'w ToolSys \<Rightarrow> ('w \<times> ZmqEvent list) ToolSys" where
  "observed_tool sys =
     \<lparr>ts_zmq = observed_zmq id (ts_zmq sys),
      ts_sleep_ms = (\<lambda>ms (w, t). (ts_sleep_ms sys ms w, t)),
      ts_shutdown_requested = (\<lambda>(w, t). ts_shutdown_requested sys w),
      ts_stdout = (\<lambda>txt (w, t). (ts_stdout sys txt w, t)),
      ts_stderr = (\<lambda>txt (w, t). (ts_stderr sys txt w, t))\<rparr>"

lemma observed_tool_simps [simp]:
  "ts_zmq (observed_tool sys) = observed_zmq id (ts_zmq sys)"
  "ts_sleep_ms (observed_tool sys) ms (w, t) = (ts_sleep_ms sys ms w, t)"
  "ts_stdout (observed_tool sys) txt (w, t) = (ts_stdout sys txt w, t)"
  "ts_stderr (observed_tool sys) txt (w, t) = (ts_stderr sys txt w, t)"
  by (simp_all add: observed_tool_def)

text \<open>A message that went out on a socket, frame by frame.\<close>

fun published :: "nat \<Rightarrow> string list \<Rightarrow> ZmqEvent list" where
  "published s [] = []"
| "published s (f # fs) = ZSent s (bytes_of f) (fs \<noteq> []) True # published s fs"

lemma zmq_send_frames_observed:
  "zmq_send_frames (\<lambda>f. zq_send (observed_zmq ev env) s (bytes_of f)) fs (w, t) = (True, w', t') \<Longrightarrow>
     t' = t @ map ev (published s fs)"
proof (induction fs arbitrary: w t)
  case (Cons f fs)
  obtain r w1 where r: "zq_send env s (bytes_of f) (fs \<noteq> []) w = (r, w1)" by fastforce
  with Cons.prems have "r" by (cases r) auto
  with Cons.prems r have "zmq_send_frames (\<lambda>f. zq_send (observed_zmq ev env) s (bytes_of f)) fs
      (w1, t @ [ev (ZSent s (bytes_of f) (fs \<noteq> []) True)]) = (True, w', t')" by simp
  from Cons.IH [OF this] show ?case by simp
qed simp

lemma send_frames_observed:
  "send_frames (observed_zmq id env) s fs (w, t) = (True, w', t') \<Longrightarrow> t' = t @ published s fs"
  unfolding send_frames_def by (drule zmq_send_frames_observed) simp

text \<open>The whole life of \<open>send\<close>, when it succeeds.\<close>

definition send_events :: "nat \<Rightarrow> nat \<Rightarrow> bool \<Rightarrow> string \<Rightarrow> ToolOptions \<Rightarrow> ZmqEvent list" where
  "send_events ctx s r ep t =
     [ZSocket s ZMQ_PUB, ZOption s (ZMQ_LINGER 1000) r, if to_connect t then ZConnected s ep True else ZBound s ep True] @
     published s (command_frames t) @ [ZClosed s, ZTerminated ctx]"

definition send_endpoint :: "ToolOptions \<Rightarrow> string" where
  "send_endpoint t = (if to_endpoint t = [] then ''tcp://127.0.0.1:5557'' else to_endpoint t)"

lemma ctl_send_observed:
  assumes "ctl_send (observed_tool sys) ctx t (w, ev) = (0, w', ev')"
  shows "\<exists>s r. ev' = ev @ send_events ctx s r (send_endpoint t) t"
  using assms unfolding ctl_send_def send_events_def send_endpoint_def [symmetric]
  by (auto simp: Let_def split: prod.splits if_splits dest!: send_frames_observed)

section \<open>The receiver obeys\<close>

text \<open>The frames that were sent.\<close>

fun frame_of :: "ZmqEvent \<Rightarrow> byte list option" where
  "frame_of (ZSent _ d _ _) = Some d"
| "frame_of _ = None"

definition sent_frames :: "ZmqEvent list \<Rightarrow> byte list list" where
  "sent_frames ev = List.map_filter frame_of ev"

lemma sent_frames_published: "sent_frames (published s fs) = map bytes_of fs"
  by (induction fs) (simp_all add: sent_frames_def map_filter_def)

lemma sent_frames_send_events: "sent_frames (send_events ctx s r ep t) = map bytes_of (command_frames t)"
  using sent_frames_published [of s "command_frames t"] by (simp add: send_events_def sent_frames_def map_filter_def)

lemma command_frame:
  fixes t :: ToolOptions
  defines "fs \<equiv> map bytes_of (command_frames t)"
  shows "map (\<lambda>b. char_of (unat b)) (if length fs \<ge> 2 then fs ! 1 else fs ! 0) = join_commands (to_commands t)"
  using chars_of_bytes_of [of "join_commands (to_commands t)"] by (simp add: fs_def command_frames_def chars_of_def)

lemma drain_one_command:
  assumes "zmq_recv_multipart_nowait (re_recv_command env) v = Some (1, fs, v1)"
    and "handle_command env (map (\<lambda>b. char_of (unat b)) (if length fs \<ge> 2 then fs ! 1 else fs ! 0)) (rv\<lparr>rv_frames := fs\<rparr>) v1 = (good, rv2, v2)"
    and "zmq_recv_multipart_nowait (re_recv_command env) v2 = Some (0, [], v3)"
  shows "drain_commands env rv v = Some (rv2\<lparr>rv_frames := []\<rparr>, v3)"
proof -
  have "drain_commands_loop env (Suc (Suc n)) rv v = Some (rv2\<lparr>rv_frames := []\<rparr>, v3)" for n
    using assms by simp
  from this [of 62] show ?thesis by (simp add: drain_commands_def)
qed

lemma refresh_recording [simp]: "recording (refresh_capture_stats rv) = recording rv"
  by (simp add: refresh_capture_stats_def on_rs_def)

lemma set_recording_obeys: "set_recording env x rv v = (good, rv', v') \<Longrightarrow> good \<longrightarrow> recording rv' = x"
  by (auto simp: set_recording_def Let_def split: if_splits prod.splits bool.splits)

lemma letter_not_special: "to_lower_char c \<in> set ''recordnf'' \<Longrightarrow> \<not> is_separator c \<and> \<not> is_space c"
  by (auto simp: is_separator_def is_space_def to_lower_char_def less_eq_char_def split: if_splits)

lemma word_of_letters:
  assumes "set (to_lower a) \<subseteq> set ''recordnf''"
  shows "list_all (\<lambda>c. \<not> is_separator c \<and> \<not> is_space c) a"
proof -
  have "\<not> is_separator c \<and> \<not> is_space c" if "c \<in> set a" for c
    using that assms by (intro letter_not_special) (auto simp: to_lower_def)
  then show ?thesis by (simp add: list_all_iff)
qed

lemma record_command_normalised:
  assumes "to_lower a = ''record''" "to_lower b = (if x then ''on'' else ''off'')"
  shows "normalise_command (join_commands [a, b]) = (if x then ''record on'' else ''record off'')"
proof -
  have words: "list_all (\<lambda>c. \<not> is_separator c \<and> \<not> is_space c) (a @ b)"
    using word_of_letters [of a] word_of_letters [of b] assms by (cases x) simp_all
  have ne: "a \<noteq> []" "b \<noteq> []" using assms by (auto simp: to_lower_def split: if_splits)
  have "normalise_command ([] @ a @ '' '' @ b @ []) = to_lower a @ '' '' @ to_lower b"
    by (rule command_spelling_is_normalised) (use words ne in \<open>simp_all add: is_separator_def\<close>)
  then show ?thesis using ne assms by (cases x) (simp_all add: join_commands_def)
qed

lemma handle_record_command:
  assumes "normalise_command c = (if x then ''record on'' else ''record off'')"
  shows "handle_command env c rv v = set_recording env x (on_rs (\<lambda>s. s\<lparr>rs_commands := rs_commands s + 1\<rparr>) rv) v"
  using assms by (cases x) (simp_all add: handle_command_def Let_def)

text \<open>C23: What \<open>ipc-relay-ctl send record on\<close> (or \<open>off\<close>, in any spelling of the letters, with or without a topic) publishes
  is obeyed: when the tool ends successfully, a receiver that gets exactly the frames that were sent counts one
  command and switches the recording on (or off), and after a success the recording is in the state that was asked for.\<close>

theorem sent_record_command_is_obeyed:
  assumes "ctl_main ver cenv (observed_tool sys) prog (''send'' # args) (w, []) = Some (0, w', ev)"
    and "tool_args prog args default_ToolOptions = Go t" "to_commands t = [a, b]"
    and "to_lower a = ''record''" "to_lower b = (if x then ''on'' else ''off'')"
    and "zmq_recv_multipart_nowait (re_recv_command env) v = Some (1, sent_frames ev, v1)"
    and "set_recording env x (on_rs (\<lambda>s. s\<lparr>rs_commands := rs_commands s + 1\<rparr>) (rv\<lparr>rv_frames := sent_frames ev\<rparr>)) v1 = (good, rv2, v2)"
    and "zmq_recv_multipart_nowait (re_recv_command env) v2 = Some (0, [], v3)"
  shows "drain_commands env rv v = Some (rv2\<lparr>rv_frames := []\<rparr>, v3) \<and> (good \<longrightarrow> recording rv2 = x)"
proof -
  obtain ctx w1 ev1 where ctx: "zq_ctx_new (ts_zmq sys) w = (ctx, w1)" and "ev1 = [ZContext ctx]" by fastforce
  with assms(1,2) have "ctl_send (observed_tool sys) ctx t (w1, [ZContext ctx]) = (0, w', ev)"
    by (simp add: ctl_main_def ctl_tool_def)
  from ctl_send_observed [OF this] obtain s r where "ev = [ZContext ctx] @ send_events ctx s r (send_endpoint t) t" by blast
  then have frames: "sent_frames ev = map bytes_of (command_frames t)"
    using sent_frames_send_events [of ctx s r "send_endpoint t" t] by (simp add: sent_frames_def map_filter_def)
  have "handle_command env (join_commands [a, b]) (rv\<lparr>rv_frames := sent_frames ev\<rparr>) v1 = (good, rv2, v2)"
    using handle_record_command [OF record_command_normalised [OF assms(4,5)], of env "rv\<lparr>rv_frames := sent_frames ev\<rparr>" v1] assms(7)
    by simp
  then have "handle_command env (map (\<lambda>b. char_of (unat b)) (if length (sent_frames ev) \<ge> 2 then sent_frames ev ! 1 else sent_frames ev ! 0))
      (rv\<lparr>rv_frames := sent_frames ev\<rparr>) v1 = (good, rv2, v2)"
    using command_frame [of t] by (simp only: frames assms(3))
  from drain_one_command [OF assms(6) this assms(8)] set_recording_obeys [OF assms(7)] show ?thesis by blast
qed

definition sample_tool :: "nat ToolSys" where
  "sample_tool =
     \<lparr>ts_zmq = sample_zmq True, ts_sleep_ms = (\<lambda>_ n. n), ts_shutdown_requested = (\<lambda>_. False),
      ts_stdout = (\<lambda>_ n. n), ts_stderr = (\<lambda>_ n. n)\<rparr>"

text \<open>A receiver whose world is the queue of frames on its command socket.\<close>

definition command_queue :: "(byte list \<times> bool) list ReceiverEnv" where
  "command_queue =
     \<lparr>re_capture = \<lparr>ce_fopen = \<lambda>_ w. (None, w), ce_fwrite = \<lambda>d w. (length d, IE_OTHER 0, w), ce_fflush = \<lambda>w. (None, w),
        ce_fsync = \<lambda>w. (None, w), ce_fclose = \<lambda>w. (None, w), ce_realtime = \<lambda>w. (0, w), ce_strerror = \<lambda>_. []\<rparr>,
      re_monotonic = \<lambda>w. (0, w), re_recvmsg = \<lambda>w. (MsgFailed E_AGAIN, w),
      re_recv_command = \<lambda>w. (case w of [] \<Rightarrow> (RecvFailed E_AGAIN, []) | (f, m) # q \<Rightarrow> (Frame f m, q)),
      re_send_stats = \<lambda>s b w. (True, w), re_poll = \<lambda>c t w. (Ready 0 [False, False], w),
      re_shutdown_requested = \<lambda>w. True, re_udp_open = \<lambda>w. (None, w), re_zmq_ctx_new = \<lambda>w. (None, w),
      re_zmq_pub = \<lambda>w. (None, w), re_zmq_bind_pub = \<lambda>s w. (None, w), re_zmq_sub = \<lambda>s w. (None, w),
      re_zmq_attach_sub = \<lambda>b s w. (None, w), re_zmq_strerror = \<lambda>e. ''error''\<rparr>"

theorem sent_record_command_is_obeyed_witness:
  "\<forall>cenv. \<exists>w' ev rv2. ctl_main ''1'' cenv (observed_tool sample_tool) ''ctl'' [''send'', ''-t'', ''cmd'', ''Record'', ''OFF''] (1, []) =
       Some (0, w', ev) \<and>
     drain_commands command_queue (new_Receiver default_ReceiverConfig)
       [(bytes_of ''cmd'', True), (bytes_of ''Record OFF'', False)] = Some (rv2, []) \<and> \<not> recording rv2"
proof
  fix cenv :: "(nat \<times> ZmqEvent list) ControlEnv"
  let ?args = "[''-t'', ''cmd'', ''Record'', ''OFF'']"
  let ?t = "default_ToolOptions\<lparr>to_topic := ''cmd'', to_topic_set := True, to_commands := [''Record'', ''OFF'']\<rparr>"
  have args: "tool_args ''ctl'' ?args default_ToolOptions = Go ?t"
    by (simp add: default_ToolOptions_def)
  obtain w' ev where run: "ctl_main ''1'' cenv (observed_tool sample_tool) ''ctl'' (''send'' # ?args) (1, []) = Some (0, w', ev)"
    and ev: "sent_frames ev = [bytes_of ''cmd'', bytes_of ''Record OFF'']"
    by (simp add: ctl_main_def ctl_tool_def args ctl_send_def sample_tool_def observed_tool_def sample_zmq_def send_frames_def
        command_frames_def join_commands_def default_ToolOptions_def sent_frames_def map_filter_def)
  let ?rv = "on_rs (\<lambda>s. s\<lparr>rs_commands := rs_commands s + 1\<rparr>) ((new_Receiver default_ReceiverConfig)\<lparr>rv_frames := sent_frames ev\<rparr>)"
  have recv: "zmq_recv_multipart_nowait (re_recv_command command_queue)
      [(bytes_of ''cmd'', True), (bytes_of ''Record OFF'', False)] = Some (1, sent_frames ev, [])"
    "zmq_recv_multipart_nowait (re_recv_command command_queue) [] = Some (0, [], [])"
    by (simp_all add: zmq_recv_multipart_nowait_def recv_multipart_loop.simps command_queue_def ev)
  obtain good rv2 where set: "set_recording command_queue False ?rv [] = (good, rv2, [])" and good
    by (simp add: set_recording_def Let_def on_rs_def new_Receiver_def)
  have word: "to_lower ''Record'' = ''record''" "to_lower ''OFF'' = (if False then ''on'' else ''off'')"
    by (simp_all add: to_lower_def to_lower_char_def less_eq_char_def char_of_def bit_0)
  have two: "to_commands ?t = [''Record'', ''OFF'']" by simp
  show "\<exists>w' ev rv2. ctl_main ''1'' cenv (observed_tool sample_tool) ''ctl'' [''send'', ''-t'', ''cmd'', ''Record'', ''OFF''] (1, []) =
       Some (0, w', ev) \<and>
     drain_commands command_queue (new_Receiver default_ReceiverConfig)
       [(bytes_of ''cmd'', True), (bytes_of ''Record OFF'', False)] = Some (rv2, []) \<and> \<not> recording rv2"
    using sent_record_command_is_obeyed [OF run args two word recv(1) set recv(2)] run \<open>good\<close>
    by (intro exI [of _ w'] exI [of _ ev] exI [of _ "rv2\<lparr>rv_frames := []\<rparr>"]) simp
qed

section \<open>What monitor prints\<close>

text \<open>A reference host: the frames that wait on the statistics socket, and the terminal. Every call succeeds.\<close>

record Terminal =
  waiting :: "(byte list \<times> bool) list"
  screen :: string

definition terminal_zmq :: "Terminal ZmqEnv" where
  "terminal_zmq =
     \<lparr>zq_ctx_new = (\<lambda>w. (1, w)), zq_ctx_set_io_threads = (\<lambda>_ _ w. w), zq_ctx_term = (\<lambda>_ w. w),
      zq_socket = (\<lambda>_ _ w. (1, w)), zq_setsockopt = (\<lambda>_ _ w. (True, w)), zq_connect = (\<lambda>_ _ w. (True, w)),
      zq_bind = (\<lambda>_ _ w. (True, w)), zq_close = (\<lambda>_ w. w),
      zq_recv = (\<lambda>_ w. case waiting w of
          [] \<Rightarrow> (RecvFailed E_AGAIN, w)
        | (f, m) # q \<Rightarrow> (Frame f m, w\<lparr>waiting := q\<rparr>)),
      zq_send = (\<lambda>_ _ _ w. (True, w)),
      zq_poll = (\<lambda>_ _ w. (Ready (if waiting w = [] then 0 else 1) [waiting w \<noteq> []], w)),
      zq_errno = (\<lambda>_. E_AGAIN), zq_strerror = (\<lambda>_. [])\<rparr>"

definition terminal_tool :: "Terminal ToolSys" where
  "terminal_tool =
     \<lparr>ts_zmq = terminal_zmq, ts_sleep_ms = (\<lambda>_ w. w), ts_shutdown_requested = (\<lambda>_. False),
      ts_stdout = (\<lambda>s w. w\<lparr>screen := screen w @ s\<rparr>), ts_stderr = (\<lambda>_ w. w)\<rparr>"

definition shown :: "byte list list \<Rightarrow> string" where
  "shown m = lines [chars_of (if length m \<ge> 2 then m ! 1 else m ! 0)]"

lemma terminal_recv_loop:
  "m \<noteq> [] \<Longrightarrow> waiting w = frames_of m @ q \<Longrightarrow>
     recv_multipart_loop (zq_recv terminal_zmq s) acc w = Some (1, acc @ m, w\<lparr>waiting := q\<rparr>)"
proof (induction m arbitrary: acc w)
  case (Cons f m)
  show ?case
  proof (cases "m = []")
    case True
    with Cons.prems show ?thesis
      by (subst recv_multipart_loop.simps) (simp add: terminal_zmq_def frames_of_def)
  next
    case False
    let ?w = "w\<lparr>waiting := frames_of m @ q\<rparr>"
    have "waiting w = (f, True) # frames_of m @ q" using Cons.prems(2) False by (simp add: frames_of_def)
    then have "recv_multipart_loop (zq_recv terminal_zmq s) acc w = recv_multipart_loop (zq_recv terminal_zmq s) (acc @ [f]) ?w"
      by (subst recv_multipart_loop.simps) (simp add: terminal_zmq_def)
    also have "\<dots> = Some (1, (acc @ [f]) @ m, ?w\<lparr>waiting := q\<rparr>)" by (rule Cons.IH [OF False]) simp
    finally show ?thesis by simp
  qed
qed simp

lemma terminal_recv:
  "m \<noteq> [] \<Longrightarrow> waiting w = frames_of m @ q \<Longrightarrow>
     zmq_recv_multipart_nowait (zq_recv terminal_zmq s) w = Some (1, m, w\<lparr>waiting := q\<rparr>)"
  using terminal_recv_loop [of m w q s "[]"] by (simp add: zmq_recv_multipart_nowait_def)

lemma monitor_drain_terminal:
  assumes "k < n" "n - k \<le> length ms" "\<forall>m\<in>set ms. m \<noteq> []" "waiting w = concat (map frames_of ms)"
  shows "monitor_drain terminal_tool s (int n) (int k) w =
    Some (int n, w\<lparr>waiting := concat (map frames_of (drop (n - k) ms)), screen := screen w @ concat (map shown (take (n - k) ms))\<rparr>)"
  using assms
proof (induction ms arbitrary: k w)
  case (Cons m ms)
  let ?q = "concat (map frames_of ms)"
  let ?w = "w\<lparr>waiting := ?q, screen := screen w @ shown m\<rparr>"
  have step: "monitor_drain terminal_tool s (int n) (int k) w =
      (if int k + 1 \<ge> int n then Some (int k + 1, ?w) else monitor_drain terminal_tool s (int n) (int k + 1) ?w)"
    using terminal_recv [of m w ?q s] Cons.prems
    by (subst monitor_drain.simps) (simp add: terminal_tool_def shown_def)
  obtain j where j: "n - k = Suc j" using Cons.prems(1) by (metis Suc_diff_Suc)
  show ?case
  proof (cases "Suc k < n")
    case True
    then have "n - Suc k = j" using j by simp
    with Cons.IH [of "Suc k" ?w] True step j Cons.prems show ?thesis by (simp add: add.commute)
  next
    case False
    then have "n = Suc k" using Cons.prems(1) by simp
    then show ?thesis using step by simp
  qed
qed simp



end
