(* ===== verification/Telemetry.thy ===== *)
theory Telemetry
  imports Byteorder
begin

text \<open>
  The telemetry of the test publisher: \<open>tools/testpub/telemetry.hpp\<close>, the serialisation and the mode schedule of
  \<open>telemetry.cpp\<close>, and the payload that \<open>tools/testpub/main.cpp\<close> builds around it. A \<open>float\<close> is its 32 bits; the
  code only copies them here. The generators of the readings in double arithmetic are in the theory Readings.
\<close>

section \<open>Structures\<close>

type_synonym f32 = u32

definition kTestMagic :: u32 where [const_defs]: "kTestMagic = 0x54534554"
definition kTestHeaderSize :: nat where [const_defs]: "kTestHeaderSize = 24"

record TestHeader =
  th_magic :: u32
  th_publisher_index :: u32
  th_message_index :: u64
  th_payload_length :: u32
  th_data_type :: u16
  th_data_length :: u16

definition kDataBoardHealth :: u16 where [const_defs]: "kDataBoardHealth = 1"
definition kDataModeStatus :: u16 where [const_defs]: "kDataModeStatus = 2"
definition kDataPtpStats :: u16 where [const_defs]: "kDataPtpStats = 3"
definition kNumDataTypes :: nat where [const_defs]: "kNumDataTypes = 3"

definition kNumPowerRails :: nat where [const_defs]: "kNumPowerRails = 6"
definition kNumTempSensors :: nat where [const_defs]: "kNumTempSensors = 4"
definition kAlarmRailBase :: nat where [const_defs]: "kAlarmRailBase = 0"
definition kAlarmTempBase :: nat where [const_defs]: "kAlarmTempBase = 16"

record PowerRailReading =
  pr_voltage_v :: f32
  pr_current_a :: f32

record BoardHealth =
  bh_sample_time_ns :: u64
  bh_rails :: "PowerRailReading list"
  bh_temperature_c :: "f32 list"
  bh_alarm_flags :: u32
  bh_sample_count :: u32

definition kModeBoot :: byte where [const_defs]: "kModeBoot = 0"
definition kModeStandby :: byte where [const_defs]: "kModeStandby = 1"
definition kModeOperational :: byte where [const_defs]: "kModeOperational = 2"
definition kModeMaintenance :: byte where [const_defs]: "kModeMaintenance = 3"
definition kModeFault :: byte where [const_defs]: "kModeFault = 4"

definition kStatusPowerGood :: u32 where [const_defs]: "kStatusPowerGood = 1"
definition kStatusClockLocked :: u32 where [const_defs]: "kStatusClockLocked = 2"
definition kStatusLinkUp :: u32 where [const_defs]: "kStatusLinkUp = 4"
definition kStatusBitPassed :: u32 where [const_defs]: "kStatusBitPassed = 8"
definition kStatusFanOk :: u32 where [const_defs]: "kStatusFanOk = 16"
definition kStatusOverTempWarning :: u32 where [const_defs]: "kStatusOverTempWarning = 32"

record ModeStatus =
  ms_sample_time_ns :: u64
  ms_uptime_s :: u32
  ms_mode :: byte
  ms_previous_mode :: byte
  ms_mode_change_count :: u16
  ms_status_flags :: u32
  ms_fault_code :: u32
  ms_time_in_mode_s :: u32
  ms_heartbeat :: u32

record PtpStats =
  ps_sample_time_ns :: u64
  ps_grandmaster_identity :: "byte list"
  ps_offset_from_master_ns :: u64
  ps_mean_path_delay_ns :: u64
  ps_freq_adjustment_ppb :: u32
  ps_steps_removed :: u16
  ps_current_utc_offset_s :: u16
  ps_port_state :: byte
  ps_servo_state :: byte
  ps_gm_clock_class :: byte
  ps_flags :: byte
  ps_sync_rx_count :: u32
  ps_announce_timeout_count :: u32
  ps_reserved :: u32

text \<open>The signed fields are kept as words and read with \<open>sint\<close>. The sizes of the arrays:\<close>

definition board_shaped :: "BoardHealth \<Rightarrow> bool" where
  "board_shaped d \<longleftrightarrow> length (bh_rails d) = kNumPowerRails \<and> length (bh_temperature_c d) = kNumTempSensors"

definition ptp_shaped :: "PtpStats \<Rightarrow> bool" where
  "ptp_shaped d \<longleftrightarrow> length (ps_grandmaster_identity d) = 8"

definition kBoardHealthSize :: nat where [const_defs]: "kBoardHealthSize = 80"
definition kModeStatusSize :: nat where [const_defs]: "kModeStatusSize = 32"
definition kPtpStatsSize :: nat where [const_defs]: "kPtpStatsSize = 56"

definition data_type_for_endpoint :: "nat \<Rightarrow> u16" where
  "data_type_for_endpoint endpoint_index = of_nat (1 + endpoint_index mod kNumDataTypes)"

definition data_size :: "u16 \<Rightarrow> nat" where
  "data_size type =
     (if type = kDataBoardHealth then kBoardHealthSize else if type = kDataModeStatus then kModeStatusSize
      else if type = kDataPtpStats then kPtpStatsSize else 0)"

section \<open>Serialisation\<close>

definition put_f32le :: "f32 \<Rightarrow> byte list" where
  "put_f32le v = put_u32le v"

definition put_i64le :: "u64 \<Rightarrow> byte list" where
  "put_i64le v = put_u64le v"

definition get_f32le :: "byte list \<Rightarrow> nat \<Rightarrow> f32" where
  "get_f32le p off = get_u32le p off"

text \<open>The loops carry the output and the position of the pointer \<open>p\<close> in it.\<close>

definition put_rail :: "byte list \<times> nat \<Rightarrow> PowerRailReading \<Rightarrow> byte list \<times> nat" where
  "put_rail = (\<lambda>(out, p) r. (store (store out p (put_f32le (pr_voltage_v r))) (p + 4) (put_f32le (pr_current_a r)), p + 8))"

definition put_temperature :: "byte list \<times> nat \<Rightarrow> f32 \<Rightarrow> byte list \<times> nat" where
  "put_temperature = (\<lambda>(out, p) c. (store out p (put_f32le c), p + 4))"

definition encode_BoardHealth :: "BoardHealth \<Rightarrow> byte list \<Rightarrow> byte list" where
  "encode_BoardHealth d out =
     (let out = store out 0 (put_u64le (bh_sample_time_ns d));
          (out, p) = foldl put_rail (out, 8) (bh_rails d);
          (out, p) = foldl put_temperature (out, p) (bh_temperature_c d);
          out = store out p (put_u32le (bh_alarm_flags d));
          out = store out (p + 4) (put_u32le (bh_sample_count d))
      in out)"

definition encode_ModeStatus :: "ModeStatus \<Rightarrow> byte list \<Rightarrow> byte list" where
  "encode_ModeStatus d out =
     (let out = store out 0 (put_u64le (ms_sample_time_ns d));
          out = store out 8 (put_u32le (ms_uptime_s d));
          out = store out 12 (put_u8 (ms_mode d));
          out = store out 13 (put_u8 (ms_previous_mode d));
          out = store out 14 (put_u16le (ms_mode_change_count d));
          out = store out 16 (put_u32le (ms_status_flags d));
          out = store out 20 (put_u32le (ms_fault_code d));
          out = store out 24 (put_u32le (ms_time_in_mode_s d));
          out = store out 28 (put_u32le (ms_heartbeat d))
      in out)"

definition encode_PtpStats :: "PtpStats \<Rightarrow> byte list \<Rightarrow> byte list" where
  "encode_PtpStats d out =
     (let out = store out 0 (put_u64le (ps_sample_time_ns d));
          out = store out 8 (ps_grandmaster_identity d);
          out = store out 16 (put_i64le (ps_offset_from_master_ns d));
          out = store out 24 (put_i64le (ps_mean_path_delay_ns d));
          out = store out 32 (put_u32le (ps_freq_adjustment_ppb d));
          out = store out 36 (put_u16le (ps_steps_removed d));
          out = store out 38 (put_u16le (ps_current_utc_offset_s d));
          out = store out 40 (put_u8 (ps_port_state d));
          out = store out 41 (put_u8 (ps_servo_state d));
          out = store out 42 (put_u8 (ps_gm_clock_class d));
          out = store out 43 (put_u8 (ps_flags d));
          out = store out 44 (put_u32le (ps_sync_rx_count d));
          out = store out 48 (put_u32le (ps_announce_timeout_count d));
          out = store out 52 (put_u32le (ps_reserved d))
      in out)"

definition decode_TestHeader :: "byte list \<Rightarrow> TestHeader" where
  "decode_TestHeader data =
     \<lparr>th_magic = get_u32le data 0, th_publisher_index = get_u32le data 4, th_message_index = get_u64le data 8,
      th_payload_length = get_u32le data 16, th_data_type = get_u16le data 20, th_data_length = get_u16le data 22\<rparr>"

definition get_rail :: "byte list \<Rightarrow> nat \<Rightarrow> PowerRailReading" where
  "get_rail data p = \<lparr>pr_voltage_v = get_f32le data p, pr_current_a = get_f32le data (p + 4)\<rparr>"

definition decode_BoardHealth :: "byte list \<Rightarrow> BoardHealth" where
  "decode_BoardHealth data =
     (let p = 8; rails = map (\<lambda>r. get_rail data (p + 8 * r)) [0..<kNumPowerRails];
          p = p + 8 * kNumPowerRails; temps = map (\<lambda>s. get_f32le data (p + 4 * s)) [0..<kNumTempSensors];
          p = p + 4 * kNumTempSensors
      in \<lparr>bh_sample_time_ns = get_u64le data 0, bh_rails = rails, bh_temperature_c = temps,
          bh_alarm_flags = get_u32le data p, bh_sample_count = get_u32le data (p + 4)\<rparr>)"

definition decode_ModeStatus :: "byte list \<Rightarrow> ModeStatus" where
  "decode_ModeStatus data =
     \<lparr>ms_sample_time_ns = get_u64le data 0, ms_uptime_s = get_u32le data 8, ms_mode = get_u8 data 12,
      ms_previous_mode = get_u8 data 13, ms_mode_change_count = get_u16le data 14, ms_status_flags = get_u32le data 16,
      ms_fault_code = get_u32le data 20, ms_time_in_mode_s = get_u32le data 24, ms_heartbeat = get_u32le data 28\<rparr>"

definition decode_PtpStats :: "byte list \<Rightarrow> PtpStats" where
  "decode_PtpStats data =
     \<lparr>ps_sample_time_ns = get_u64le data 0, ps_grandmaster_identity = take 8 (drop 8 data),
      ps_offset_from_master_ns = get_u64le data 16, ps_mean_path_delay_ns = get_u64le data 24,
      ps_freq_adjustment_ppb = get_u32le data 32, ps_steps_removed = get_u16le data 36,
      ps_current_utc_offset_s = get_u16le data 38, ps_port_state = get_u8 data 40, ps_servo_state = get_u8 data 41,
      ps_gm_clock_class = get_u8 data 42, ps_flags = get_u8 data 43, ps_sync_rx_count = get_u32le data 44,
      ps_announce_timeout_count = get_u32le data 48, ps_reserved = get_u32le data 52\<rparr>"

section \<open>Round trips\<close>

text \<open>The encoders write exactly these bytes and leave what lies behind them.\<close>

definition rail_bytes :: "PowerRailReading \<Rightarrow> byte list" where
  "rail_bytes r = put_u32le (pr_voltage_v r) @ put_u32le (pr_current_a r)"

definition board_bytes :: "BoardHealth \<Rightarrow> byte list" where
  "board_bytes d = put_u64le (bh_sample_time_ns d) @ concat (map rail_bytes (bh_rails d)) @
     concat (map put_u32le (bh_temperature_c d)) @ put_u32le (bh_alarm_flags d) @ put_u32le (bh_sample_count d)"

definition mode_bytes :: "ModeStatus \<Rightarrow> byte list" where
  "mode_bytes d = put_u64le (ms_sample_time_ns d) @ put_u32le (ms_uptime_s d) @ put_u8 (ms_mode d) @
     put_u8 (ms_previous_mode d) @ put_u16le (ms_mode_change_count d) @ put_u32le (ms_status_flags d) @
     put_u32le (ms_fault_code d) @ put_u32le (ms_time_in_mode_s d) @ put_u32le (ms_heartbeat d)"

definition ptp_bytes :: "PtpStats \<Rightarrow> byte list" where
  "ptp_bytes d = put_u64le (ps_sample_time_ns d) @ ps_grandmaster_identity d @ put_u64le (ps_offset_from_master_ns d) @
     put_u64le (ps_mean_path_delay_ns d) @ put_u32le (ps_freq_adjustment_ppb d) @ put_u16le (ps_steps_removed d) @
     put_u16le (ps_current_utc_offset_s d) @ put_u8 (ps_port_state d) @ put_u8 (ps_servo_state d) @
     put_u8 (ps_gm_clock_class d) @ put_u8 (ps_flags d) @ put_u32le (ps_sync_rx_count d) @
     put_u32le (ps_announce_timeout_count d) @ put_u32le (ps_reserved d)"

lemma length_rail_bytes [simp]: "length (rail_bytes r) = 8"
  by (simp add: rail_bytes_def)

lemma length_concat_const: "(\<And>x. x \<in> set xs \<Longrightarrow> length (f x) = n) \<Longrightarrow> length (concat (map f xs)) = n * length xs"
  by (induction xs) simp_all

lemma lengths_bytes:
  "board_shaped d \<Longrightarrow> length (board_bytes d) = kBoardHealthSize" "length (mode_bytes m) = kModeStatusSize"
  "ptp_shaped p \<Longrightarrow> length (ptp_bytes p) = kPtpStatsSize"
  by (simp_all add: board_bytes_def mode_bytes_def ptp_bytes_def board_shaped_def ptp_shaped_def const_defs
      length_concat_const [of _ rail_bytes 8] length_concat_const [of _ put_u32le 4])

lemma put_rails:
  "length before = p \<Longrightarrow> foldl put_rail (before @ rest, p) rails =
     (before @ concat (map rail_bytes rails) @ drop (8 * length rails) rest, p + 8 * length rails)"
proof (induction rails arbitrary: "before" rest p)
  case (Cons r rails)
  have "put_rail (before @ rest, p) r = ((before @ rail_bytes r) @ drop 8 rest, p + 8)"
    using Cons.prems by (simp add: put_rail_def put_f32le_def rail_bytes_def store_fields)
  with Cons.IH [of "before @ rail_bytes r" "p + 8" "drop 8 rest"] Cons.prems show ?case by (simp add: add.commute)
qed simp

lemma put_temperatures:
  "length before = p \<Longrightarrow> foldl put_temperature (before @ rest, p) cs =
     (before @ concat (map put_u32le cs) @ drop (4 * length cs) rest, p + 4 * length cs)"
proof (induction cs arbitrary: "before" rest p)
  case (Cons c cs)
  have "put_temperature (before @ rest, p) c = ((before @ put_u32le c) @ drop 4 rest, p + 4)"
    using Cons.prems by (simp add: put_temperature_def put_f32le_def store_fields)
  with Cons.IH [of "before @ put_u32le c" "p + 4" "drop 4 rest"] Cons.prems show ?case by (simp add: add.commute)
qed simp

lemma encode_bytes:
  "board_shaped d \<Longrightarrow> kBoardHealthSize \<le> length out \<Longrightarrow> encode_BoardHealth d out = board_bytes d @ drop kBoardHealthSize out"
  "kModeStatusSize \<le> length out \<Longrightarrow> encode_ModeStatus m out = mode_bytes m @ drop kModeStatusSize out"
  "ptp_shaped q \<Longrightarrow> kPtpStatsSize \<le> length out \<Longrightarrow> encode_PtpStats q out = ptp_bytes q @ drop kPtpStatsSize out"
proof -
  assume d: "board_shaped d" "kBoardHealthSize \<le> length out"
  have "store out 0 (put_u64le (bh_sample_time_ns d)) = put_u64le (bh_sample_time_ns d) @ drop 8 out"
    by (simp add: store_fields)
  with d show "encode_BoardHealth d out = board_bytes d @ drop kBoardHealthSize out"
    by (simp add: encode_BoardHealth_def Let_def put_rails put_temperatures [of "_ @ _", simplified append_assoc] board_shaped_def
        board_bytes_def store_fields const_defs length_concat_const [of _ rail_bytes 8] length_concat_const [of _ put_u32le 4])
next
  assume "kModeStatusSize \<le> length out"
  then show "encode_ModeStatus m out = mode_bytes m @ drop kModeStatusSize out"
    by (simp add: encode_ModeStatus_def mode_bytes_def store_fields const_defs)
next
  assume "ptp_shaped q" "kPtpStatsSize \<le> length out"
  then show "encode_PtpStats q out = ptp_bytes q @ drop kPtpStatsSize out"
    by (simp add: encode_PtpStats_def ptp_bytes_def put_i64le_def ptp_shaped_def store_fields const_defs)
qed

text \<open>A byte list holding consecutive fields of one width is read back element by element.\<close>

lemma get_u32_array:
  "i < length cs \<Longrightarrow> length pre = p \<Longrightarrow> get_u32le (pre @ concat (map put_u32le cs) @ r) (p + 4 * i) = cs ! i"
proof (induction cs arbitrary: i pre p)
  case (Cons c cs)
  show ?case
  proof (cases i)
    case 0
    with Cons.prems show ?thesis by (simp add: u32.dec_at)
  next
    case (Suc j)
    with Cons.IH [of j "pre @ put_u32le c" "p + 4"] Cons.prems show ?thesis by (simp add: add.assoc)
  qed
qed simp

lemma get_rail_array:
  "i < length rs \<Longrightarrow> length pre = p \<Longrightarrow> get_rail (pre @ concat (map rail_bytes rs) @ r) (p + 8 * i) = rs ! i"
proof (induction rs arbitrary: i pre p)
  case (Cons c rs)
  show ?case
  proof (cases i)
    case 0
    have "get_u32le (pre @ put_u32le (pr_voltage_v c) @ put_u32le (pr_current_a c) @ concat (map rail_bytes rs) @ r) (p + 4) =
        pr_current_a c"
      using u32.dec_at [of "pre @ put_u32le (pr_voltage_v c)" "p + 4" "pr_current_a c"] Cons.prems by simp
    moreover have "rail_bytes c = put_u32le (pr_voltage_v c) @ put_u32le (pr_current_a c)" by (simp add: rail_bytes_def)
    ultimately show ?thesis using Cons.prems 0 by (simp add: get_rail_def get_f32le_def u32.dec_at)
  next
    case (Suc j)
    with Cons.IH [of j "pre @ rail_bytes c" "p + 8"] Cons.prems show ?thesis by (simp add: add.assoc)
  qed
qed simp

lemma decode_board_bytes:
  assumes "board_shaped d"
  shows "decode_BoardHealth (board_bytes d @ r) = d"
proof -
  define pre where "pre = put_u64le (bh_sample_time_ns d)"
  define rails where "rails = concat (map rail_bytes (bh_rails d))"
  define temps where "temps = concat (map put_u32le (bh_temperature_c d))"
  let ?tail = "put_u32le (bh_alarm_flags d) @ put_u32le (bh_sample_count d) @ r"
  have data: "board_bytes d @ r = pre @ rails @ temps @ ?tail"
    by (simp add: board_bytes_def pre_def rails_def temps_def)
  have n: "length (bh_rails d) = 6" "length (bh_temperature_c d) = 4" "length pre = 8" "length rails = 48" "length temps = 16"
    using assms by (simp_all add: board_shaped_def pre_def rails_def temps_def const_defs
      length_concat_const [of _ rail_bytes 8] length_concat_const [of _ put_u32le 4])
  have "map (\<lambda>i. get_rail (board_bytes d @ r) (8 + 8 * i)) [0..<6] = bh_rails d"
    unfolding data rails_def by (rule nth_equalityI) (simp_all add: n get_rail_array)
  moreover have "map (\<lambda>s. get_f32le (board_bytes d @ r) (56 + 4 * s)) [0..<4] = bh_temperature_c d"
    using get_u32_array [of _ "bh_temperature_c d" "pre @ rails" 56 ?tail] n
    unfolding data by (intro nth_equalityI) (simp_all add: get_f32le_def flip: temps_def)
  moreover have "get_u64le (board_bytes d @ r) 0 = bh_sample_time_ns d"
    unfolding data pre_def by (simp add: u64.dec_front)
  moreover have "get_u32le (board_bytes d @ r) 72 = bh_alarm_flags d"
    using u32.dec_at [of "pre @ rails @ temps" 72 "bh_alarm_flags d"] n unfolding data by simp
  moreover have "get_u32le (board_bytes d @ r) 76 = bh_sample_count d"
    using u32.dec_at [of "pre @ rails @ temps @ put_u32le (bh_alarm_flags d)" 76 "bh_sample_count d"] n unfolding data by simp
  ultimately show ?thesis by (simp add: decode_BoardHealth_def const_defs)
qed

lemma decode_mode_bytes: "decode_ModeStatus (mode_bytes m @ r) = m"
  by (simp add: decode_ModeStatus_def mode_bytes_def wire_simps)

lemma decode_ptp_bytes: "ptp_shaped q \<Longrightarrow> decode_PtpStats (ptp_bytes q @ r) = q"
  by (simp add: decode_PtpStats_def ptp_bytes_def ptp_shaped_def wire_simps)

section \<open>The mode schedule\<close>

definition kNsPerSec :: u64 where [const_defs]: "kNsPerSec = 1000000000"

definition scheduled_mode :: "u64 \<Rightarrow> byte" where
  "scheduled_mode i =
     (if i < 10 then kModeBoot
      else if i < 50 then kModeStandby
      else let c = (i - 50) mod 5000 in
        if c < 4000 then kModeOperational
        else if c < 4200 then kModeMaintenance
        else if c < 4250 then kModeFault
        else kModeStandby)"

record Simulator =
  sim_type :: u16
  start_mono_ns :: u64
  sim_mode :: byte
  sim_previous_mode :: byte
  mode_changes :: u16
  mode_since_mono_ns :: u64

definition new_Simulator :: "u16 \<Rightarrow> u64 \<Rightarrow> Simulator" where
  "new_Simulator type now_mono =
     \<lparr>sim_type = type, start_mono_ns = now_mono, sim_mode = kModeBoot, sim_previous_mode = kModeBoot, mode_changes = 0,
      mode_since_mono_ns = now_mono\<rparr>"

definition enter_mode :: "byte \<Rightarrow> u64 \<Rightarrow> Simulator \<Rightarrow> Simulator" where
  "enter_mode mode mono_ns sim =
     (if mode \<noteq> sim_mode sim then
        sim\<lparr>sim_previous_mode := sim_mode sim, sim_mode := mode, mode_changes := mode_changes sim + 1, mode_since_mono_ns := mono_ns\<rparr>
      else sim)"

definition status_of :: "byte \<Rightarrow> u64 \<Rightarrow> u32 \<times> u32" where
  "status_of mode i =
     (let status = kStatusFanOk;
          status = (if mode \<noteq> kModeFault then status OR kStatusPowerGood else status);
          status = (if mode \<noteq> kModeBoot then status OR (kStatusLinkUp OR kStatusBitPassed) else status);
          status = (if 50 \<le> i then status OR kStatusClockLocked else status)
      in if mode = kModeFault then (status OR kStatusOverTempWarning, 0x0301) else (status, 0))"

definition next_mode_status :: "u64 \<Rightarrow> u64 \<Rightarrow> u64 \<Rightarrow> Simulator \<Rightarrow> ModeStatus \<times> Simulator" where
  "next_mode_status i now_ns mono_ns sim =
     (let sim = enter_mode (scheduled_mode i) mono_ns sim;
          (status, fault) = status_of (sim_mode sim) i
      in (\<lparr>ms_sample_time_ns = now_ns, ms_uptime_s = ucast ((mono_ns - start_mono_ns sim) div kNsPerSec), ms_mode = sim_mode sim,
           ms_previous_mode = sim_previous_mode sim, ms_mode_change_count = mode_changes sim, ms_status_flags = status,
           ms_fault_code = fault, ms_time_in_mode_s = ucast ((mono_ns - mode_since_mono_ns sim) div kNsPerSec),
           ms_heartbeat = ucast i\<rparr>, sim))"

section \<open>The payload\<close>

text \<open>\<open>encode\<close> writes the data of the message from the place of \<open>h + kTestHeaderSize\<close> on.\<close>

definition filler :: "nat \<Rightarrow> u64 \<Rightarrow> byte list \<Rightarrow> nat \<Rightarrow> byte list" where
  "filler prefix sent payload i = payload[prefix + i := ucast (sent + of_nat i)]"

definition build_payload ::
  "byte list \<Rightarrow> bool \<Rightarrow> nat \<Rightarrow> u64 \<Rightarrow> u16 \<Rightarrow> nat \<Rightarrow> (byte list \<Rightarrow> byte list) \<Rightarrow> nat \<Rightarrow> byte list \<Rightarrow> byte list"
where
  "build_payload topic multipart p sent type data_len encode size_wanted payload =
     (let body = max size_wanted (kTestHeaderSize + data_len);
          prefix = (if multipart then 0 else length topic);
          payload = resize (prefix + body) payload;
          payload = (if prefix \<noteq> 0 then store payload 0 topic else payload);
          payload = store payload (prefix + 0) (put_u32le kTestMagic);
          payload = store payload (prefix + 4) (put_u32le (of_nat p));
          payload = store payload (prefix + 8) (put_u64le sent);
          payload = store payload (prefix + 16) (put_u32le (of_nat (length payload)));
          payload = store payload (prefix + 20) (put_u16le type);
          payload = store payload (prefix + 22) (put_u16le (of_nat data_len));
          payload = take (prefix + kTestHeaderSize) payload @ encode (drop (prefix + kTestHeaderSize) payload)
      in foldl (filler prefix sent) payload [kTestHeaderSize + data_len..<body])"

lemma fill_bytes:
  "length before = prefix + a \<Longrightarrow> length rest = k \<Longrightarrow>
     foldl (filler prefix sent) (before @ rest) [a..<a + k] = before @ map (\<lambda>i. ucast (sent + of_nat i)) [a..<a + k]"
proof (induction k arbitrary: a before rest)
  case (Suc k)
  then obtain x rest' where rest: "rest = x # rest'" by (cases rest) auto
  let ?b = "ucast (sent + of_nat a) :: byte"
  have "filler prefix sent (before @ rest) a = (before @ [?b]) @ rest'"
    using Suc.prems by (simp add: filler_def rest list_update_append)
  moreover have "[a..<a + Suc k] = a # [Suc a..<Suc a + k]" by (simp add: upt_rec)
  ultimately show ?case using Suc.IH [of "before @ [?b]" "Suc a" rest'] Suc.prems rest by simp
qed simp

definition test_header_bytes :: "nat \<Rightarrow> u64 \<Rightarrow> nat \<Rightarrow> u16 \<Rightarrow> nat \<Rightarrow> byte list" where
  "test_header_bytes p sent payload_len type data_len =
     put_u32le kTestMagic @ put_u32le (of_nat p) @ put_u64le sent @ put_u32le (of_nat payload_len) @ put_u16le type @
     put_u16le (of_nat data_len)"

lemma build_payload_bytes:
  fixes topic :: "byte list" and multipart :: bool and size_wanted data_len :: nat
  assumes "\<And>buf. data_len \<le> length buf \<Longrightarrow> encode buf = data @ drop data_len buf" "length data = data_len"
  defines "prefix \<equiv> (if multipart then [] else topic)" and "body \<equiv> max size_wanted (kTestHeaderSize + data_len)"
  shows "build_payload topic multipart p sent type data_len encode size_wanted payload =
    prefix @ test_header_bytes p sent (length prefix + body) type data_len @ data @
      map (\<lambda>i. ucast (sent + of_nat i)) [kTestHeaderSize + data_len..<body]"
proof -
  define n where "n = (if multipart then 0 else length topic)"
  have n: "n = length prefix" by (simp add: n_def prefix_def)
  define v0 where "v0 = resize (n + body) payload"
  have "(if n \<noteq> 0 then store v0 0 topic else v0) = prefix @ drop n v0"
    by (auto simp: n_def prefix_def store_fields)
  moreover obtain v1 where v1: "drop n v0 = v1" "length v1 = body" by (simp add: v0_def)
  moreover have body: "kTestHeaderSize + data_len \<le> body" by (simp add: body_def)
  ultimately have head: "build_payload topic multipart p sent type data_len encode size_wanted payload =
    foldl (filler n sent) (prefix @ test_header_bytes p sent (n + body) type data_len @ encode (drop kTestHeaderSize v1))
      [kTestHeaderSize + data_len..<body]"
    unfolding build_payload_def Let_def n_def [symmetric] body_def [symmetric] v0_def [symmetric]
    by (simp add: n store_fields test_header_bytes_def kTestHeaderSize_def)
  let ?before = "prefix @ test_header_bytes p sent (n + body) type data_len @ data"
  have "encode (drop kTestHeaderSize v1) = data @ drop (data_len + kTestHeaderSize) v1"
    using assms(1) [of "drop kTestHeaderSize v1"] v1(2) body by simp
  moreover have "length ?before = n + (kTestHeaderSize + data_len)"
    using assms(2) by (simp add: n test_header_bytes_def kTestHeaderSize_def)
  moreover have "length (drop (data_len + kTestHeaderSize) v1) = body - (kTestHeaderSize + data_len)" using v1(2) by simp
  moreover have "kTestHeaderSize + data_len + (body - (kTestHeaderSize + data_len)) = body" using body by simp
  ultimately show ?thesis
    unfolding head n
    using fill_bytes [of ?before n "kTestHeaderSize + data_len" "drop (data_len + kTestHeaderSize) v1"
        "body - (kTestHeaderSize + data_len)" sent] by (simp add: n)
qed

lemma decode_test_header_bytes:
  "decode_TestHeader (test_header_bytes p sent len type n @ r) =
     \<lparr>th_magic = kTestMagic, th_publisher_index = of_nat p, th_message_index = sent, th_payload_length = of_nat len,
      th_data_type = type, th_data_length = of_nat n\<rparr>"
  by (simp add: decode_TestHeader_def test_header_bytes_def wire_simps)

end
