(* ===== verification/Csv_Export.thy ===== *)
theory Csv_Export
  imports Capture Config Telemetry Searching
begin

text \<open>
  The conversion of a capture file into CSV files: \<open>tools/capture_to_csv/csv_export.cpp\<close>. The file system is the parameter
  \<open>env\<close>, functions on a world state \<open>'w\<close>; so is \<open>std::to_chars\<close> of a \<open>float\<close>, which is given by its bits. A
  file that is open is known by its stem.
\<close>

section \<open>Names\<close>

definition kRailNames :: "string list" where
  "kRailNames = [''12v0_in'', ''5v0'', ''3v3'', ''1v8'', ''1v0_core'', ''1v2_ddr'']"

definition kTempNames :: "string list" where
  "kTempNames = [''cpu'', ''fpga'', ''pmic'', ''board'']"

definition kModeNames :: "string list" where
  "kModeNames = [''boot'', ''standby'', ''operational'', ''maintenance'', ''fault'']"

definition kStatusFlagNames :: "string list" where
  "kStatusFlagNames = [''power_good'', ''clock_locked'', ''link_up'', ''bit_passed'', ''fan_ok'', ''over_temp_warning'']"

definition kPortStateNames :: "string list" where
  "kPortStateNames = ['''', ''initializing'', ''faulty'', ''disabled'', ''listening'', ''pre_master'', ''master'', ''passive'',
     ''uncalibrated'', ''slave'']"

definition kServoStateNames :: "string list" where
  "kServoStateNames = [''unlocked'', ''jump'', ''locked'']"

definition kPtpFlagNames :: "string list" where
  "kPtpFlagNames = [''gm_present'', ''utc_offset_valid'', ''time_traceable'', ''freq_traceable'']"

definition kRecordColumns :: string where
  "kRecordColumns = ''source_id,sequence,timestamp_ns,flags''"

definition enum_name :: "string list \<Rightarrow> nat \<Rightarrow> string" where
  "enum_name names value =
     (if value < length names \<and> names ! value \<noteq> [] then names ! value else ''unknown_'' @ dec_digits value)"

text \<open>The body of the loop for the \<open>i\<close>-th name; \<open>value & (1u << (base + i))\<close> is the bit \<open>base + i\<close>.\<close>

definition append_flag :: "string list \<Rightarrow> u32 \<Rightarrow> nat \<Rightarrow> string \<Rightarrow> string \<Rightarrow> nat \<Rightarrow> string" where
  "append_flag names value base prefix out i =
     (if value AND push_bit (base + i) 1 \<noteq> 0 then (if out \<noteq> [] then out @ ''|'' else out) @ prefix @ names ! i else out)"

definition append_flag_names :: "string \<Rightarrow> string list \<Rightarrow> u32 \<Rightarrow> nat \<Rightarrow> string \<Rightarrow> string" where
  "append_flag_names out names value base prefix = foldl (append_flag names value base prefix) out [0..<length names]"

definition flag_names :: "string list \<Rightarrow> u32 \<Rightarrow> string" where
  "flag_names names value = append_flag_names [] names value 0 []"

definition kHexDigits :: string where
  "kHexDigits = ''0123456789abcdef''"

definition hex :: "byte list \<Rightarrow> string" where
  "hex p = concat (map (\<lambda>b. [kHexDigits ! unat (drop_bit 4 b), kHexDigits ! unat (b AND 0x0F)]) p)"

text \<open>\<open>"0x%04X"\<close> of \<open>snprintf\<close>.\<close>

fun upper_hex :: "nat \<Rightarrow> string" where
  "upper_hex n = (if n < 16 then [''0123456789ABCDEF'' ! n] else upper_hex (n div 16) @ [''0123456789ABCDEF'' ! (n mod 16)])"

declare upper_hex.simps [simp del]

definition print_fault :: "u32 \<Rightarrow> string" where
  "print_fault code =
     (let digits = upper_hex (unat code) in take 15 (''0x'' @ replicate (4 - length digits) (CHR ''0'') @ digits))"

section \<open>Rows\<close>

record Row =
  row_line :: string
  row_first :: bool

definition new_Row :: Row where
  "new_Row = \<lparr>row_line = [], row_first = True\<rparr>"

definition field :: "string \<Rightarrow> Row \<Rightarrow> Row" where
  "field s row =
     (let row = (if \<not> row_first row then row\<lparr>row_line := row_line row @ '',''\<rparr> else row);
          row = row\<lparr>row_first := False\<rparr>
      in row\<lparr>row_line := row_line row @ s\<rparr>)"

definition put_unsigned :: "'a::len word \<Rightarrow> Row \<Rightarrow> Row" where
  "put_unsigned v = field (dec_digits (unat v))"

definition put_signed :: "'a::len word \<Rightarrow> Row \<Rightarrow> Row" where
  "put_signed v = field (to_string (sint v))"

definition rail_columns :: "string \<Rightarrow> string" where
  "rail_columns r = '',rail_'' @ r @ ''_voltage_v,rail_'' @ r @ ''_current_a''"

definition board_health_columns :: string where
  "board_health_columns =
     ''sample_time_ns'' @ concat (map rail_columns kRailNames) @ concat (map (\<lambda>t. '',temp_'' @ t @ ''_c'') kTempNames) @
     '',alarm_flags,alarms,sample_count''"

definition add_rail :: "(f32 \<Rightarrow> string) \<Rightarrow> Row \<Rightarrow> PowerRailReading \<Rightarrow> Row" where
  "add_rail to_chars row r = field (to_chars (pr_current_a r)) (field (to_chars (pr_voltage_v r)) row)"

definition add_BoardHealth :: "(f32 \<Rightarrow> string) \<Rightarrow> BoardHealth \<Rightarrow> Row \<Rightarrow> Row" where
  "add_BoardHealth to_chars d row =
     (let row = put_unsigned (bh_sample_time_ns d) row;
          row = foldl (add_rail to_chars) row (bh_rails d);
          row = foldl (\<lambda>row c. field (to_chars c) row) row (bh_temperature_c d);
          alarms = append_flag_names [] kRailNames (bh_alarm_flags d) kAlarmRailBase ''rail_'';
          alarms = append_flag_names alarms kTempNames (bh_alarm_flags d) kAlarmTempBase ''temp_''
      in put_unsigned (bh_sample_count d) (field alarms (put_unsigned (bh_alarm_flags d) row)))"

definition kModeStatusColumns :: string where
  "kModeStatusColumns =
     ''sample_time_ns,uptime_s,mode,previous_mode,mode_change_count,status_flags,status,fault_code,time_in_mode_s,heartbeat''"

definition add_ModeStatus :: "ModeStatus \<Rightarrow> Row \<Rightarrow> Row" where
  "add_ModeStatus d row =
     (let row = put_unsigned (ms_sample_time_ns d) row;
          row = put_unsigned (ms_uptime_s d) row;
          row = field (enum_name kModeNames (unat (ms_mode d))) row;
          row = field (enum_name kModeNames (unat (ms_previous_mode d))) row;
          row = put_unsigned (ms_mode_change_count d) row;
          row = put_unsigned (ms_status_flags d) row;
          row = field (flag_names kStatusFlagNames (ms_status_flags d)) row;
          row = field (print_fault (ms_fault_code d)) row;
          row = put_unsigned (ms_time_in_mode_s d) row
      in put_unsigned (ms_heartbeat d) row)"

definition kPtpStatsColumns :: string where
  "kPtpStatsColumns =
     ''sample_time_ns,grandmaster_identity,offset_from_master_ns,mean_path_delay_ns,freq_adjustment_ppb,'' @
     ''steps_removed,current_utc_offset_s,port_state,servo_state,gm_clock_class,ptp_flags,ptp_flag_names,'' @
     ''sync_rx_count,announce_timeout_count''"

definition add_PtpStats :: "PtpStats \<Rightarrow> Row \<Rightarrow> Row" where
  "add_PtpStats d row =
     (let gm = ps_grandmaster_identity d;
          gm_id = hex (take 3 gm) @ ''.'' @ hex (take 2 (drop 3 gm)) @ ''.'' @ hex (take 3 (drop 5 gm));
          row = put_unsigned (ps_sample_time_ns d) row;
          row = field gm_id row;
          row = put_signed (ps_offset_from_master_ns d) row;
          row = put_signed (ps_mean_path_delay_ns d) row;
          row = put_signed (ps_freq_adjustment_ppb d) row;
          row = put_unsigned (ps_steps_removed d) row;
          row = put_signed (ps_current_utc_offset_s d) row;
          row = field (enum_name kPortStateNames (unat (ps_port_state d))) row;
          row = field (enum_name kServoStateNames (unat (ps_servo_state d))) row;
          row = put_unsigned (ps_gm_clock_class d) row;
          row = put_unsigned (ps_flags d) row;
          row = field (flag_names kPtpFlagNames (ucast (ps_flags d))) row;
          row = put_unsigned (ps_sync_rx_count d) row
      in put_unsigned (ps_announce_timeout_count d) row)"

section \<open>Decoding\<close>

text \<open>The row with the decoded fields, the stem of its file and the columns, if the payload is telemetry.\<close>

definition decode_testpub :: "(f32 \<Rightarrow> string) \<Rightarrow> byte list \<Rightarrow> Row \<Rightarrow> (Row \<times> string \<times> string) option" where
  "decode_testpub to_chars payload row =
     (case find_text [0x54, 0x45, 0x53, 0x54] payload of
        None \<Rightarrow> None
      | Some idx \<Rightarrow>
          if length payload < idx + kTestHeaderSize then None
          else
            let h = decode_TestHeader (drop idx payload);
                len = data_size (th_data_type h);
                start = idx + kTestHeaderSize
            in if len = 0 \<or> unat (th_payload_length h) \<noteq> length payload \<or> unat (th_data_length h) \<noteq> len \<or>
                 length payload < start + len then None
               else
                 let row = put_unsigned (th_message_index h) (put_unsigned (th_publisher_index h) row);
                     data = drop start payload;
                     columns = kRecordColumns @ '',publisher_index,message_index,''
                 in Some (if th_data_type h = kDataBoardHealth
                     then (add_BoardHealth to_chars (decode_BoardHealth data) row, ''board_health'', columns @ board_health_columns)
                     else if th_data_type h = kDataModeStatus
                     then (add_ModeStatus (decode_ModeStatus data) row, ''mode_status'', columns @ kModeStatusColumns)
                     else (add_PtpStats (decode_PtpStats data) row, ''ptp_stats'', columns @ kPtpStatsColumns)))"

definition csv_row :: "(f32 \<Rightarrow> string) \<Rightarrow> RecordHeader \<Rightarrow> byte list \<Rightarrow> Row \<times> string \<times> string" where
  "csv_row to_chars hdr payload =
     (let row = put_unsigned (rh_flags hdr) (put_unsigned (rh_timestamp_ns hdr) (put_unsigned (rh_sequence hdr)
            (put_unsigned (rh_source_id hdr) new_Row)))
      in case decode_testpub to_chars payload row of
           Some r \<Rightarrow> r
         | None \<Rightarrow> (field (hex payload) (field (dec_digits (length payload)) row), ''unknown'',
             kRecordColumns @ '',payload_length,payload_hex''))"

section \<open>Files\<close>

record 'w CsvEnv =
  cv_create_directories :: "string \<Rightarrow> 'w \<Rightarrow> string option \<times> 'w"
  cv_open :: "string \<Rightarrow> 'w \<Rightarrow> string option \<times> 'w"
  cv_write :: "string \<Rightarrow> string \<Rightarrow> 'w \<Rightarrow> bool \<times> 'w"
  cv_close :: "string \<Rightarrow> 'w \<Rightarrow> bool \<times> 'w"
  cv_to_chars :: "f32 \<Rightarrow> string"

record CsvFiles =
  cf_out_dir :: string
  cf_rows :: "(string, u64) smap"
  cf_error :: string

definition new_CsvFiles :: "string \<Rightarrow> CsvFiles" where
  "new_CsvFiles out_dir = \<lparr>cf_out_dir = out_dir, cf_rows = [], cf_error = []\<rparr>"

text \<open>\<open>operator/\<close> of a directory and a file name.\<close>

definition path_join :: "string \<Rightarrow> string \<Rightarrow> string" where
  "path_join d f = (if d = [] \<or> last d = CHR ''/'' then d @ f else d @ ''/'' @ f)"

definition csv_path :: "CsvFiles \<Rightarrow> string \<Rightarrow> string" where
  "csv_path cf stem = path_join (cf_out_dir cf) (stem @ ''.csv'')"

definition csv_fail :: "string \<Rightarrow> CsvFiles \<Rightarrow> CsvFiles" where
  "csv_fail msg cf = (if cf_error cf = [] then cf\<lparr>cf_error := msg\<rparr> else cf)"

text \<open>The keys of \<open>rows_\<close> are those of \<open>files_\<close>: the files that are open.\<close>

definition open_csv :: "'w CsvEnv \<Rightarrow> string \<Rightarrow> string \<Rightarrow> CsvFiles \<Rightarrow> 'w \<Rightarrow> bool \<times> CsvFiles \<times> 'w" where
  "open_csv env stem columns cf w =
     (case cv_create_directories env (cf_out_dir cf) w of
        (Some err, w) \<Rightarrow> (False, csv_fail (quoted_in ''create '' (cf_out_dir cf) ('': '' @ err)) cf, w)
      | (None, w) \<Rightarrow>
          (case cv_open env (csv_path cf stem) w of
             (Some err, w) \<Rightarrow> (False, csv_fail (quoted_in ''open '' (csv_path cf stem) ('': '' @ err)) cf, w)
           | (None, w) \<Rightarrow>
               (case cv_write env (csv_path cf stem) (columns @ [CHR 0x0A]) w of
                  (_, w) \<Rightarrow> (True, cf\<lparr>cf_rows := smap_put stem 0 (cf_rows cf)\<rparr>, w))))"

definition csv_write :: "'w CsvEnv \<Rightarrow> string \<Rightarrow> string \<Rightarrow> Row \<Rightarrow> CsvFiles \<Rightarrow> 'w \<Rightarrow> bool \<times> CsvFiles \<times> 'w" where
  "csv_write env stem columns row cf w =
     (case (if smap_get (cf_rows cf) stem = None then open_csv env stem columns cf w else (True, cf, w)) of
        (False, cf, w) \<Rightarrow> (False, cf, w)
      | (True, cf, w) \<Rightarrow>
          (case cv_write env (csv_path cf stem) (row_line row @ [CHR 0x0A]) w of
             (False, w) \<Rightarrow> (False, csv_fail (quoted_in ''write '' (stem @ ''.csv'') '' failed'') cf, w)
           | (True, w) \<Rightarrow>
               (True, cf\<lparr>cf_rows := smap_put stem (the (smap_get (cf_rows cf) stem) + 1) (cf_rows cf)\<rparr>, w)))"

text \<open>The files are closed in the order of the map.\<close>

fun csv_close :: "'w CsvEnv \<Rightarrow> string list \<Rightarrow> CsvFiles \<Rightarrow> 'w \<Rightarrow> bool \<times> CsvFiles \<times> 'w" where
  "csv_close env [] cf w = (True, cf, w)"
| "csv_close env (stem # stems) cf w =
     (case cv_close env (csv_path cf stem) w of
        (False, w) \<Rightarrow> (False, csv_fail (quoted_in ''close '' (stem @ ''.csv'') '' failed'') cf, w)
      | (True, w) \<Rightarrow> csv_close env stems cf w)"

function export_loop ::
  "'w CsvEnv \<Rightarrow> RecordHeader \<Rightarrow> byte list \<Rightarrow> CaptureReader \<Rightarrow> CsvFiles \<Rightarrow> 'w \<Rightarrow> CaptureReader \<times> CsvFiles \<times> 'w"
where
  "export_loop env hdr payload r cf w =
     (case reader_next hdr payload r of
        (False, hdr, payload, r) \<Rightarrow> (r, cf, w)
      | (True, hdr, payload, r) \<Rightarrow>
          (case csv_row (cv_to_chars env) hdr payload of (row, stem, columns) \<Rightarrow>
             (case csv_write env stem columns row cf w of
                (False, cf, w) \<Rightarrow> (r, cf, w)
              | (True, cf, w) \<Rightarrow> export_loop env hdr payload r cf w)))"
  by pat_completeness auto
termination
  by (relation "measure (\<lambda>(env, hdr, payload, r, cf, w). length (rd_rest r))") (auto dest!: reader_next_shorter [OF sym])

declare export_loop.simps [simp del]

text \<open>The result is the rows written per file and the error; \<open>content\<close> is what opening the capture gives.\<close>

definition export_capture ::
  "'w CsvEnv \<Rightarrow> string \<Rightarrow> string + byte list \<Rightarrow> string \<Rightarrow> 'w \<Rightarrow> ((string, u64) smap \<times> string) \<times> 'w"
where
  "export_capture env capture_path content out_dir w =
     (case reader_open capture_path content new_CaptureReader of
        (False, r) \<Rightarrow> (([], rd_error r), w)
      | (True, r) \<Rightarrow>
          (case export_loop env default_RecordHeader [] r (new_CsvFiles out_dir) w of (r, cf, w) \<Rightarrow>
             (case csv_close env (map fst (cf_rows cf)) cf w of
                (_, cf, w) \<Rightarrow> ((cf_rows cf, if cf_error cf \<noteq> [] then cf_error cf else rd_error r), w))))"

end
