(* ===== verification/Csv_Program.thy ===== *)
theory Csv_Program
  imports Csv_Export Command_Line
begin

text \<open>
  ipc-relay-capture-to-csv as a program: tools/capture_to_csv/main.cpp. The command line, the directory the files go to by
  default, the summary and the exit status, around the export of the theory Csv_Export. \<open>read_file\<close> is what opening a file for
  reading gives.
\<close>

definition csv_usage :: "string \<Rightarrow> string" where
  \<open>csv_usage prog = lines
     [''Usage: '' @ prog @ '' [options] CAPTURE'',
      [],
      ''Decodes a capture file into one CSV per message type.'',
      [],
      ''Options:'',
      ''  -o, --output-dir DIR   Directory for the CSV files       [<CAPTURE without extension>_csv]'',
      ''  -h, --help             Show this help'']\<close>

text \<open>The loop over the arguments: the capture file and the output directory.\<close>

fun csv_args :: "string \<Rightarrow> string list \<Rightarrow> string \<times> string \<Rightarrow> (string \<times> string) Parsed" where
  "csv_args prog [] p = Go p"
| "csv_args prog (a # as) (capture, out_dir) =
     (if a = ''-h'' \<or> a = ''--help'' then Exit 0 [] (csv_usage prog)
      else if a = ''-o'' \<or> a = ''--output-dir'' then
        (case as of
           [] \<Rightarrow> Exit 2 [] (lines [prog @ '': '' @ a @ '' needs a value''])
         | x # as \<Rightarrow> csv_args prog as (capture, x))
      else if a \<noteq> [] \<and> hd a = CHR ''-'' then
        Exit 2 [] (lines [prog @ '': unknown option '' @ a] @ csv_usage prog)
      else if capture = [] then csv_args prog as (a, out_dir)
      else Exit 2 [] (lines [prog @ '': only one capture file may be given'']))"

definition csv_start :: "string \<Rightarrow> string list \<Rightarrow> (string \<times> string) Parsed" where
  "csv_start prog args =
     and_then (csv_args prog args ([], [])) (\<lambda>(capture, out_dir).
       if capture = [] then Exit 2 [] (csv_usage prog) else Go (capture, out_dir))"

text \<open>\<open>std::filesystem::path::replace_extension()\<close>: the text from the last dot of the file name on is cut, unless that dot is
  its first character or the name is \<open>..\<close>.\<close>

definition without_extension :: "string \<Rightarrow> string" where
  "without_extension path =
     (let name = rev (takeWhile (\<lambda>c. c \<noteq> CHR ''/'') (rev path));
          stem = rev (tl (dropWhile (\<lambda>c. c \<noteq> CHR ''.'') (rev name)))
      in if name = ''..'' \<or> CHR ''.'' \<notin> set name \<or> stem = [] then path
         else take (length path - length name) path @ stem)"

definition csv_directory :: "string \<Rightarrow> string \<Rightarrow> string" where
  "csv_directory capture out_dir = (if out_dir = [] then without_extension capture @ ''_csv'' else out_dir)"

definition pad_right :: "nat \<Rightarrow> string \<Rightarrow> string" where
  "pad_right n s = s @ replicate (n - length s) (CHR '' '')"

definition csv_summary :: "string \<Rightarrow> (string, u64) smap \<Rightarrow> string" where
  "csv_summary out rows =
     lines (map (\<lambda>(stem, n). pad_right 40 (path_join out (stem @ ''.csv'')) @ '' '' @ to_string (uint n) @ '' row(s)'') rows)"

text \<open>The result is the exit status and what goes to stdout and to stderr.\<close>

definition csv_main ::
  "'w CsvEnv \<Rightarrow> (string \<Rightarrow> string + byte list) \<Rightarrow> string \<Rightarrow> string list \<Rightarrow> 'w \<Rightarrow> (int \<times> string \<times> string) \<times> 'w"
where
  "csv_main env read_file prog args w =
     (case csv_start prog args of
        Exit code out err \<Rightarrow> ((code, out, err), w)
      | Go (capture, out_dir) \<Rightarrow>
          let out = csv_directory capture out_dir in
          (case export_capture env capture (read_file capture) out w of ((rows, err), w) \<Rightarrow>
             if err \<noteq> [] then ((1, csv_summary out rows, lines [''ERROR: '' @ capture @ '': '' @ err]), w)
             else if rows = [] then ((0, lines [''no records in '' @ capture], []), w)
             else ((0, csv_summary out rows, []), w)))"

text \<open>The default directory, on the shapes of path that differ.\<close>

lemma csv_directory_examples:
  "csv_directory ''/data/run.v1/relay.capture'' [] = ''/data/run.v1/relay_csv''"
  "csv_directory ''/data/run.v1/relay'' [] = ''/data/run.v1/relay_csv''"
  "csv_directory ''/data/.hidden'' [] = ''/data/.hidden_csv''"
  "csv_directory ''relay.capture'' ''out'' = ''out''"
  by code_simp+

lemma csv_args_capture:
  "csv_args prog args (capture, out_dir) = Go (capture', out_dir') \<Longrightarrow> capture \<noteq> [] \<Longrightarrow> capture' = capture"
  by (induction prog args "(capture, out_dir)" arbitrary: capture out_dir rule: csv_args.induct)
    (auto split: if_splits list.splits)

text \<open>The exit status: 2 for a wrong command line, otherwise 1 exactly when the export ends with an error, and the summary is
  printed in both cases.\<close>

lemma csv_main_status:
  assumes "csv_start prog args = Go (capture, out_dir)" "out = csv_directory capture out_dir"
    and "export_capture env capture (read_file capture) out w = ((rows, err), w')"
  shows "\<exists>code stdout stderr. csv_main env read_file prog args w = ((code, stdout, stderr), w') \<and>
    (code = 0 \<longleftrightarrow> err = []) \<and> (code = 1 \<longleftrightarrow> err \<noteq> []) \<and> (rows \<noteq> [] \<longrightarrow> stdout = csv_summary out rows) \<and>
    stderr = (if err = [] then [] else lines [''ERROR: '' @ capture @ '': '' @ err])"
  using assms by (auto simp: csv_main_def Let_def)

end
