(* ===== verification/Csv_Properties.thy ===== *)
theory Csv_Properties
  imports Csv_Export
begin

text \<open>
  The CSV files are well formed and complete: every row has a field for every column, telemetry that the test publisher
  builds comes out with the values it put in, and every record of the capture becomes one row, in order, in the file of its type.
\<close>

section \<open>Rows\<close>

text \<open>Texts that need no quoting in a CSV file, and rows of \<open>n\<close> such fields.\<close>

definition plain_field :: "string \<Rightarrow> bool" where
  "plain_field s \<longleftrightarrow> set s \<inter> {CHR '','', CHR 0x22, CHR 0x0A, CHR 0x0D} = {}"

definition row_of :: "string list \<Rightarrow> Row" where
  "row_of fs = foldl (\<lambda>row s. field s row) new_Row fs"

fun joined :: "string list \<Rightarrow> string" where
  "joined [] = []"
| "joined [f] = f"
| "joined (f # fs) = f @ '','' @ joined fs"

lemma row_of_snoc: "field s (row_of fs) = row_of (fs @ [s])"
  by (simp add: row_of_def)

lemma joined_snoc: "joined (fs @ [s]) = (if fs = [] then s else joined fs @ '','' @ s)"
  by (induction fs rule: joined.induct) auto

lemma row_of_joined: "row_of fs = \<lparr>row_line = joined fs, row_first = (fs = [])\<rparr>"
proof (induction fs rule: rev_induct)
  case Nil
  then show ?case by (simp add: row_of_def new_Row_def)
next
  case (snoc s fs)
  then show ?case by (simp add: row_of_snoc [symmetric] field_def Let_def joined_snoc)
qed

lemma count_joined: "list_all plain_field fs \<Longrightarrow> fs \<noteq> [] \<Longrightarrow> Suc (count_list (joined fs) (CHR '','')) = length fs"
proof (induction fs rule: joined.induct)
  case (2 f)
  then show ?case by (simp add: plain_field_def count_list_0_iff)
next
  case (3 f g fs)
  then have "count_list f (CHR '','') = 0" by (simp add: plain_field_def count_list_0_iff)
  with 3 show ?case by simp
qed simp

lemma set_joined: "set (joined fs) \<subseteq> insert (CHR '','') (\<Union> (set ` set fs))"
  by (induction fs rule: joined.induct) auto

text \<open>The fields of the four kinds of rows.\<close>

definition record_fields :: "RecordHeader \<Rightarrow> string list" where
  "record_fields hdr = [dec_digits (unat (rh_source_id hdr)), dec_digits (unat (rh_sequence hdr)),
     dec_digits (unat (rh_timestamp_ns hdr)), dec_digits (unat (rh_flags hdr))]"

definition alarm_names :: "u32 \<Rightarrow> string" where
  "alarm_names flags = append_flag_names (append_flag_names [] kRailNames flags kAlarmRailBase ''rail_'') kTempNames flags
     kAlarmTempBase ''temp_''"

definition board_fields :: "(f32 \<Rightarrow> string) \<Rightarrow> BoardHealth \<Rightarrow> string list" where
  "board_fields to_chars d = [dec_digits (unat (bh_sample_time_ns d))] @
     concat (map (\<lambda>r. [to_chars (pr_voltage_v r), to_chars (pr_current_a r)]) (bh_rails d)) @
     map to_chars (bh_temperature_c d) @
     [dec_digits (unat (bh_alarm_flags d)), alarm_names (bh_alarm_flags d), dec_digits (unat (bh_sample_count d))]"

definition mode_fields :: "ModeStatus \<Rightarrow> string list" where
  "mode_fields d = [dec_digits (unat (ms_sample_time_ns d)), dec_digits (unat (ms_uptime_s d)),
     enum_name kModeNames (unat (ms_mode d)), enum_name kModeNames (unat (ms_previous_mode d)),
     dec_digits (unat (ms_mode_change_count d)), dec_digits (unat (ms_status_flags d)),
     flag_names kStatusFlagNames (ms_status_flags d), print_fault (ms_fault_code d), dec_digits (unat (ms_time_in_mode_s d)),
     dec_digits (unat (ms_heartbeat d))]"

definition clock_identity :: "byte list \<Rightarrow> string" where
  "clock_identity gm = hex (take 3 gm) @ ''.'' @ hex (take 2 (drop 3 gm)) @ ''.'' @ hex (take 3 (drop 5 gm))"

definition ptp_fields :: "PtpStats \<Rightarrow> string list" where
  "ptp_fields d = [dec_digits (unat (ps_sample_time_ns d)), clock_identity (ps_grandmaster_identity d),
     to_string (sint (ps_offset_from_master_ns d)), to_string (sint (ps_mean_path_delay_ns d)),
     to_string (sint (ps_freq_adjustment_ppb d)), dec_digits (unat (ps_steps_removed d)),
     to_string (sint (ps_current_utc_offset_s d)), enum_name kPortStateNames (unat (ps_port_state d)),
     enum_name kServoStateNames (unat (ps_servo_state d)), dec_digits (unat (ps_gm_clock_class d)),
     dec_digits (unat (ps_flags d)), flag_names kPtpFlagNames (ucast (ps_flags d)), dec_digits (unat (ps_sync_rx_count d)),
     dec_digits (unat (ps_announce_timeout_count d))]"

lemma put_row_of: "put_unsigned v (row_of fs) = row_of (fs @ [dec_digits (unat v)])" "put_signed v (row_of fs) = row_of (fs @ [to_string (sint v)])"
  by (simp_all add: put_unsigned_def put_signed_def row_of_snoc)

lemma add_rails_row_of: "foldl (add_rail to_chars) (row_of fs) rs =
    row_of (fs @ concat (map (\<lambda>r. [to_chars (pr_voltage_v r), to_chars (pr_current_a r)]) rs))"
  by (induction rs arbitrary: fs) (simp_all add: add_rail_def row_of_snoc)

lemma add_temps_row_of: "foldl (\<lambda>row c. field (to_chars c) row) (row_of fs) cs = row_of (fs @ map to_chars cs)"
  by (induction cs arbitrary: fs) (simp_all add: row_of_snoc)

lemma add_fields_row_of:
  "add_BoardHealth to_chars d (row_of fs) = row_of (fs @ board_fields to_chars d)"
  "add_ModeStatus m (row_of fs) = row_of (fs @ mode_fields m)"
  "add_PtpStats q (row_of fs) = row_of (fs @ ptp_fields q)"
  by (simp_all add: add_BoardHealth_def add_ModeStatus_def add_PtpStats_def Let_def put_row_of add_rails_row_of add_temps_row_of
      row_of_snoc board_fields_def mode_fields_def ptp_fields_def alarm_names_def clock_identity_def)

lemma record_row: "put_unsigned (rh_flags hdr) (put_unsigned (rh_timestamp_ns hdr) (put_unsigned (rh_sequence hdr)
    (put_unsigned (rh_source_id hdr) new_Row))) = row_of (record_fields hdr)"
proof -
  have start: "new_Row = row_of []" by (simp add: row_of_def)
  show ?thesis unfolding start put_row_of record_fields_def by simp
qed

text \<open>The fields that the export finds in a payload, with the stem of the file and its columns.\<close>

definition test_fields :: "(f32 \<Rightarrow> string) \<Rightarrow> byte list \<Rightarrow> (string list \<times> string \<times> string) option" where
  "test_fields to_chars payload =
     (case find_text [0x54, 0x45, 0x53, 0x54] payload of
        None \<Rightarrow> None
      | Some idx \<Rightarrow>
          let h = decode_TestHeader (drop idx payload); len = data_size (th_data_type h);
              data = drop (idx + kTestHeaderSize) payload;
              front = [dec_digits (unat (th_publisher_index h)), dec_digits (unat (th_message_index h))];
              columns = kRecordColumns @ '',publisher_index,message_index,''
          in if length payload < idx + kTestHeaderSize \<or> len = 0 \<or> unat (th_payload_length h) \<noteq> length payload \<or>
                unat (th_data_length h) \<noteq> len \<or> length payload < idx + kTestHeaderSize + len then None
             else Some (if th_data_type h = kDataBoardHealth
               then (front @ board_fields to_chars (decode_BoardHealth data), ''board_health'', columns @ board_health_columns)
               else if th_data_type h = kDataModeStatus
               then (front @ mode_fields (decode_ModeStatus data), ''mode_status'', columns @ kModeStatusColumns)
               else (front @ ptp_fields (decode_PtpStats data), ''ptp_stats'', columns @ kPtpStatsColumns)))"

lemma decode_testpub_fields:
  "decode_testpub to_chars payload (row_of fs) =
     map_option (\<lambda>(gs, stem, columns). (row_of (fs @ gs), stem, columns)) (test_fields to_chars payload)"
proof (cases "find_text [0x54, 0x45, 0x53, 0x54] payload")
  case None
  then show ?thesis by (simp add: decode_testpub_def test_fields_def)
next
  case (Some idx)
  then show ?thesis
    by (simp add: decode_testpub_def test_fields_def Let_def put_row_of add_fields_row_of)
qed

definition csv_fields :: "(f32 \<Rightarrow> string) \<Rightarrow> RecordHeader \<Rightarrow> byte list \<Rightarrow> string list \<times> string \<times> string" where
  "csv_fields to_chars hdr payload =
     (case test_fields to_chars payload of
        Some (gs, stem, columns) \<Rightarrow> (record_fields hdr @ gs, stem, columns)
      | None \<Rightarrow> (record_fields hdr @ [dec_digits (length payload), hex payload], ''unknown'',
          kRecordColumns @ '',payload_length,payload_hex''))"

lemma csv_row_fields: "csv_row to_chars hdr payload = (case csv_fields to_chars hdr payload of (fs, r) \<Rightarrow> (row_of fs, r))"
  unfolding csv_row_def Let_def record_row csv_fields_def decode_testpub_fields
  by (simp add: row_of_snoc split: option.split prod.split)

section \<open>Plain fields\<close>

lemma plain_append [simp]: "plain_field (s @ t) \<longleftrightarrow> plain_field s \<and> plain_field t"
  by (auto simp: plain_field_def)

lemma plain_Nil [simp]: "plain_field []"
  by (simp add: plain_field_def)

lemma plain_Cons [simp]:
  "plain_field (c # s) \<longleftrightarrow> c \<notin> {CHR '','', CHR 0x22, CHR 0x0A, CHR 0x0D} \<and> plain_field s"
  by (auto simp: plain_field_def)

lemma plain_digits [simp]: "plain_field (dec_digits n)"
proof -
  have "c \<notin> {CHR '','', CHR 0x22, CHR 0x0A, CHR 0x0D}" if "is_digit 10 c" for c
    using that by (auto simp: is_digit_def digit_value_def less_eq_char_def)
  with dec_digits_digits [of n] show ?thesis by (auto simp: plain_field_def)
qed

lemma plain_to_string [simp]: "plain_field (to_string k)"
  by (simp add: to_string_def)

lemma plain_names:
  "list_all plain_field kRailNames" "list_all plain_field kTempNames" "list_all plain_field kModeNames"
  "list_all plain_field kStatusFlagNames" "list_all plain_field kPortStateNames" "list_all plain_field kServoStateNames"
  "list_all plain_field kPtpFlagNames"
  by (simp_all add: plain_field_def kRailNames_def kTempNames_def kModeNames_def kStatusFlagNames_def kPortStateNames_def
      kServoStateNames_def kPtpFlagNames_def)

lemma plain_enum_name: "list_all plain_field names \<Longrightarrow> plain_field (enum_name names n)"
  by (simp add: enum_name_def list_all_length)

lemma plain_flag_names:
  assumes "list_all plain_field names" "plain_field out" "plain_field prefix"
  shows "plain_field (append_flag_names out names v base prefix)"
proof -
  have "\<forall>i\<in>set is. i < length names \<Longrightarrow> plain_field out \<Longrightarrow> plain_field (foldl (append_flag names v base prefix) out is)" for "is" out
    using assms(1,3)
    by (induction "is" arbitrary: out) (simp_all add: append_flag_def list_all_length)
  with assms(2) show ?thesis by (simp add: append_flag_names_def)
qed

lemma plain_kHexDigits: "n < 16 \<Longrightarrow> kHexDigits ! n \<notin> {CHR '','', CHR 0x22, CHR 0x0A, CHR 0x0D}"
proof -
  assume "n < 16"
  then have "kHexDigits ! n \<in> set kHexDigits" by (intro nth_mem) (simp add: kHexDigits_def)
  moreover have "set kHexDigits \<inter> {CHR '','', CHR 0x22, CHR 0x0A, CHR 0x0D} = {}" by (simp add: kHexDigits_def)
  ultimately show ?thesis by blast
qed

lemma plain_hex [simp]: "plain_field (hex p)"
proof (induction p)
  case (Cons b p)
  have "unat (drop_bit 4 b) < 16"
    using unat_less_2p [of b] by (simp add: drop_bit_eq_div unat_div_distrib div_less_iff_less_mult)
  moreover have "b AND 0x0F = take_bit 4 b" by (simp add: take_bit_eq_mask mask_eq_exp_minus_1)
  then have "unat (b AND 0x0F) < 16"
    using take_bit_nat_less_exp [of 4 "unat b"] by (simp add: unsigned_take_bit_eq)
  ultimately have "plain_field [kHexDigits ! unat (drop_bit 4 b), kHexDigits ! unat (b AND 0x0F)]"
    using plain_kHexDigits by simp
  with Cons show ?case by (simp add: hex_def)
qed (simp add: hex_def)

lemma plain_upper_hex: "plain_field (upper_hex n)"
proof (induction n rule: upper_hex.induct)
  case (1 n)
  have "plain_field [''0123456789ABCDEF'' ! k]" if "k < 16" for k
  proof -
    have "''0123456789ABCDEF'' ! k \<in> set ''0123456789ABCDEF''" using that by (intro nth_mem) simp
    moreover have "set ''0123456789ABCDEF'' \<inter> {CHR '','', CHR 0x22, CHR 0x0A, CHR 0x0D} = {}" by simp
    ultimately show ?thesis unfolding plain_field_def by (simp only: list.set) blast
  qed
  with 1 show ?case by (subst upper_hex.simps) (simp del: nth_Cons_numeral)
qed

lemma plain_take: "plain_field s \<Longrightarrow> plain_field (take n s)"
  using set_take_subset [of n s] by (auto simp: plain_field_def)

lemma plain_fault [simp]: "plain_field (print_fault code)"
  unfolding print_fault_def Let_def
  by (rule plain_take) (simp add: plain_upper_hex plain_field_def [of "replicate _ _"])

section \<open>Well-formed files\<close>

lemma plain_record_fields: "list_all plain_field (record_fields hdr)"
  by (simp add: record_fields_def)

lemma decoded_shapes:
  "length (bh_rails (decode_BoardHealth data)) = 6" "length (bh_temperature_c (decode_BoardHealth data)) = 4"
  by (simp_all add: decode_BoardHealth_def const_defs)

lemma plain_board_fields:
  assumes "\<And>v. plain_field (to_chars v)"
  shows "list_all plain_field (board_fields to_chars d)"
proof -
  have "list_all plain_field (concat (map (\<lambda>r. [to_chars (pr_voltage_v r), to_chars (pr_current_a r)]) rs))" for rs
    by (induction rs) (simp_all add: assms)
  moreover have "list_all plain_field (map to_chars cs)" for cs by (induction cs) (simp_all add: assms)
  moreover have "plain_field (alarm_names v)" for v
    unfolding alarm_names_def by (intro plain_flag_names plain_names) simp_all
  ultimately show ?thesis by (simp add: board_fields_def)
qed

lemma plain_mode_fields: "list_all plain_field (mode_fields m)"
  by (simp add: mode_fields_def plain_enum_name plain_names flag_names_def plain_flag_names)

lemma plain_ptp_fields: "list_all plain_field (ptp_fields q)"
  by (simp add: ptp_fields_def clock_identity_def plain_enum_name plain_names flag_names_def plain_flag_names)

lemma length_board_fields: "length (bh_rails d) = 6 \<Longrightarrow> length (bh_temperature_c d) = 4 \<Longrightarrow> length (board_fields to_chars d) = 20"
  by (simp add: board_fields_def length_concat_const [of _ _ 2])

lemma count_columns:
  "count_list board_health_columns (CHR '','') = 19" "count_list kModeStatusColumns (CHR '','') = 9"
  "count_list kPtpStatsColumns (CHR '','') = 13" "count_list kRecordColumns (CHR '','') = 3"
  by (simp_all add: board_health_columns_def rail_columns_def kRailNames_def kTempNames_def kModeStatusColumns_def
      kPtpStatsColumns_def kRecordColumns_def)

lemma csv_fields_plain:
  assumes "\<And>v. plain_field (to_chars v)" "csv_fields to_chars hdr payload = (fs, stem, columns)"
  shows "list_all plain_field fs \<and> fs \<noteq> [] \<and> length fs = Suc (count_list columns (CHR '',''))"
proof (cases "test_fields to_chars payload")
  case None
  with assms(2) show ?thesis
    by (auto simp: csv_fields_def plain_record_fields count_columns) (simp_all add: record_fields_def)
next
  case (Some r)
  then obtain gs where r: "r = (gs, stem, columns)" "fs = record_fields hdr @ gs"
    using assms(2) by (auto simp: csv_fields_def split: prod.splits)
  have "list_all plain_field gs \<and> length gs = count_list columns (CHR '','') - 3 \<and> 3 < count_list columns (CHR '','')"
    using Some unfolding r(1)
    by (auto simp: test_fields_def Let_def plain_board_fields [OF assms(1)] plain_mode_fields plain_ptp_fields count_columns
        length_board_fields decoded_shapes mode_fields_def [THEN arg_cong [where f = length]]
        ptp_fields_def [THEN arg_cong [where f = length]] split: option.splits if_splits)
  with r(2) show ?thesis
    using plain_record_fields [of hdr] by (auto simp: record_fields_def)
qed

text \<open>C40: the CSV files are well formed: whatever is in the capture, each row has exactly as many fields as the header line of
  its file has columns, and neither the row nor any field needs quoting, provided the library prints floating-point numbers without a
  comma, a quotation mark or a line break.\<close>

theorem csv_rows_are_well_formed:
  assumes "\<And>v. plain_field (to_chars v)" "csv_row to_chars hdr payload = (row, stem, columns)"
  shows "count_list (row_line row) (CHR '','') = count_list columns (CHR '','') \<and>
    set (row_line row) \<inter> {CHR 0x22, CHR 0x0A, CHR 0x0D} = {}"
proof -
  obtain fs where fs: "csv_fields to_chars hdr payload = (fs, stem, columns)" "row = row_of fs"
    using assms(2) by (cases "csv_fields to_chars hdr payload") (auto simp: csv_row_fields)
  from csv_fields_plain [OF assms(1) fs(1)] have plain: "list_all plain_field fs" "fs \<noteq> []"
    "length fs = Suc (count_list columns (CHR '',''))" by simp_all
  from count_joined [OF plain(1,2)] plain(3) have "count_list (row_line row) (CHR '','') = count_list columns (CHR '','')"
    by (simp add: fs(2) row_of_joined)
  moreover have "(\<Union> (set ` set fs)) \<inter> {CHR 0x22, CHR 0x0A, CHR 0x0D} = {}"
    using plain(1) by (auto simp: list_all_iff plain_field_def)
  then have "set (row_line row) \<inter> {CHR 0x22, CHR 0x0A, CHR 0x0D} = {}"
    using set_joined [of fs] by (auto simp: fs(2) row_of_joined)
  ultimately show ?thesis by simp
qed

section \<open>Published telemetry\<close>

text \<open>The three kinds of data, as \<open>Simulator::encode_next\<close> writes them.\<close>

datatype Telemetry = TBoard BoardHealth | TMode ModeStatus | TPtp PtpStats

fun encode_telemetry :: "Telemetry \<Rightarrow> byte list \<Rightarrow> byte list" where
  "encode_telemetry (TBoard d) out = encode_BoardHealth d out"
| "encode_telemetry (TMode d) out = encode_ModeStatus d out"
| "encode_telemetry (TPtp d) out = encode_PtpStats d out"

fun telemetry_type :: "Telemetry \<Rightarrow> u16" where
  "telemetry_type (TBoard d) = kDataBoardHealth"
| "telemetry_type (TMode d) = kDataModeStatus"
| "telemetry_type (TPtp d) = kDataPtpStats"

fun telemetry_shaped :: "Telemetry \<Rightarrow> bool" where
  "telemetry_shaped (TBoard d) = board_shaped d"
| "telemetry_shaped (TMode d) = True"
| "telemetry_shaped (TPtp d) = ptp_shaped d"

fun telemetry_fields :: "(f32 \<Rightarrow> string) \<Rightarrow> Telemetry \<Rightarrow> string list" where
  "telemetry_fields to_chars (TBoard d) = board_fields to_chars d"
| "telemetry_fields to_chars (TMode d) = mode_fields d"
| "telemetry_fields to_chars (TPtp d) = ptp_fields d"

fun telemetry_stem :: "Telemetry \<Rightarrow> string" where
  "telemetry_stem (TBoard d) = ''board_health''"
| "telemetry_stem (TMode d) = ''mode_status''"
| "telemetry_stem (TPtp d) = ''ptp_stats''"

fun telemetry_bytes :: "Telemetry \<Rightarrow> byte list" where
  "telemetry_bytes (TBoard d) = board_bytes d"
| "telemetry_bytes (TMode d) = mode_bytes d"
| "telemetry_bytes (TPtp d) = ptp_bytes d"

definition test_magic :: "byte list" where
  "test_magic = [0x54, 0x45, 0x53, 0x54]"

lemma telemetry_encoded:
  assumes "telemetry_shaped d"
  shows "length (telemetry_bytes d) = data_size (telemetry_type d)"
    and "data_size (telemetry_type d) \<le> length buf \<Longrightarrow>
      encode_telemetry d buf = telemetry_bytes d @ drop (data_size (telemetry_type d)) buf"
  using assms by (cases d; simp add: data_size_def const_defs lengths_bytes [unfolded const_defs] encode_bytes [unfolded const_defs])+

lemma magic_first:
  assumes "\<And>i. i < length prefix \<Longrightarrow> \<not> occurs_at test_magic (prefix @ test_magic) i"
  shows "find_text test_magic (prefix @ test_magic @ r) = Some (length prefix)"
proof -
  have "occurs_at test_magic (prefix @ test_magic @ r) (length prefix)" by (simp add: occurs_at_def)
  moreover have "\<not> occurs_at test_magic (prefix @ test_magic @ r) i" if "i < length prefix" for i
  proof -
    have "i + length test_magic \<le> length (prefix @ test_magic)" using that by simp
    from occurs_at_append [OF this, of r] assms [OF that] show ?thesis by simp
  qed
  ultimately show ?thesis by (simp add: find_text_Some)
qed

text \<open>What the export reads in a payload that is laid out as the publisher does it.\<close>

lemma telemetry_payload_row:
  assumes "telemetry_shaped d" "p < 2 ^ 32" "n = data_size (telemetry_type d)"
    and payload: "payload = prefix @ test_header_bytes p sent (length payload) (telemetry_type d) n @ telemetry_bytes d @ fill"
    and "length payload < 2 ^ 32"
    and "\<And>i. i < length prefix \<Longrightarrow> \<not> occurs_at test_magic (prefix @ test_magic) i"
  shows "\<exists>columns. csv_row to_chars hdr payload =
    (row_of (record_fields hdr @ [dec_digits p, dec_digits (unat sent)] @ telemetry_fields to_chars d), telemetry_stem d, columns)"
proof -
  define header where "header = test_header_bytes p sent (length payload) (telemetry_type d) n"
  have payload: "payload = prefix @ header @ telemetry_bytes d @ fill" using assms(4) by (simp add: header_def)
  have len: "length header = 24" "length (telemetry_bytes d) = n"
    using telemetry_encoded(1) [OF assms(1)] assms(3) by (simp_all add: header_def test_header_bytes_def)
  have n: "n \<in> {80, 32, 56}" unfolding assms(3) by (cases d) (simp_all add: data_size_def const_defs)
  then have n_pos: "0 < n" by auto
  obtain t where "header = test_magic @ t"
    by (simp add: header_def test_header_bytes_def kTestMagic_def test_magic_def put_u32le_def)
  then have found: "find_text test_magic payload = Some (length prefix)"
    unfolding payload using magic_first [OF assms(6)] by simp
  have "drop (length prefix) payload = header @ telemetry_bytes d @ fill" unfolding payload by simp
  then have "decode_TestHeader (drop (length prefix) payload) =
      \<lparr>th_magic = kTestMagic, th_publisher_index = of_nat p, th_message_index = sent,
       th_payload_length = of_nat (length payload), th_data_type = telemetry_type d, th_data_length = of_nat n\<rparr>"
    unfolding header_def by (simp add: decode_test_header_bytes)
  moreover have "drop (length prefix + 24) payload = telemetry_bytes d @ fill" unfolding payload using len by simp
  moreover have "unat (of_nat (length payload) :: u32) = length payload"
    using assms(5) by (simp add: unat_of_nat)
  moreover have "unat (of_nat n :: u16) = n" using n by auto
  moreover have "unat (of_nat p :: u32) = p" using assms(2) by (simp add: unat_of_nat)
  moreover have "length prefix + 24 + n \<le> length payload"
    using arg_cong [OF payload, of length] len by simp
  ultimately have "\<exists>columns. test_fields to_chars payload =
      Some ([dec_digits p, dec_digits (unat sent)] @ telemetry_fields to_chars d, telemetry_stem d, columns)"
    using found n_pos assms(1,3) unfolding test_fields_def test_magic_def [symmetric]
    by (cases d) (simp_all add: kTestHeaderSize_def Let_def decode_board_bytes decode_mode_bytes decode_ptp_bytes const_defs)
  then show ?thesis
    by (auto simp: csv_row_fields csv_fields_def)
qed

text \<open>C38: what the test publisher sends is what the CSV file says: for a payload built by the publisher around any readings, with
  or without a topic in front, the row has the publisher's index, the message index and every reading, in the file of its kind, as long
  as the payload is shorter than 4 GiB and the bytes of the magic number do not already appear earlier, in the topic or across its
  end (a topic that ends in TES is enough to lose the message).\<close>

theorem published_telemetry_is_exported:
  assumes "telemetry_shaped d" "p < 2 ^ 32"
    and "prefix = (if multipart then [] else topic)"
    and "length prefix + max size_wanted (kTestHeaderSize + data_size (telemetry_type d)) < 2 ^ 32"
    and "\<And>i. i < length prefix \<Longrightarrow> \<not> occurs_at test_magic (prefix @ test_magic) i"
  shows "\<exists>columns. csv_row to_chars hdr (build_payload topic multipart p sent (telemetry_type d) (data_size (telemetry_type d))
      (encode_telemetry d) size_wanted old) =
    (row_of (record_fields hdr @ [dec_digits p, dec_digits (unat sent)] @ telemetry_fields to_chars d), telemetry_stem d, columns)"
proof -
  let ?n = "data_size (telemetry_type d)"
  define body where "body = max size_wanted (kTestHeaderSize + ?n)"
  define payload where "payload = build_payload topic multipart p sent (telemetry_type d) ?n (encode_telemetry d) size_wanted old"
  have payload: "payload = prefix @ test_header_bytes p sent (length prefix + body) (telemetry_type d) ?n @ telemetry_bytes d @
      map (\<lambda>i. ucast (sent + of_nat i)) [kTestHeaderSize + ?n..<body]"
    unfolding payload_def body_def assms(3)
    by (rule build_payload_bytes [OF telemetry_encoded(2) telemetry_encoded(1)]) (use assms(1) in simp_all)
  then have total: "length payload = length prefix + body"
    using telemetry_encoded(1) [OF assms(1)] by (simp add: body_def kTestHeaderSize_def test_header_bytes_def)
  show ?thesis
    unfolding payload_def [symmetric]
    by (rule telemetry_payload_row [OF assms(1,2) refl _ _ assms(5)]) (use payload total assms(4) in \<open>simp_all add: body_def\<close>)
qed

lemma csv_rows_are_well_formed_witness:
  "count_list (row_line (fst (csv_row (\<lambda>v. dec_digits (unat v)) default_RecordHeader [1, 2]))) (CHR '','') =
     count_list (snd (snd (csv_row (\<lambda>v. dec_digits (unat v)) default_RecordHeader [1, 2]))) (CHR '','')"
  using csv_rows_are_well_formed [of "\<lambda>v. dec_digits (unat v)" default_RecordHeader "[1, 2]"
      "fst (csv_row (\<lambda>v. dec_digits (unat v)) default_RecordHeader [1, 2])"
      "fst (snd (csv_row (\<lambda>v. dec_digits (unat v)) default_RecordHeader [1, 2]))"
      "snd (snd (csv_row (\<lambda>v. dec_digits (unat v)) default_RecordHeader [1, 2]))"] by simp

definition sample_status :: ModeStatus where
  "sample_status = \<lparr>ms_sample_time_ns = 5, ms_uptime_s = 7, ms_mode = 2, ms_previous_mode = 1, ms_mode_change_count = 2,
     ms_status_flags = 31, ms_fault_code = 0, ms_time_in_mode_s = 3, ms_heartbeat = 60\<rparr>"

lemma published_telemetry_is_exported_witness:
  "\<exists>columns. csv_row (\<lambda>v. dec_digits (unat v)) default_RecordHeader
      (build_payload [0x61, 0x62] False 1 60 (telemetry_type (TMode sample_status)) (data_size (telemetry_type (TMode sample_status)))
        (encode_telemetry (TMode sample_status)) 64 []) =
    (row_of (record_fields default_RecordHeader @ [dec_digits 1, dec_digits (unat (60 :: u64))] @
       telemetry_fields (\<lambda>v. dec_digits (unat v)) (TMode sample_status)), ''mode_status'', columns)"
proof -
  have "\<not> occurs_at test_magic ([0x61, 0x62] @ test_magic) i" if "i < length [0x61, 0x62 :: byte]" for i
    using that by (cases i) (auto simp: occurs_at_def test_magic_def)
  then show ?thesis
    using published_telemetry_is_exported [of "TMode sample_status" 1 "[0x61, 0x62]" False "[0x61, 0x62]" 64
        "\<lambda>v. dec_digits (unat v)" default_RecordHeader 60 "[]"]
    by (simp add: data_size_def const_defs)
qed

section \<open>Every record is one row\<close>

text \<open>A file system in memory: the contents of the files by path.\<close>

definition memory_files :: "(f32 \<Rightarrow> string) \<Rightarrow> (string \<Rightarrow> string option) CsvEnv" where
  "memory_files to_chars =
     \<lparr>cv_create_directories = \<lambda>_ w. (None, w), cv_open = \<lambda>path w. (None, w(path \<mapsto> [])),
      cv_write = \<lambda>path s w. (True, w(path \<mapsto> the (w path) @ s)), cv_close = \<lambda>_ w. (True, w), cv_to_chars = to_chars\<rparr>"

definition columns_of :: "string \<Rightarrow> string" where
  "columns_of stem =
     (let columns = kRecordColumns @ '',publisher_index,message_index,'' in
      if stem = ''board_health'' then columns @ board_health_columns
      else if stem = ''mode_status'' then columns @ kModeStatusColumns
      else if stem = ''ptp_stats'' then columns @ kPtpStatsColumns
      else kRecordColumns @ '',payload_length,payload_hex'')"

text \<open>The lines of the file \<open>stem\<close> for some records, and its text.\<close>

definition lines_for :: "(f32 \<Rightarrow> string) \<Rightarrow> string \<Rightarrow> (RecordHeader \<times> byte list) list \<Rightarrow> string list" where
  "lines_for to_chars stem recs =
     map (\<lambda>(row, _). row_line row) (filter (\<lambda>(_, s, _). s = stem) (map (\<lambda>(hdr, payload). csv_row to_chars hdr payload) recs))"

definition file_text :: "(f32 \<Rightarrow> string) \<Rightarrow> string \<Rightarrow> (RecordHeader \<times> byte list) list \<Rightarrow> string" where
  "file_text to_chars stem recs =
     columns_of stem @ [CHR 0x0A] @ concat (map (\<lambda>l. l @ [CHR 0x0A]) (lines_for to_chars stem recs))"

lemma csv_row_columns: "csv_row to_chars hdr payload = (row, stem, columns) \<Longrightarrow> columns = columns_of stem"
  by (auto simp: csv_row_fields csv_fields_def test_fields_def Let_def columns_of_def split: option.splits prod.splits if_splits)

lemma csv_path_inj: "csv_path cf s = csv_path cf t \<longleftrightarrow> s = t"
  by (simp add: csv_path_def path_join_def)

definition exported ::
  "(f32 \<Rightarrow> string) \<Rightarrow> string \<Rightarrow> (string \<Rightarrow> string option) \<Rightarrow> (RecordHeader \<times> byte list) list \<Rightarrow> CsvFiles \<Rightarrow>
   (string \<Rightarrow> string option) \<Rightarrow> bool"
where
  "exported to_chars out_dir w0 recs cf w \<longleftrightarrow>
     cf_out_dir cf = out_dir \<and> cf_error cf = [] \<and> smap_inv (cf_rows cf) \<and>
     (\<forall>stem. let n = length (lines_for to_chars stem recs); path = path_join out_dir (stem @ ''.csv'') in
        smap_get (cf_rows cf) stem = (if n = 0 then None else Some (of_nat n)) \<and>
        w path = (if n = 0 then w0 path else Some (file_text to_chars stem recs))) \<and>
     (\<forall>path. (\<forall>stem. path \<noteq> path_join out_dir (stem @ ''.csv'')) \<longrightarrow> w path = w0 path)"

lemma lines_for_snoc:
  assumes "csv_row to_chars hdr payload = (row, stem, columns)"
  shows "lines_for to_chars s (recs @ [(hdr, payload)]) = lines_for to_chars s recs @ (if s = stem then [row_line row] else [])"
  using assms by (simp add: lines_for_def)

lemma file_text_snoc:
  assumes "csv_row to_chars hdr payload = (row, stem, columns)"
  shows "file_text to_chars s (recs @ [(hdr, payload)]) =
    file_text to_chars s recs @ (if s = stem then row_line row @ [CHR 0x0A] else [])"
  by (simp add: file_text_def lines_for_snoc [OF assms])

lemma file_text_none: "lines_for to_chars s recs = [] \<Longrightarrow> file_text to_chars s recs = columns_of s @ [CHR 0x0A]"
  by (simp add: file_text_def)

lemma csv_write_exported:
  assumes inv: "exported to_chars out_dir w0 recs cf w" and row: "csv_row to_chars hdr payload = (row, stem, columns)"
  shows "\<exists>cf' w'. csv_write (memory_files to_chars) stem columns row cf w = (True, cf', w') \<and>
    exported to_chars out_dir w0 (recs @ [(hdr, payload)]) cf' w'"
proof -
  let ?path = "\<lambda>s. path_join out_dir (s @ ''.csv'')" and ?n = "\<lambda>s. length (lines_for to_chars s recs)"
  let ?recs = "recs @ [(hdr, payload)]"
  have dir: "cf_out_dir cf = out_dir" and err: "cf_error cf = []" and sorted: "smap_inv (cf_rows cf)"
    and rows: "\<And>s. smap_get (cf_rows cf) s = (if ?n s = 0 then None else Some (of_nat (?n s)))"
    and files: "\<And>s. w (?path s) = (if ?n s = 0 then w0 (?path s) else Some (file_text to_chars s recs))"
    and others: "\<And>path. (\<forall>s. path \<noteq> ?path s) \<Longrightarrow> w path = w0 path"
    using inv unfolding exported_def Let_def by blast+
  have path: "csv_path cf s = ?path s" for s by (simp add: csv_path_def dir)
  have inj: "?path s = ?path t \<longleftrightarrow> s = t" for s t using csv_path_inj [of cf s t] by (simp add: path)
  define rows' where "rows' = smap_put stem (of_nat (Suc (?n stem))) (cf_rows cf)"
  define w' where "w' = w(?path stem \<mapsto> file_text to_chars stem ?recs)"
  have "csv_write (memory_files to_chars) stem columns row cf w = (True, cf\<lparr>cf_rows := rows'\<rparr>, w')"
  proof (cases "?n stem = 0")
    case True
    then have none: "smap_get (cf_rows cf) stem = None" by (simp add: rows)
    have "file_text to_chars stem ?recs = columns @ [CHR 0x0A] @ row_line row @ [CHR 0x0A]"
      using True file_text_none [of to_chars stem recs] by (simp add: file_text_snoc [OF row] csv_row_columns [OF row])
    with True none show ?thesis
      by (simp add: csv_write_def open_csv_def memory_files_def path rows'_def w'_def smap_get_def map_of_smap_put sorted
        smap_put_put csv_path_def dir)
  next
    case False
    then have some: "smap_get (cf_rows cf) stem = Some (of_nat (?n stem))" "w (?path stem) = Some (file_text to_chars stem recs)"
      by (simp_all add: rows files)
    then show ?thesis
      by (simp add: csv_write_def memory_files_def path rows'_def w'_def file_text_snoc [OF row] add.commute)
  qed
  moreover have "exported to_chars out_dir w0 ?recs (cf\<lparr>cf_rows := rows'\<rparr>) w'"
    unfolding exported_def Let_def
    using sorted dir err rows files others
    by (auto simp: rows'_def w'_def smap_inv_put smap_get_def map_of_smap_put lines_for_snoc [OF row] file_text_snoc [OF row] inj)
  ultimately show ?thesis by blast
qed

lemma export_loop_exported:
  "exported to_chars out_dir w0 before cf w \<Longrightarrow>
     \<exists>cf' w'. export_loop (memory_files to_chars) hdr payload r cf w = (snd (read_all hdr payload r), cf', w') \<and>
       exported to_chars out_dir w0 (before @ fst (read_all hdr payload r)) cf' w'"
proof (induction hdr payload r arbitrary: before cf w rule: read_all.induct)
  case (1 hdr payload r)
  obtain more_records h p r' where next_step: "reader_next hdr payload r = (more_records, h, p, r')"
    by (cases "reader_next hdr payload r")
  show ?case
  proof (cases more_records)
    case False
    with next_step "1.prems" show ?thesis
      by (simp add: export_loop.simps [of _ hdr payload r] read_all.simps [of hdr payload r])
  next
    case True
    obtain row stem columns where row: "csv_row to_chars h p = (row, stem, columns)" by (cases "csv_row to_chars h p")
    obtain cf1 w1 where step: "csv_write (memory_files to_chars) stem columns row cf w = (True, cf1, w1)"
      "exported to_chars out_dir w0 (before @ [(h, p)]) cf1 w1"
      using csv_write_exported [OF "1.prems" row] by blast
    have success: "reader_next hdr payload r = (True, h, p, r')" using next_step True by simp
    from "1.IH" [OF success [symmetric] refl refl refl step(2)] next_step True row step(1) show ?thesis
      by (auto simp: export_loop.simps [of _ hdr payload r] read_all.simps [of hdr payload r] memory_files_def split: prod.splits)
  qed
qed

lemma csv_close_memory: "csv_close (memory_files to_chars) stems cf w = (True, cf, w)"
  by (induction stems) (simp_all add: memory_files_def)

lemma reader_open_path:
  "fst (reader_open path (Inr bytes) r) = fst (reader_open path' (Inr bytes) r) \<and>
   snd (reader_open path (Inr bytes) r) = snd (reader_open path' (Inr bytes) r)"
  by (simp add: reader_open_def)

text \<open>C37: nothing is lost and nothing is made up on the way into the CSV files: for every content of the capture file, also a
  truncated or damaged one, the export writes the records that can be read, each as exactly one line, in the order of the
  capture, into the file of its type below the header line of that file; a type without a record gets no file; every other file
  is left alone; the row counts of the result are the numbers of lines; and the error of the result is the reader's.\<close>

theorem every_record_is_one_row:
  assumes "read_capture bytes = (Some recs, err)"
  shows "\<exists>rows w. export_capture (memory_files to_chars) capture_path (Inr bytes) out_dir w0 = ((rows, err), w) \<and>
    (\<forall>stem. let n = length (lines_for to_chars stem recs); path = path_join out_dir (stem @ ''.csv'') in
       smap_get rows stem = (if n = 0 then None else Some (of_nat n)) \<and>
       w path = (if n = 0 then w0 path else Some (file_text to_chars stem recs))) \<and>
    (\<forall>path. (\<forall>stem. path \<noteq> path_join out_dir (stem @ ''.csv'')) \<longrightarrow> w path = w0 path)"
proof -
  obtain r where r: "reader_open capture_path (Inr bytes) new_CaptureReader = (True, r)"
    "fst (read_all default_RecordHeader [] r) = recs" "rd_error (snd (read_all default_RecordHeader [] r)) = err"
    using assms reader_open_path [of capture_path bytes new_CaptureReader "[]"]
    by (auto simp: read_capture_def prod_eq_iff split: prod.splits bool.splits)
  have "exported to_chars out_dir w0 [] (new_CsvFiles out_dir) w0"
    by (simp add: exported_def new_CsvFiles_def lines_for_def smap_inv_def smap_get_def)
  from export_loop_exported [OF this, of default_RecordHeader "[]" r]
  obtain cf w where loop: "export_loop (memory_files to_chars) default_RecordHeader [] r (new_CsvFiles out_dir) w0 =
      (snd (read_all default_RecordHeader [] r), cf, w)" "exported to_chars out_dir w0 recs cf w"
    using r(2) by auto
  have "export_capture (memory_files to_chars) capture_path (Inr bytes) out_dir w0 = ((cf_rows cf, err), w)"
    using loop r by (simp add: export_capture_def csv_close_memory exported_def)
  with loop(2) show ?thesis
    by (intro exI [of _ "cf_rows cf"] exI [of _ w]) (simp add: exported_def Let_def)
qed

lemma every_record_is_one_row_witness:
  "\<exists>rows w. export_capture (memory_files (\<lambda>v. dec_digits (unat v))) ''x.cap'' (Inr (file_header_bytes default_FileHeader)) ''out''
     (\<lambda>_. None) = ((rows, []), w) \<and> smap_get rows ''unknown'' = None"
proof -
  have ok: "ok_file_header default_FileHeader" by (simp add: ok_file_header_def default_FileHeader_def const_defs)
  have "read_capture (file_bytes default_FileHeader []) = (Some [], [])"
    using read_capture_take [OF ok, of "[]" 32] by (intro prod_eqI) (simp_all add: file_bytes_def records_bytes_def)
  from every_record_is_one_row [OF this, of "\<lambda>v. dec_digits (unat v)" "''x.cap''" "''out''" "\<lambda>_. None"]
  show ?thesis by (auto simp: lines_for_def file_bytes_def records_bytes_def Let_def)
qed

end
