(* ===== verification/Readings.thy ===== *)
theory Readings
  imports Csv_Properties
begin

text \<open>
  The readings the test publisher makes up: the generators of tools/testpub/telemetry.cpp. Everything is translated as it
  stands but for the arithmetic of \<open>double\<close> itself, which is the parameter \<open>fp\<close>: literals, the four operations, the
  functions of <cmath> and the conversions, on a type \<open>'d\<close> of doubles. Nothing is assumed of it.
\<close>

section \<open>Double arithmetic\<close>

text \<open>\<open>fp_lit m k\<close> is the literal m / 10^k, \<open>fp_float m k\<close> the same as a \<open>float\<close>, widened.\<close>

record 'd DoubleOps =
  fp_lit :: "int \<Rightarrow> nat \<Rightarrow> 'd"
  fp_float :: "int \<Rightarrow> nat \<Rightarrow> 'd"
  fp_of_u64 :: "u64 \<Rightarrow> 'd"
  fp_add :: "'d \<Rightarrow> 'd \<Rightarrow> 'd"
  fp_sub :: "'d \<Rightarrow> 'd \<Rightarrow> 'd"
  fp_mul :: "'d \<Rightarrow> 'd \<Rightarrow> 'd"
  fp_div :: "'d \<Rightarrow> 'd \<Rightarrow> 'd"
  fp_neg :: "'d \<Rightarrow> 'd"
  fp_sin :: "'d \<Rightarrow> 'd"
  fp_exp :: "'d \<Rightarrow> 'd"
  fp_fabs :: "'d \<Rightarrow> 'd"
  fp_less :: "'d \<Rightarrow> 'd \<Rightarrow> bool"
  fp_llround :: "'d \<Rightarrow> int"
  fp_to_float :: "'d \<Rightarrow> f32"

text \<open>Deterministic noise: splitmix64 of the message index and a salt, scaled.\<close>

definition splitmix :: "u64 \<Rightarrow> u64 \<Rightarrow> u64" where
  "splitmix i salt =
     (let z = i * 0x9E3779B97F4A7C15 + salt * 0xBF58476D1CE4E5B9 + 1;
          z = (z XOR drop_bit 30 z) * 0xBF58476D1CE4E5B9;
          z = (z XOR drop_bit 27 z) * 0x94D049BB133111EB
      in z XOR drop_bit 31 z)"

definition noise :: "'d DoubleOps \<Rightarrow> u64 \<Rightarrow> u64 \<Rightarrow> 'd" where
  "noise fp i salt =
     fp_sub fp (fp_div fp (fp_of_u64 fp (drop_bit 11 (splitmix i salt))) (fp_of_u64 fp (push_bit 52 1))) (fp_lit fp 1 0)"

section \<open>Board health\<close>

text \<open>Volt and ampere of the rails, temperatures and their limits.\<close>

definition kRailNominalV :: "'d DoubleOps \<Rightarrow> 'd list" where
  "kRailNominalV fp = map (\<lambda>(m, k). fp_float fp m k) [(120, 1), (50, 1), (33, 1), (18, 1), (10, 1), (12, 1)]"

definition kRailTypicalA :: "'d DoubleOps \<Rightarrow> 'd list" where
  "kRailTypicalA fp = map (\<lambda>(m, k). fp_float fp m k) [(19, 1), (85, 2), (14, 1), (6, 1), (32, 1), (9, 1)]"

definition kTempBaseC :: "'d DoubleOps \<Rightarrow> 'd list" where
  "kTempBaseC fp = map (\<lambda>m. fp_float fp m 1) [550, 620, 480, 410]"

definition kTempLimitC :: "'d DoubleOps \<Rightarrow> 'd list" where
  "kTempLimitC fp = map (\<lambda>m. fp_float fp m 1) [950, 1000, 1050, 850]"

definition kRail3V3 :: nat where [const_defs]: "kRail3V3 = 2"

text \<open>0.5 + 0.5 * sin(t / period).\<close>

definition swing :: "'d DoubleOps \<Rightarrow> 'd \<Rightarrow> int \<Rightarrow> 'd" where
  "swing fp t period =
     fp_add fp (fp_lit fp 5 1) (fp_mul fp (fp_lit fp 5 1) (fp_sin fp (fp_div fp t (fp_lit fp period 0))))"

definition rail_voltage :: "'d DoubleOps \<Rightarrow> u64 \<Rightarrow> 'd \<Rightarrow> nat \<Rightarrow> 'd" where
  "rail_voltage fp i load r =
     (let v = fp_mul fp (kRailNominalV fp ! r)
            (fp_add fp (fp_sub fp (fp_lit fp 1 0) (fp_mul fp (fp_lit fp 1 2) load))
              (fp_mul fp (fp_lit fp 4 3) (noise fp i (10 + of_nat r))))
      in if i mod 3000 \<ge> 2995 \<and> r = kRail3V3 then fp_mul fp v (fp_lit fp 92 2) else v)"

definition rail_current :: "'d DoubleOps \<Rightarrow> u64 \<Rightarrow> 'd \<Rightarrow> nat \<Rightarrow> 'd" where
  "rail_current fp i load r =
     fp_mul fp (kRailTypicalA fp ! r)
       (fp_add fp (fp_add fp (fp_lit fp 8 1) (fp_mul fp (fp_lit fp 4 1) load))
         (fp_mul fp (fp_lit fp 2 2) (noise fp i (20 + of_nat r))))"

definition rail_alarm :: "'d DoubleOps \<Rightarrow> 'd \<Rightarrow> nat \<Rightarrow> bool" where
  "rail_alarm fp v r \<longleftrightarrow>
     fp_less fp (fp_mul fp (fp_lit fp 5 2) (kRailNominalV fp ! r)) (fp_fabs fp (fp_sub fp v (kRailNominalV fp ! r)))"

definition temperature :: "'d DoubleOps \<Rightarrow> u64 \<Rightarrow> 'd \<Rightarrow> 'd \<Rightarrow> nat \<Rightarrow> 'd" where
  "temperature fp i heat load s =
     fp_add fp
       (fp_add fp (fp_add fp (kTempBaseC fp ! s) (fp_mul fp (fp_lit fp 12 0) heat)) (fp_mul fp (fp_lit fp 4 0) load))
       (fp_mul fp (fp_lit fp 3 1) (noise fp i (30 + of_nat s)))"

definition raise_flag :: "nat \<Rightarrow> bool \<Rightarrow> u32 \<Rightarrow> u32" where
  "raise_flag n alarm flgs = (if alarm then flgs OR push_bit n 1 else flgs)"

definition next_board_health :: "'d DoubleOps \<Rightarrow> u64 \<Rightarrow> u64 \<Rightarrow> BoardHealth" where
  "next_board_health fp i now_ns =
     (let t = fp_of_u64 fp i;
          load = swing fp t 400;
          heat = swing fp t 2000;
          volts = rail_voltage fp i load;
          temps = temperature fp i heat load;
          alarms = fold (\<lambda>r. raise_flag (kAlarmRailBase + r) (rail_alarm fp (volts r) r)) [0..<kNumPowerRails] 0;
          alarms = fold (\<lambda>s. raise_flag (kAlarmTempBase + s) (fp_less fp (kTempLimitC fp ! s) (temps s))) [0..<kNumTempSensors] alarms
      in \<lparr>bh_sample_time_ns = now_ns,
          bh_rails = map (\<lambda>r. \<lparr>pr_voltage_v = fp_to_float fp (volts r), pr_current_a = fp_to_float fp (rail_current fp i load r)\<rparr>)
            [0..<kNumPowerRails],
          bh_temperature_c = map (\<lambda>s. fp_to_float fp (temps s)) [0..<kNumTempSensors],
          bh_alarm_flags = alarms, bh_sample_count = ucast i\<rparr>)"

section \<open>PTP statistics\<close>

definition kPtpListening :: byte where [const_defs]: "kPtpListening = 4"
definition kPtpUncalibrated :: byte where [const_defs]: "kPtpUncalibrated = 8"
definition kPtpSlave :: byte where [const_defs]: "kPtpSlave = 9"
definition kServoUnlocked :: byte where [const_defs]: "kServoUnlocked = 0"
definition kServoJump :: byte where [const_defs]: "kServoJump = 1"
definition kServoLocked :: byte where [const_defs]: "kServoLocked = 2"
definition kPtpGmPresent :: byte where [const_defs]: "kPtpGmPresent = 1"
definition kPtpUtcOffsetValid :: byte where [const_defs]: "kPtpUtcOffsetValid = 2"
definition kPtpTimeTraceable :: byte where [const_defs]: "kPtpTimeTraceable = 4"
definition kPtpFreqTraceable :: byte where [const_defs]: "kPtpFreqTraceable = 8"

definition kGrandmasterId :: "byte list" where
  "kGrandmasterId = [0xEC, 0x46, 0x70, 0xFF, 0xFE, 0x0A, 0x12, 0x34]"

text \<open>Port state, servo state and offset: listening, then converging after the step at 20, then locked.\<close>

definition ptp_phase :: "'d DoubleOps \<Rightarrow> u64 \<Rightarrow> byte \<times> byte \<times> 'd" where
  "ptp_phase fp i =
     (let t = fp_of_u64 fp i in
      if i < 20 then (kPtpListening, kServoUnlocked, fp_lit fp 0 0)
      else if i < 100 then
        (kPtpUncalibrated, if i = 20 then kServoJump else kServoUnlocked,
         fp_mul fp (fp_lit fp 25000 0) (fp_exp fp (fp_div fp (fp_neg fp (fp_sub fp t (fp_lit fp 20 0))) (fp_lit fp 15 0))))
      else (kPtpSlave, kServoLocked, fp_mul fp (fp_lit fp 12 0) (fp_sin fp (fp_div fp t (fp_lit fp 50 0)))))"

definition next_ptp_stats :: "'d DoubleOps \<Rightarrow> u64 \<Rightarrow> u64 \<Rightarrow> PtpStats" where
  "next_ptp_stats fp i now_ns =
     (let t = fp_of_u64 fp i;
          (port, servo, offset) = ptp_phase fp i;
          (flgs, offset) =
            (if i \<ge> 20 then (kPtpGmPresent OR kPtpUtcOffsetValid OR kPtpTimeTraceable OR kPtpFreqTraceable,
                             fp_add fp offset (fp_mul fp (fp_lit fp 8 0) (noise fp i 40)))
             else (0, offset));
          delay = fp_add fp (fp_add fp (fp_lit fp 850 0) (fp_mul fp (fp_lit fp 6 0) (fp_sin fp (fp_div fp t (fp_lit fp 300 0)))))
            (fp_mul fp (fp_lit fp 2 0) (noise fp i 41));
          freq = fp_add fp (fp_add fp (fp_neg fp (fp_lit fp 12500 0))
              (fp_mul fp (fp_lit fp 40 0) (fp_sin fp (fp_div fp t (fp_lit fp 1000 0)))))
            (fp_mul fp (fp_lit fp 3 1) offset)
      in \<lparr>ps_sample_time_ns = now_ns, ps_grandmaster_identity = kGrandmasterId,
          ps_offset_from_master_ns = of_int (fp_llround fp offset), ps_mean_path_delay_ns = of_int (fp_llround fp delay),
          ps_freq_adjustment_ppb = of_int (fp_llround fp freq), ps_steps_removed = 1, ps_current_utc_offset_s = 37,
          ps_port_state = port, ps_servo_state = servo, ps_gm_clock_class = 6, ps_flags = flgs,
          ps_sync_rx_count = ucast i, ps_announce_timeout_count = 0, ps_reserved = 0\<rparr>)"

section \<open>encode_next\<close>

text \<open>The next readings of a simulator of the three types; the realtime clock is read first, for the mode and status the
  monotonic clock too.\<close>

definition next_telemetry ::
  "'d DoubleOps \<Rightarrow> ('w \<Rightarrow> u64 \<times> 'w) \<Rightarrow> ('w \<Rightarrow> u64 \<times> 'w) \<Rightarrow> u64 \<Rightarrow> Simulator \<Rightarrow> 'w \<Rightarrow> Telemetry option \<times> Simulator \<times> 'w"
where
  "next_telemetry fp realtime monotonic i sim w =
     (case realtime w of (now_ns, w) \<Rightarrow>
        if sim_type sim = kDataBoardHealth then (Some (TBoard (next_board_health fp i now_ns)), sim, w)
        else if sim_type sim = kDataModeStatus then
          (case monotonic w of (mono_ns, w) \<Rightarrow>
             (case next_mode_status i now_ns mono_ns sim of (d, sim) \<Rightarrow> (Some (TMode d), sim, w)))
        else if sim_type sim = kDataPtpStats then (Some (TPtp (next_ptp_stats fp i now_ns)), sim, w)
        else (None, sim, w))"

lemma generated_shapes: "board_shaped (next_board_health fp i now)" "ptp_shaped (next_ptp_stats fp i now)"
  by (simp_all add: next_board_health_def board_shaped_def Let_def next_ptp_stats_def ptp_shaped_def kGrandmasterId_def
      split: prod.split)

lemma next_mode_status_type: "next_mode_status i now m sim = (d, sim') \<Longrightarrow> sim_type sim' = sim_type sim"
  by (auto simp: next_mode_status_def enter_mode_def Let_def split: prod.splits if_splits)

lemma next_telemetry_shape:
  assumes "next_telemetry fp realtime monotonic i sim w = (d, sim', w')" "data_size (sim_type sim) \<noteq> 0"
  shows "\<exists>x. d = Some x \<and> telemetry_shaped x \<and> telemetry_type x = sim_type sim \<and> sim_type sim' = sim_type sim"
  using assms
  by (auto simp: next_telemetry_def data_size_def generated_shapes split: prod.splits if_splits dest: next_mode_status_type)

end
