(* ===== verification/Testpub_Program.thy ===== *)
theory Testpub_Program
  imports Readings Command_Line Zmq
begin

text \<open>
  The test publisher as a program: tools/testpub/main.cpp. The command line, the sockets, the rounds over the endpoints, the
  pacing and the reports, over ZeroMQ, the clocks and the random sizes as parameters (\<open>tp_draw lo hi\<close> is one draw of the
  uniform distribution). The payload and the readings are those of the theories Telemetry and Readings.
\<close>

section \<open>Options\<close>

definition testpub_usage :: "string \<Rightarrow> string" where
  \<open>testpub_usage prog = lines
     [''Usage: '' @ prog @ '' --endpoint EP [--endpoint EP ...] [options]'',
      [],
      ''Options:'',
      ''  -e, --endpoint EP      ZeroMQ PUB bind endpoint, e.g. ipc:///tmp/src1.sock (repeatable)'',
      ''  -n, --count N          Messages per endpoint (0 = until SIGINT/SIGTERM)   [1000]'',
      ''  -r, --rate HZ          Messages per second per endpoint (0 = unthrottled) [1000]'',
      ''  -s, --size BYTES       Minimum payload size (excluding topic); raised to'',
      ''                         fit the header and the channel's data structure  [64]'',
      ''  -S, --size-max BYTES   Maximum payload size; random in [size, size-max]   [=size]'',
      ''  -t, --topic PREFIX     Topic prefix prepended to every message            [""]'',
      ''  -m, --multipart        Send the topic as a separate first frame'',
      ''      --settle-ms MS     Delay after bind before publishing (slow joiner)   [500]'',
      ''      --linger-ms MS     Delay after the last message before exiting        [500]'',
      ''      --seed N           Random seed for sizes                              [1]'',
      ''  -q, --quiet            Do not print progress'',
      ''  -h, --help'']\<close>

record PubOptions =
  po_endpoints :: "string list"
  po_count :: int
  po_rate :: int
  po_size_min :: int
  po_size_max :: int
  po_topic :: string
  po_multipart :: bool
  po_settle_ms :: int
  po_linger_ms :: int
  po_seed :: u32
  po_quiet :: bool

definition default_PubOptions :: PubOptions where
  "default_PubOptions =
     \<lparr>po_endpoints = [], po_count = 1000, po_rate = 1000, po_size_min = 64, po_size_max = -1, po_topic = [],
      po_multipart = False, po_settle_ms = 500, po_linger_ms = 500, po_seed = 1, po_quiet = False\<rparr>"

definition parse_long :: "string \<Rightarrow> string \<Rightarrow> int Parsed" where
  "parse_long s what =
     (case strtol s of (v, rest) \<Rightarrow>
        if rest \<noteq> [] \<or> v < 0 then Exit 2 [] (lines [quoted_in (''invalid value for '' @ what @ '': '') s []]) else Go v)"

text \<open>An option with a number: the rest of the loop goes on with it.\<close>

fun pub_args :: "string \<Rightarrow> string list \<Rightarrow> PubOptions \<Rightarrow> PubOptions Parsed" where
  "pub_args prog [] p = Go p"
| "pub_args prog (a # as) p =
     (if a = ''-e'' \<or> a = ''--endpoint'' then
        (case as of [] \<Rightarrow> requires_argument ''--endpoint''
         | x # as \<Rightarrow> pub_args prog as (p\<lparr>po_endpoints := po_endpoints p @ [x]\<rparr>))
      else if a = ''-n'' \<or> a = ''--count'' then
        (case as of [] \<Rightarrow> requires_argument ''--count''
         | x # as \<Rightarrow> and_then (parse_long x ''--count'') (\<lambda>v. pub_args prog as (p\<lparr>po_count := v\<rparr>)))
      else if a = ''-r'' \<or> a = ''--rate'' then
        (case as of [] \<Rightarrow> requires_argument ''--rate''
         | x # as \<Rightarrow> and_then (parse_long x ''--rate'') (\<lambda>v. pub_args prog as (p\<lparr>po_rate := v\<rparr>)))
      else if a = ''-s'' \<or> a = ''--size'' then
        (case as of [] \<Rightarrow> requires_argument ''--size''
         | x # as \<Rightarrow> and_then (parse_long x ''--size'') (\<lambda>v. pub_args prog as (p\<lparr>po_size_min := v\<rparr>)))
      else if a = ''-S'' \<or> a = ''--size-max'' then
        (case as of [] \<Rightarrow> requires_argument ''--size-max''
         | x # as \<Rightarrow> and_then (parse_long x ''--size-max'') (\<lambda>v. pub_args prog as (p\<lparr>po_size_max := v\<rparr>)))
      else if a = ''-t'' \<or> a = ''--topic'' then
        (case as of [] \<Rightarrow> requires_argument ''--topic'' | x # as \<Rightarrow> pub_args prog as (p\<lparr>po_topic := x\<rparr>))
      else if a = ''-m'' \<or> a = ''--multipart'' then pub_args prog as (p\<lparr>po_multipart := True\<rparr>)
      else if a = ''--settle-ms'' then
        (case as of [] \<Rightarrow> requires_argument ''--settle-ms''
         | x # as \<Rightarrow> and_then (parse_long x ''--settle-ms'') (\<lambda>v. pub_args prog as (p\<lparr>po_settle_ms := v\<rparr>)))
      else if a = ''--linger-ms'' then
        (case as of [] \<Rightarrow> requires_argument ''--linger-ms''
         | x # as \<Rightarrow> and_then (parse_long x ''--linger-ms'') (\<lambda>v. pub_args prog as (p\<lparr>po_linger_ms := v\<rparr>)))
      else if a = ''--seed'' then
        (case as of [] \<Rightarrow> requires_argument ''--seed''
         | x # as \<Rightarrow> and_then (parse_long x ''--seed'') (\<lambda>v. pub_args prog as (p\<lparr>po_seed := of_int v\<rparr>)))
      else if a = ''-q'' \<or> a = ''--quiet'' then pub_args prog as (p\<lparr>po_quiet := True\<rparr>)
      else if a = ''-h'' \<or> a = ''--help'' then Exit 0 [] (testpub_usage prog)
      else Exit 2 [] (lines [quoted_in ''unknown argument '' a []] @ testpub_usage prog))"

definition pub_start :: "string \<Rightarrow> string list \<Rightarrow> PubOptions Parsed" where
  "pub_start prog args =
     and_then (pub_args prog args default_PubOptions) (\<lambda>p.
       if po_endpoints p = [] then Exit 2 [] (testpub_usage prog)
       else
         let p = (if po_size_max p < 0 then p\<lparr>po_size_max := po_size_min p\<rparr> else p) in
         if po_size_max p < po_size_min p then Exit 2 [] (lines [''--size-max must be >= --size''])
         else Go p)"

section \<open>The system and the state\<close>

record ('w, 'd) PubSys =
  tp_zmq :: "'w ZmqEnv"
  tp_double :: "'d DoubleOps"
  tp_realtime :: "'w \<Rightarrow> u64 \<times> 'w"
  tp_monotonic :: "'w \<Rightarrow> u64 \<times> 'w"
  tp_sleep_ms :: "int \<Rightarrow> 'w \<Rightarrow> 'w"
  tp_sleep_ns :: "u64 \<Rightarrow> 'w \<Rightarrow> 'w"
  tp_shutdown_requested :: "'w \<Rightarrow> bool"
  tp_stderr :: "string \<Rightarrow> 'w \<Rightarrow> 'w"
  tp_seed :: "u32 \<Rightarrow> 'w \<Rightarrow> 'w"
  tp_draw :: "int \<Rightarrow> int \<Rightarrow> 'w \<Rightarrow> int \<times> 'w"

record Publisher =
  pb_sockets :: "nat list"
  pb_sims :: "Simulator list"
  pb_payload :: "byte list"
  pb_sent :: "u64 list"
  pb_next_ns :: u64
  pb_total :: u64
  pb_last_report :: u64

section \<open>Opening the endpoints\<close>

definition bound_text :: "string \<Rightarrow> Simulator \<Rightarrow> string" where
  "bound_text ep sim =
     lines [''testpub: PUB bound to '' @ ep @ '' (data type '' @ to_string (uint (sim_type sim)) @ '', '' @
       to_string (int (data_size (sim_type sim))) @ '' bytes)'']"

fun open_endpoints ::
  "('w, 'd) PubSys \<Rightarrow> PubOptions \<Rightarrow> nat \<Rightarrow> string list \<Rightarrow> nat list \<times> Simulator list \<Rightarrow> 'w \<Rightarrow>
     (nat list \<times> Simulator list) option \<times> 'w"
where
  "open_endpoints sys o1 ctx [] (socks, sims) w = (Some (socks, sims), w)"
| "open_endpoints sys o1 ctx (ep # eps) (socks, sims) w =
     (case zq_socket (tp_zmq sys) ctx ZMQ_PUB w of (s, w) \<Rightarrow>
      (case zq_setsockopt (tp_zmq sys) s (ZMQ_SNDHWM 100000) w of (_, w) \<Rightarrow>
      (case zq_setsockopt (tp_zmq sys) s (ZMQ_LINGER (sint (of_int (po_linger_ms o1) :: u32))) w of (_, w) \<Rightarrow>
      (case zq_bind (tp_zmq sys) s ep w of
         (False, w) \<Rightarrow>
           (None, tp_stderr sys (lines [quoted_in ''zmq_bind('' ep ('') failed: '' @ zmq_error (tp_zmq sys) w)]) w)
       | (True, w) \<Rightarrow>
           (case tp_monotonic sys w of (now, w) \<Rightarrow>
              let sim = new_Simulator (data_type_for_endpoint (length sims)) now;
                  w = (if po_quiet o1 then w else tp_stderr sys (bound_text ep sim) w)
              in open_endpoints sys o1 ctx eps (socks @ [s], sims @ [sim]) w)))))"

section \<open>One message\<close>

text \<open>The readings that go into the buffer; a simulator of no known type writes nothing.\<close>

definition encode_reading :: "Telemetry option \<Rightarrow> byte list \<Rightarrow> byte list" where
  "encode_reading d out = (case d of None \<Rightarrow> out | Some x \<Rightarrow> encode_telemetry x out)"

text \<open>The result is whether the payload went out. The result of sending the topic is not looked at.\<close>

definition publish_one :: "('w, 'd) PubSys \<Rightarrow> PubOptions \<Rightarrow> nat \<Rightarrow> Publisher \<Rightarrow> 'w \<Rightarrow> bool \<times> Publisher \<times> 'w" where
  "publish_one sys o1 p pb w =
     (let sim = pb_sims pb ! p;
          data_len = data_size (sim_type sim);
          sent = pb_sent pb ! p;
          (n, w) = tp_draw sys (po_size_min o1) (po_size_max o1) w;
          (d, sim', w) = next_telemetry (tp_double sys) (tp_realtime sys) (tp_monotonic sys) sent sim w;
          payload = build_payload (bytes_of (po_topic o1)) (po_multipart o1) p sent (sim_type sim) data_len (encode_reading d)
            (nat n) (pb_payload pb);
          pb = pb\<lparr>pb_sims := (pb_sims pb)[p := sim'], pb_payload := payload\<rparr>;
          w = (if po_multipart o1 then snd (zq_send (tp_zmq sys) (pb_sockets pb ! p) (bytes_of (po_topic o1)) True w) else w);
          (good, w) = zq_send (tp_zmq sys) (pb_sockets pb ! p) payload False w
      in if \<not> good then
           (False, pb, tp_stderr sys (lines [''zmq_send failed on '' @ po_endpoints o1 ! p @ '': '' @ zmq_error (tp_zmq sys) w]) w)
         else (True, pb\<lparr>pb_sent := (pb_sent pb)[p := sent + 1], pb_total := pb_total pb + 1\<rparr>, w))"

text \<open>The inner loop over the endpoints from \<open>p\<close> on; the first result says that a message could not be sent, the second is \<open>done\<close>.\<close>

fun publish_round ::
  "('w, 'd) PubSys \<Rightarrow> PubOptions \<Rightarrow> nat list \<Rightarrow> bool \<Rightarrow> Publisher \<Rightarrow> 'w \<Rightarrow> bool \<times> bool \<times> Publisher \<times> 'w"
where
  "publish_round sys o1 [] fin pb w = (True, fin, pb, w)"
| "publish_round sys o1 (p # ps) fin pb w =
     (if po_count o1 > 0 \<and> pb_sent pb ! p \<ge> of_int (po_count o1) then publish_round sys o1 ps fin pb w
      else
        (case publish_one sys o1 p pb w of
           (False, pb, w) \<Rightarrow> (False, False, pb, w)
         | (True, pb, w) \<Rightarrow> publish_round sys o1 ps False pb w))"

section \<open>Pacing and reports\<close>

definition period_ns :: "PubOptions \<Rightarrow> u64" where
  "period_ns o1 = (if po_rate o1 > 0 then kNsPerSec div of_int (po_rate o1) else 0)"

definition pace :: "('w, 'd) PubSys \<Rightarrow> PubOptions \<Rightarrow> Publisher \<Rightarrow> 'w \<Rightarrow> Publisher \<times> 'w" where
  "pace sys o1 pb w =
     (if period_ns o1 \<noteq> 0 then
        (case tp_monotonic sys w of (now, w) \<Rightarrow>
           let nxt = pb_next_ns pb + period_ns o1 in
           if nxt > now then (pb\<lparr>pb_next_ns := nxt\<rparr>, tp_sleep_ns sys (nxt - now) w)
           else if now - nxt > kNsPerSec then (pb\<lparr>pb_next_ns := now\<rparr>, w)
           else (pb\<lparr>pb_next_ns := nxt\<rparr>, w))
      else (pb, w))"

definition report :: "('w, 'd) PubSys \<Rightarrow> PubOptions \<Rightarrow> Publisher \<Rightarrow> 'w \<Rightarrow> Publisher \<times> 'w" where
  "report sys o1 pb w =
     (if po_quiet o1 then (pb, w)
      else
        (case tp_monotonic sys w of (now, w) \<Rightarrow>
           if now - pb_last_report pb \<ge> kNsPerSec then
             (pb\<lparr>pb_last_report := now\<rparr>,
              tp_stderr sys (lines [''testpub: '' @ to_string (uint (pb_total pb)) @ '' messages sent'']) w)
           else (pb, w)))"

section \<open>main\<close>

partial_function (option) publish_loop ::
  "('w, 'd) PubSys \<Rightarrow> PubOptions \<Rightarrow> bool \<Rightarrow> Publisher \<Rightarrow> 'w \<Rightarrow> (bool \<times> Publisher \<times> 'w) option"
where
  "publish_loop sys o1 fin pb w =
     (if fin \<or> tp_shutdown_requested sys w then Some (True, pb, w)
      else
        (case publish_round sys o1 [0..<length (pb_sockets pb)] (po_count o1 > 0) pb w of
           (good, fin, pb, w) \<Rightarrow>
             if \<not> good then Some (False, pb, w)
             else
               (case pace sys o1 pb w of (pb, w) \<Rightarrow>
                  (case report sys o1 pb w of (pb, w) \<Rightarrow> publish_loop sys o1 fin pb w))))"

fun close_publishers :: "'w ZmqEnv \<Rightarrow> nat list \<Rightarrow> 'w \<Rightarrow> 'w" where
  "close_publishers env [] w = w"
| "close_publishers env (s # ss) w = close_publishers env ss (zq_close env s w)"

definition pub_finish :: "('w, 'd) PubSys \<Rightarrow> PubOptions \<Rightarrow> nat \<Rightarrow> Publisher \<Rightarrow> 'w \<Rightarrow> 'w" where
  "pub_finish sys o1 ctx pb w =
     (let w = (if po_quiet o1 then w
               else tp_stderr sys (lines [''testpub: done, '' @ to_string (uint (pb_total pb)) @ '' messages sent across '' @
                      to_string (int (length (po_endpoints o1))) @ '' endpoint(s)'']) w);
          w = tp_sleep_ms sys (po_linger_ms o1) w
      in zq_ctx_term (tp_zmq sys) ctx (close_publishers (tp_zmq sys) (pb_sockets pb) w))"

definition publish :: "('w, 'd) PubSys \<Rightarrow> PubOptions \<Rightarrow> 'w \<Rightarrow> (int \<times> 'w) option" where
  "publish sys o1 w =
     (case zq_ctx_new (tp_zmq sys) w of (ctx, w) \<Rightarrow>
      (case open_endpoints sys o1 ctx (po_endpoints o1) ([], []) w of
         (None, w) \<Rightarrow> Some (1, w)
       | (Some (socks, sims), w) \<Rightarrow>
           let w = tp_sleep_ms sys (po_settle_ms o1) w;
               w = tp_seed sys (po_seed o1) w;
               (next_ns, w) = tp_monotonic sys w;
               (last_report, w) = tp_monotonic sys w;
               pb = \<lparr>pb_sockets = socks, pb_sims = sims, pb_payload = [], pb_sent = replicate (length (po_endpoints o1)) 0,
                     pb_next_ns = next_ns, pb_total = 0, pb_last_report = last_report\<rparr>
           in (case publish_loop sys o1 False pb w of
                 None \<Rightarrow> None
               | Some (good, pb, w) \<Rightarrow> if \<not> good then Some (1, w) else Some (0, pub_finish sys o1 ctx pb w))))"

definition testpub_main :: "('w, 'd) PubSys \<Rightarrow> string \<Rightarrow> string list \<Rightarrow> 'w \<Rightarrow> (int \<times> 'w) option" where
  "testpub_main sys prog args w =
     (case pub_start prog args of
        Exit code out err \<Rightarrow> Some (code, tp_stderr sys err w)
      | Go o1 \<Rightarrow> publish sys o1 w)"

end
