(* ===== verification/Testpub_Properties.thy ===== *)
theory Testpub_Properties
  imports Testpub_Program
begin

text \<open>
  What a complete run of the test publisher puts on its sockets: round after round one message per endpoint, numbered from
  0, with the header, a reading of the endpoint's kind and the filler; and that such a run ends.
\<close>

section \<open>Observing the publisher\<close>

definition observed_pub :: "('w, 'd) PubSys \<Rightarrow> ('w \<times> ZmqEvent list, 'd) PubSys" where
  "observed_pub sys =
     \<lparr>tp_zmq = observed_zmq id (tp_zmq sys), tp_double = tp_double sys,
      tp_realtime = (\<lambda>(w, t). case tp_realtime sys w of (n, w) \<Rightarrow> (n, w, t)),
      tp_monotonic = (\<lambda>(w, t). case tp_monotonic sys w of (n, w) \<Rightarrow> (n, w, t)),
      tp_sleep_ms = (\<lambda>n (w, t). (tp_sleep_ms sys n w, t)),
      tp_sleep_ns = (\<lambda>n (w, t). (tp_sleep_ns sys n w, t)),
      tp_shutdown_requested = (\<lambda>(w, t). tp_shutdown_requested sys w),
      tp_stderr = (\<lambda>s (w, t). (tp_stderr sys s w, t)),
      tp_seed = (\<lambda>n (w, t). (tp_seed sys n w, t)),
      tp_draw = (\<lambda>lo hi (w, t). case tp_draw sys lo hi w of (n, w) \<Rightarrow> (n, w, t))\<rparr>"

lemma observed_pub_simps [simp]:
  "tp_zmq (observed_pub sys) = observed_zmq id (tp_zmq sys)" "tp_double (observed_pub sys) = tp_double sys"
  "tp_realtime (observed_pub sys) (w, t) = (case tp_realtime sys w of (n, w) \<Rightarrow> (n, w, t))"
  "tp_monotonic (observed_pub sys) (w, t) = (case tp_monotonic sys w of (n, w) \<Rightarrow> (n, w, t))"
  "tp_sleep_ms (observed_pub sys) k (w, t) = (tp_sleep_ms sys k w, t)"
  "tp_sleep_ns (observed_pub sys) j (w, t) = (tp_sleep_ns sys j w, t)"
  "tp_shutdown_requested (observed_pub sys) (w, t) = tp_shutdown_requested sys w"
  "tp_stderr (observed_pub sys) s (w, t) = (tp_stderr sys s w, t)"
  "tp_seed (observed_pub sys) seed (w, t) = (tp_seed sys seed w, t)"
  "tp_draw (observed_pub sys) lo hi (w, t) = (case tp_draw sys lo hi w of (n, w) \<Rightarrow> (n, w, t))"
  by (simp_all add: observed_pub_def)

text \<open>The frames that were sent: socket, bytes, and whether more follow.\<close>

fun send_of :: "ZmqEvent \<Rightarrow> (nat \<times> byte list \<times> bool) option" where
  "send_of (ZSent s d sndmore _) = Some (s, d, sndmore)"
| "send_of _ = None"

definition sends :: "ZmqEvent list \<Rightarrow> (nat \<times> byte list \<times> bool) list" where
  "sends t = List.map_filter send_of t"

lemma sends_simps [simp]:
  "sends [] = []" "sends (t @ u) = sends t @ sends u"
  "sends (e # t) = (case send_of e of None \<Rightarrow> [] | Some x \<Rightarrow> [x]) @ sends t"
  by (simp_all add: sends_def map_filter_def split: option.split)

text \<open>A host on which everything works: every message goes out, every endpoint can be bound, nobody asks for a
  shutdown, and the sizes drawn are in the range asked for.\<close>

definition working :: "('w, 'd) PubSys \<Rightarrow> PubOptions \<Rightarrow> bool" where
  "working sys o1 \<longleftrightarrow>
     (\<forall>s d sndmore w. fst (zq_send (tp_zmq sys) s d sndmore w)) \<and> (\<forall>s ep w. fst (zq_bind (tp_zmq sys) s ep w)) \<and>
     (\<forall>w. \<not> tp_shutdown_requested sys w) \<and>
     (\<forall>w. po_size_min o1 \<le> fst (tp_draw sys (po_size_min o1) (po_size_max o1) w) \<and>
          fst (tp_draw sys (po_size_min o1) (po_size_max o1) w) \<le> po_size_max o1)"

section \<open>A message\<close>

definition topic_prefix :: "PubOptions \<Rightarrow> byte list" where
  "topic_prefix o1 = (if po_multipart o1 then [] else bytes_of (po_topic o1))"

text \<open>Message \<open>m\<close> of endpoint \<open>p\<close>: topic, header, readings of the endpoint's kind, and the filler up to a size in the range.\<close>

definition is_message :: "PubOptions \<Rightarrow> nat \<Rightarrow> nat \<Rightarrow> byte list \<Rightarrow> bool" where
  "is_message o1 p m payload \<longleftrightarrow>
     (\<exists>x n. telemetry_shaped x \<and> telemetry_type x = data_type_for_endpoint p \<and>
        po_size_min o1 \<le> int n \<and> int n \<le> po_size_max o1 \<and>
        (let dl = data_size (telemetry_type x); body = max n (kTestHeaderSize + dl) in
         payload = topic_prefix o1 @ test_header_bytes p (of_nat m) (length (topic_prefix o1) + body) (telemetry_type x) dl @
           telemetry_bytes x @ map (\<lambda>i. ucast (of_nat m + of_nat i :: u64)) [kTestHeaderSize + dl..<body]))"

definition frames_on :: "PubOptions \<Rightarrow> nat \<Rightarrow> byte list \<Rightarrow> (nat \<times> byte list \<times> bool) list" where
  "frames_on o1 s payload = (if po_multipart o1 then [(s, bytes_of (po_topic o1), True)] else []) @ [(s, payload, False)]"

lemma data_size_endpoint: "data_size (data_type_for_endpoint p) \<noteq> 0"
proof -
  have "p mod 3 < 3" by simp
  then consider "p mod 3 = 0" | "p mod 3 = 1" | "p mod 3 = 2" by linarith
  then show ?thesis by cases (simp_all add: data_type_for_endpoint_def data_size_def const_defs)
qed

text \<open>The state before message \<open>m\<close> of endpoint \<open>q\<close>, of \<open>k\<close> endpoints.\<close>

definition at_message :: "nat list \<Rightarrow> nat \<Rightarrow> nat \<Rightarrow> nat \<Rightarrow> Publisher \<Rightarrow> bool" where
  "at_message socks k m q pb \<longleftrightarrow>
     pb_sockets pb = socks \<and> length socks = k \<and> length (pb_sims pb) = k \<and>
     (\<forall>p<k. sim_type (pb_sims pb ! p) = data_type_for_endpoint p) \<and>
     pb_sent pb = replicate q (of_nat (Suc m)) @ replicate (k - q) (of_nat m)"

lemma publish_one_observed:
  assumes "working sys o1" "at_message socks k m q pb" "q < k" "0 \<le> po_size_min o1"
  shows "\<exists>pb' w' u payload. publish_one (observed_pub sys) o1 q pb (w, t) = (True, pb', w', t @ u) \<and>
    at_message socks k m (Suc q) pb' \<and> is_message o1 q m payload \<and> sends u = frames_on o1 (socks ! q) payload"
proof -
  let ?sim = "pb_sims pb ! q" and ?ty = "data_type_for_endpoint q"
  have pb: "pb_sockets pb = socks" "length (pb_sims pb) = k" "sim_type ?sim = ?ty" "pb_sent pb ! q = of_nat m"
    "pb_sent pb = replicate q (of_nat (Suc m)) @ of_nat m # replicate (k - Suc q) (of_nat m)"
    using assms(2,3) by (auto simp: at_message_def nth_append simp flip: replicate_Suc Suc_diff_Suc)
  obtain n w1 where n: "tp_draw sys (po_size_min o1) (po_size_max o1) w = (n, w1)" by fastforce
  have range: "po_size_min o1 \<le> n" "n \<le> po_size_max o1" using assms(1) n unfolding working_def by (metis fst_conv)+
  obtain d sim' w2 t2 where tel: "next_telemetry (tp_double sys) (tp_realtime (observed_pub sys)) (tp_monotonic (observed_pub sys))
      (of_nat m) ?sim (w1, t) = (d, sim', w2, t2)" by (metis prod_cases4)
  have t2: "t2 = t" using tel by (auto simp: next_telemetry_def split: prod.splits if_splits)
  obtain x where x: "d = Some x" "telemetry_shaped x" "telemetry_type x = ?ty" "sim_type sim' = ?ty"
    using next_telemetry_shape [OF tel] data_size_endpoint [of q] pb(3) by auto
  let ?payload = "build_payload (bytes_of (po_topic o1)) (po_multipart o1) q (of_nat m) ?ty (data_size ?ty) (encode_reading d) (nat n) (pb_payload pb)"
  have "?payload = topic_prefix o1 @ test_header_bytes q (of_nat m)
      (length (topic_prefix o1) + max (nat n) (kTestHeaderSize + data_size ?ty)) ?ty (data_size ?ty) @ telemetry_bytes x @
      map (\<lambda>i. ucast (of_nat m + of_nat i :: u64)) [kTestHeaderSize + data_size ?ty..<max (nat n) (kTestHeaderSize + data_size ?ty)]"
    unfolding topic_prefix_def
    by (rule build_payload_bytes) (use x telemetry_encoded [OF x(2)] in \<open>simp_all add: encode_reading_def\<close>)
  then have message: "is_message o1 q m ?payload"
    unfolding is_message_def Let_def using x range assms(4) by (intro exI [of _ x] exI [of _ "nat n"]) simp
  have sent: "\<exists>w'. zq_send (tp_zmq sys) s f sndmore v = (True, w')" for s f sndmore v
    using assms(1) unfolding working_def by (metis prod.collapse)
  define topic_events where "topic_events = (if po_multipart o1 then [ZSent (socks ! q) (bytes_of (po_topic o1)) True True] else [])"
  obtain w3 where w3: "(if po_multipart o1 then zq_send (tp_zmq sys) (socks ! q) (bytes_of (po_topic o1)) True w2 else (True, w2)) = (True, w3)"
    using sent [of "socks ! q" "bytes_of (po_topic o1)" True w2] by (cases "po_multipart o1") auto
  obtain w4 where w4: "zq_send (tp_zmq sys) (socks ! q) ?payload False w3 = (True, w4)" using sent by blast
  let ?pb = "pb\<lparr>pb_sims := (pb_sims pb)[q := sim'], pb_payload := ?payload, pb_sent := (pb_sent pb)[q := of_nat m + 1],
      pb_total := pb_total pb + 1\<rparr>"
  have "publish_one (observed_pub sys) o1 q pb (w, t) = (True, ?pb, w4, t @ topic_events @ [ZSent (socks ! q) ?payload False True])"
    using n tel t2 w3 w4 pb(1,3,4)
    by (cases "po_multipart o1") (simp_all add: publish_one_def Let_def topic_events_def)
  moreover have "(pb_sent pb)[q := of_nat m + 1] = replicate (Suc q) (of_nat (Suc m)) @ replicate (k - Suc q) (of_nat m)"
    unfolding pb(5) by (simp add: list_update_append replicate_app_Cons_same add.commute)
  then have "at_message socks k m (Suc q) ?pb"
    using assms(2,3) x(4) by (auto simp: at_message_def nth_list_update)
  ultimately show ?thesis using message by (auto simp: frames_on_def topic_events_def)
qed

section \<open>Rounds\<close>

text \<open>The messages of endpoints \<open>q\<close> to \<open>k\<close> of round \<open>m\<close>, and their frames.\<close>

definition round_messages :: "PubOptions \<Rightarrow> nat \<Rightarrow> nat \<Rightarrow> nat \<Rightarrow> byte list list \<Rightarrow> bool" where
  "round_messages o1 k q m ps \<longleftrightarrow> length ps = k - q \<and> (\<forall>i<k - q. is_message o1 (q + i) m (ps ! i))"

definition round_frames :: "PubOptions \<Rightarrow> nat list \<Rightarrow> byte list list \<Rightarrow> (nat \<times> byte list \<times> bool) list" where
  "round_frames o1 socks ps = concat (map (\<lambda>(s, payload). frames_on o1 s payload) (zip socks ps))"

lemma round_messages_Cons:
  "q < k \<Longrightarrow> is_message o1 q m x \<Longrightarrow> round_messages o1 k (Suc q) m ps \<Longrightarrow> round_messages o1 k q m (x # ps)"
  by (auto simp: round_messages_def nth_Cons split: nat.split)

lemma publish_round_observed:
  assumes "working sys o1" "0 \<le> po_size_min o1" "0 < po_count o1" "int m < po_count o1" "po_count o1 < 2 ^ 63"
    and "at_message socks k m q pb" "q \<le> k"
  shows "\<exists>pb' w' u ps. publish_round (observed_pub sys) o1 [q..<k] fin pb (w, t) = (True, fin \<and> q = k, pb', w', t @ u) \<and>
    at_message socks k m k pb' \<and> round_messages o1 k q m ps \<and> sends u = round_frames o1 (drop q socks) ps"
  using assms(6,7)
proof (induction "k - q" arbitrary: q fin pb w t)
  case 0
  then show ?case by (auto simp: round_messages_def round_frames_def)
next
  case (Suc n)
  then have q: "q < k" by simp
  have "unat (of_int (po_count o1) :: u64) = nat (po_count o1)"
    using assms(3,5) by (simp add: unat_eq_nat_uint word_uint_eq_iff uint_word_of_int_eq take_bit_int_eq_self)
  moreover have "unat (of_nat m :: u64) = m" using assms(4,5) by (simp add: unat_of_nat take_bit_nat_eq_self)
  ultimately have more: "\<not> of_int (po_count o1) \<le> (of_nat m :: u64)" using assms(4) by (simp add: word_le_nat_alt)
  have sent: "pb_sent pb ! q = of_nat m" using Suc.prems(1) q by (simp add: at_message_def nth_append)
  obtain pb1 w1 u1 x where one: "publish_one (observed_pub sys) o1 q pb (w, t) = (True, pb1, w1, t @ u1)"
      "at_message socks k m (Suc q) pb1" "is_message o1 q m x" "sends u1 = frames_on o1 (socks ! q) x"
    using publish_one_observed [OF assms(1) Suc.prems(1) q assms(2), of w t] by (elim exE conjE)
  have n: "n = k - Suc q" "Suc q \<le> k" using Suc.hyps(2) q by simp_all
  obtain pb' w' u ps where rest: "publish_round (observed_pub sys) o1 [Suc q..<k] False pb1 (w1, t @ u1) = (True, False, pb', w', (t @ u1) @ u)"
      "at_message socks k m k pb'" "round_messages o1 k (Suc q) m ps" "sends u = round_frames o1 (drop (Suc q) socks) ps"
    using Suc.hyps(1) [OF n(1) one(2) n(2), of False w1 "t @ u1"] by (elim exE conjE) simp
  have "length socks = k" using Suc.prems(1) by (simp add: at_message_def)
  then have "drop q socks = socks ! q # drop (Suc q) socks" using q by (simp add: Cons_nth_drop_Suc)
  moreover have "[q..<k] = q # [Suc q..<k]" using q by (rule upt_conv_Cons)
  ultimately show ?case
    using one rest more sent q round_messages_Cons [OF q one(3) rest(3)]
    by (intro exI [of _ pb'] exI [of _ w'] exI [of _ "u1 @ u"] exI [of _ "x # ps"]) (simp add: round_frames_def)
qed

lemma at_message_next: "at_message socks k m k pb \<longleftrightarrow> at_message socks k (Suc m) 0 pb"
  by (simp add: at_message_def)

lemma publish_round_finished:
  assumes "0 < po_count o1" "po_count o1 < 2 ^ 63" "at_message socks k (nat (po_count o1)) 0 pb" "set ps \<subseteq> {..<k}"
  shows "publish_round sys o1 ps fin pb w = (True, fin, pb, w)"
  using assms(4)
proof (induction ps)
  case (Cons p ps)
  have "pb_sent pb ! p = of_int (po_count o1)"
    using assms(1,3) Cons.prems by (simp add: at_message_def)
  with Cons assms(1) show ?case by simp
qed simp

text \<open>Pacing and reports change clocks and counters only, and send nothing.\<close>

lemma pace_observed:
  assumes "at_message socks k m q pb"
  shows "\<exists>pb' w'. pace (observed_pub sys) o1 pb (w, t) = (pb', w', t) \<and> at_message socks k m q pb'"
  using assms by (auto simp: pace_def at_message_def Let_def split: prod.split)

lemma report_observed:
  assumes "at_message socks k m q pb"
  shows "\<exists>pb' w'. report (observed_pub sys) o1 pb (w, t) = (pb', w', t) \<and> at_message socks k m q pb'"
  using assms by (auto simp: report_def at_message_def split: prod.split)

lemma publish_loop_observed:
  assumes "working sys o1" "0 \<le> po_size_min o1" "0 < po_count o1" "po_count o1 < 2 ^ 63" "0 < k"
    and "at_message socks k m 0 pb" "m \<le> nat (po_count o1)"
  shows "\<exists>pb' w' u rounds. publish_loop (observed_pub sys) o1 False pb (w, t) = Some (True, pb', w', t @ u) \<and>
    pb_sockets pb' = socks \<and> length rounds = nat (po_count o1) - m \<and>
    (\<forall>j<length rounds. round_messages o1 k 0 (m + j) (rounds ! j)) \<and>
    sends u = concat (map (round_frames o1 socks) rounds)"
  using assms(6,7)
proof (induction "nat (po_count o1) - m" arbitrary: m pb w t)
  case 0
  then have m: "m = nat (po_count o1)" by simp
  have socks: "pb_sockets pb = socks" "length socks = k" using 0(2) by (simp_all add: at_message_def)
  have round: "publish_round (observed_pub sys) o1 [0..<k] True pb (w, t) = (True, True, pb, w, t)"
    by (rule publish_round_finished [OF assms(3,4)]) (use 0(2) m in auto)
  obtain pb1 w1 where pace: "pace (observed_pub sys) o1 pb (w, t) = (pb1, w1, t)" "at_message socks k m 0 pb1"
    using pace_observed [OF 0(2), of sys o1 w t] by (elim exE conjE)
  obtain pb2 w2 where rep: "report (observed_pub sys) o1 pb1 (w1, t) = (pb2, w2, t)" "at_message socks k m 0 pb2"
    using report_observed [OF pace(2), of sys o1 w1 t] by (elim exE conjE)
  have last: "publish_loop (observed_pub sys) o1 True pb2 (w2, t) = Some (True, pb2, w2, t)"
    by (subst publish_loop.simps) simp
  have "publish_loop (observed_pub sys) o1 False pb (w, t) = Some (True, pb2, w2, t)"
    using assms(1,3) socks round pace(1) rep(1) last by (subst publish_loop.simps) (simp add: working_def)
  then show ?case
    using rep(2) m by (intro exI [of _ pb2] exI [of _ w2] exI [of _ "[]"]) (simp add: at_message_def)
next
  case (Suc n)
  have m: "int m < po_count o1" "Suc m \<le> nat (po_count o1)" "n = nat (po_count o1) - Suc m" using Suc.hyps(2) by simp_all
  have socks: "pb_sockets pb = socks" "length socks = k" using Suc.prems(1) by (simp_all add: at_message_def)
  obtain pb1 w1 u1 ps where round: "publish_round (observed_pub sys) o1 [0..<k] True pb (w, t) = (True, False, pb1, w1, t @ u1)"
      "at_message socks k (Suc m) 0 pb1" "round_messages o1 k 0 m ps" "sends u1 = round_frames o1 socks ps"
    using publish_round_observed [OF assms(1-3) m(1) assms(4) Suc.prems(1), OF le0, of True w t] assms(5)
    by (elim exE conjE) (simp add: at_message_next)
  obtain pb2 w2 where pace: "pace (observed_pub sys) o1 pb1 (w1, t @ u1) = (pb2, w2, t @ u1)" "at_message socks k (Suc m) 0 pb2"
    using pace_observed [OF round(2), of sys o1 w1 "t @ u1"] by (elim exE conjE)
  obtain pb3 w3 where rep: "report (observed_pub sys) o1 pb2 (w2, t @ u1) = (pb3, w3, t @ u1)" "at_message socks k (Suc m) 0 pb3"
    using report_observed [OF pace(2), of sys o1 w2 "t @ u1"] by (elim exE conjE)
  obtain pb' w' u rounds where rest: "publish_loop (observed_pub sys) o1 False pb3 (w3, t @ u1) = Some (True, pb', w', (t @ u1) @ u)"
      "pb_sockets pb' = socks" "length rounds = nat (po_count o1) - Suc m"
      "\<forall>j<length rounds. round_messages o1 k 0 (Suc m + j) (rounds ! j)"
      "sends u = concat (map (round_frames o1 socks) rounds)"
    using Suc.hyps(1) [OF m(3) rep(2) m(2), of w3 "t @ u1"] by (elim exE conjE)
  have "publish_loop (observed_pub sys) o1 False pb (w, t) = Some (True, pb', w', t @ u1 @ u)"
    using assms(1,3) socks round(1) pace(1) rep(1) rest(1) by (subst publish_loop.simps) (simp add: working_def)
  moreover have "\<forall>j<length (ps # rounds). round_messages o1 k 0 (m + j) ((ps # rounds) ! j)"
    using round(3) rest(4) by (auto simp: nth_Cons split: nat.split)
  ultimately show ?case
    using rest round(4) m(2) by (intro exI [of _ pb'] exI [of _ w'] exI [of _ "u1 @ u"] exI [of _ "ps # rounds"]) auto
qed

section \<open>A whole run\<close>

lemma open_endpoints_observed:
  assumes "working sys o1" "length socks = length sims"
  shows "\<exists>socks' sims' w' t'. open_endpoints (observed_pub sys) o1 ctx eps (socks, sims) (w, t) =
      (Some (socks @ socks', sims @ sims'), w', t') \<and> length socks' = length eps \<and> length sims' = length eps \<and>
    (\<forall>p<length eps. sim_type (sims' ! p) = data_type_for_endpoint (length sims + p)) \<and>
    (\<exists>u. t' = t @ u \<and> sends u = [] \<and> (\<forall>p<length eps. ZBound (socks' ! p) (eps ! p) True \<in> set u))"
  using assms(2)
proof (induction eps arbitrary: socks sims w t)
  case (Cons ep eps)
  obtain s w1 where s: "zq_socket (tp_zmq sys) ctx ZMQ_PUB w = (s, w1)" by fastforce
  obtain r1 w2 where r1: "zq_setsockopt (tp_zmq sys) s (ZMQ_SNDHWM 100000) w1 = (r1, w2)" by fastforce
  obtain r2 w3 where r2: "zq_setsockopt (tp_zmq sys) s (ZMQ_LINGER (sint (of_int (po_linger_ms o1) :: u32))) w2 = (r2, w3)" by fastforce
  obtain w4 where w4: "zq_bind (tp_zmq sys) s ep w3 = (True, w4)"
    using assms(1) unfolding working_def by (metis prod.collapse)
  obtain now w5 where now: "tp_monotonic sys w4 = (now, w5)" by fastforce
  let ?sim = "new_Simulator (data_type_for_endpoint (length sims)) now"
  let ?u = "[ZSocket s ZMQ_PUB, ZOption s (ZMQ_SNDHWM 100000) r1,
      ZOption s (ZMQ_LINGER (sint (of_int (po_linger_ms o1) :: u32))) r2, ZBound s ep True]"
  define w6 where "w6 = (if po_quiet o1 then w5 else tp_stderr sys (bound_text ep ?sim) w5)"
  have step: "open_endpoints (observed_pub sys) o1 ctx (ep # eps) (socks, sims) (w, t) =
      open_endpoints (observed_pub sys) o1 ctx eps (socks @ [s], sims @ [?sim]) (w6, t @ ?u)"
    using s r1 r2 w4 now by (simp add: Let_def w6_def)
  obtain socks' sims' w' t' u where rest: "open_endpoints (observed_pub sys) o1 ctx eps (socks @ [s], sims @ [?sim]) (w6, t @ ?u) =
      (Some ((socks @ [s]) @ socks', (sims @ [?sim]) @ sims'), w', t')" "length socks' = length eps" "length sims' = length eps"
      "\<forall>p<length eps. sim_type (sims' ! p) = data_type_for_endpoint (length (sims @ [?sim]) + p)"
      "t' = (t @ ?u) @ u" "sends u = []" "\<forall>p<length eps. ZBound (socks' ! p) (eps ! p) True \<in> set u"
    using Cons.IH [of "socks @ [s]" "sims @ [?sim]" w6 "t @ ?u"] Cons.prems by auto
  show ?case
    using step rest
    by (intro exI [of _ "s # socks'"] exI [of _ "?sim # sims'"] exI [of _ w'] exI [of _ t'])
      (auto simp: nth_Cons new_Simulator_def split: nat.split)
qed auto

lemma close_publishers_observed:
  "\<exists>w' u. close_publishers (observed_zmq ev env) ss (w, t) = (w', t @ map ev u) \<and> sends u = []"
proof (induction ss arbitrary: w t)
  case (Cons s ss)
  obtain w' u where "close_publishers (observed_zmq ev env) ss (zq_close env s w, t @ [ev (ZClosed s)]) =
      (w', (t @ [ev (ZClosed s)]) @ map ev u)" "sends u = []"
    using Cons.IH by blast
  then show ?case by (intro exI [of _ w'] exI [of _ "ZClosed s # u"]) simp
qed auto

lemma pub_finish_observed: "\<exists>w' u. pub_finish (observed_pub sys) o1 ctx pb (w, t) = (w', t @ u) \<and> sends u = []"
proof -
  define w1 where "w1 = tp_sleep_ms sys (po_linger_ms o1) (if po_quiet o1 then w else tp_stderr sys
      (lines [''testpub: done, '' @ to_string (uint (pb_total pb)) @ '' messages sent across '' @
        to_string (int (length (po_endpoints o1))) @ '' endpoint(s)'']) w)"
  obtain w' u where close: "close_publishers (observed_zmq id (tp_zmq sys)) (pb_sockets pb) (w1, t) = (w', t @ map id u)" "sends u = []"
    using close_publishers_observed [of id "tp_zmq sys" "pb_sockets pb" w1 t] by (elim exE conjE)
  have "pub_finish (observed_pub sys) o1 ctx pb (w, t) =
      zq_ctx_term (observed_zmq id (tp_zmq sys)) ctx (close_publishers (observed_zmq id (tp_zmq sys)) (pb_sockets pb) (w1, t))"
    unfolding pub_finish_def Let_def w1_def observed_pub_simps(1)
    by (cases "po_quiet o1") (simp_all only: if_True if_False observed_pub_simps)
  also have "\<dots> = (zq_ctx_term (tp_zmq sys) ctx w', t @ u @ [ZTerminated ctx])"
    unfolding close(1) by simp
  finally show ?thesis
    using close(2) by (intro exI [of _ "zq_ctx_term (tp_zmq sys) ctx w'"] exI [of _ "u @ [ZTerminated ctx]"]) simp
qed

text \<open>What the options of a run that starts satisfy.\<close>

lemma parse_long_Go: "parse_long s what = Go v \<Longrightarrow> 0 \<le> v \<and> v < 2 ^ 63"
  by (auto simp: parse_long_def strtol_def Let_def split: if_splits prod.splits)

definition sane_options :: "PubOptions \<Rightarrow> bool" where
  "sane_options p \<longleftrightarrow> 0 \<le> po_count p \<and> po_count p < 2 ^ 63 \<and> 0 \<le> po_size_min p"

definition starts_only :: "('a \<Rightarrow> bool) \<Rightarrow> 'a Parsed \<Rightarrow> bool" where
  "starts_only Q r \<longleftrightarrow> (\<forall>x. r = Go x \<longrightarrow> Q x)"

lemma starts_only_rules:
  "starts_only Q r \<Longrightarrow> starts_only Q r' \<Longrightarrow> starts_only Q (if b then r else r')"
  "starts_only Q (requires_argument opt)"
  "starts_only Q (Exit code out err)"
  "(\<And>x. r1 = Go x \<Longrightarrow> starts_only Q (f x)) \<Longrightarrow> starts_only Q (and_then r1 f)"
  "starts_only Q r \<Longrightarrow> (\<And>x xs. as = x # xs \<Longrightarrow> starts_only Q (g x xs)) \<Longrightarrow> starts_only Q (case as of [] \<Rightarrow> r | x # xs \<Rightarrow> g x xs)"
  by (auto simp: starts_only_def requires_argument_def and_then_Go split: list.splits)

lemma pub_args_sane: "sane_options p \<Longrightarrow> starts_only sane_options (pub_args prog args p)"
proof (induction "length args" arbitrary: args p rule: less_induct)
  case less
  show ?case
  proof (cases args)
    case Nil
    then show ?thesis using less.prems by (simp add: starts_only_def)
  next
    case (Cons a as)
    show ?thesis
      unfolding Cons pub_args.simps(2)
      by (intro starts_only_rules less.hyps) (use Cons less.prems in \<open>auto simp: sane_options_def dest: parse_long_Go\<close>)
  qed
qed

lemma pub_start_sane:
  assumes "pub_start prog args = Go o1"
  shows "sane_options o1 \<and> po_endpoints o1 \<noteq> []"
proof -
  have "sane_options default_PubOptions" by (simp add: sane_options_def default_PubOptions_def)
  then show ?thesis
    using assms pub_args_sane [of default_PubOptions prog args]
    by (auto simp: starts_only_def pub_start_def and_then_Go sane_options_def Let_def split: if_splits)
qed

lemma testpub_run:
  assumes start: "pub_start prog args = Go o1" and works: "working sys o1" and count: "0 < po_count o1"
  shows "\<exists>w' t socks rounds. testpub_main (observed_pub sys) prog args (w, []) = Some (0, w', t) \<and>
    length socks = length (po_endpoints o1) \<and>
    (\<forall>p<length socks. ZBound (socks ! p) (po_endpoints o1 ! p) True \<in> set t) \<and>
    length rounds = nat (po_count o1) \<and>
    (\<forall>m<length rounds. round_messages o1 (length socks) 0 m (rounds ! m)) \<and>
    sends t = concat (map (round_frames o1 socks) rounds)"
proof -
  let ?k = "length (po_endpoints o1)"
  have opts: "0 \<le> po_size_min o1" "po_count o1 < 2 ^ 63" "0 < ?k"
    using pub_start_sane [OF start] by (simp_all add: sane_options_def)
  obtain ctx w1 where ctx: "zq_ctx_new (tp_zmq sys) w = (ctx, w1)" by fastforce
  obtain socks sims w2 t2 u where opened: "open_endpoints (observed_pub sys) o1 ctx (po_endpoints o1) ([], []) (w1, [ZContext ctx]) =
      (Some (socks, sims), w2, t2)" "length socks = ?k" "length sims = ?k"
      "\<forall>p<?k. sim_type (sims ! p) = data_type_for_endpoint p"
      "t2 = [ZContext ctx] @ u" "sends u = []" "\<forall>p<?k. ZBound (socks ! p) (po_endpoints o1 ! p) True \<in> set u"
    using open_endpoints_observed [OF works, of "[]" "[]" ctx "po_endpoints o1" w1 "[ZContext ctx]"] by auto
  obtain next_ns w3 where n1: "tp_monotonic sys (tp_seed sys (po_seed o1) (tp_sleep_ms sys (po_settle_ms o1) w2)) = (next_ns, w3)" by fastforce
  obtain last w4 where n2: "tp_monotonic sys w3 = (last, w4)" by fastforce
  let ?pb = "\<lparr>pb_sockets = socks, pb_sims = sims, pb_payload = [], pb_sent = replicate ?k 0,
      pb_next_ns = next_ns, pb_total = 0, pb_last_report = last\<rparr>"
  have "at_message socks ?k 0 0 ?pb" using opened by (simp add: at_message_def)
  from publish_loop_observed [OF works opts(1) count opts(2,3) this le0, of w4 t2]
  obtain pb' w5 v rounds where loop: "publish_loop (observed_pub sys) o1 False ?pb (w4, t2) = Some (True, pb', w5, t2 @ v)"
      "length rounds = nat (po_count o1) - 0" "\<forall>j<length rounds. round_messages o1 ?k 0 (0 + j) (rounds ! j)"
      "sends v = concat (map (round_frames o1 socks) rounds)"
    by (elim exE conjE)
  obtain w6 x where fin: "pub_finish (observed_pub sys) o1 ctx pb' (w5, t2 @ v) = (w6, (t2 @ v) @ x)" "sends x = []"
    using pub_finish_observed [of sys o1 ctx pb' w5 "t2 @ v"] by (elim exE conjE)
  have "publish (observed_pub sys) o1 (w, []) = Some (0, w6, t2 @ v @ x)"
    using ctx opened(1) n1 n2 loop(1) fin(1) by (simp add: publish_def del: replicate.simps)
  then have "testpub_main (observed_pub sys) prog args (w, []) = Some (0, w6, t2 @ v @ x)"
    using start by (simp add: testpub_main_def)
  then show ?thesis
    using opened(2,5-7) loop(2-4) fin(2)
    by (intro exI [of _ w6] exI [of _ "t2 @ v @ x"] exI [of _ socks] exI [of _ rounds]) simp
qed

text \<open>A message that was sent is a row of the CSV export, as long as it is shorter than 4 GiB and the topic in front of it does
  not hide the magic number.\<close>

definition topic_is_clean :: "PubOptions \<Rightarrow> bool" where
  "topic_is_clean o1 \<longleftrightarrow>
     length (topic_prefix o1) + max (nat (po_size_max o1)) 104 < 2 ^ 32 \<and>
     (\<forall>i<length (topic_prefix o1). \<not> occurs_at test_magic (topic_prefix o1 @ test_magic) i)"

lemma message_row:
  assumes "is_message o1 p m payload" "topic_is_clean o1" "p < 2 ^ 32" "int m < 2 ^ 63"
  shows "\<exists>x columns. telemetry_type x = data_type_for_endpoint p \<and> csv_row to_chars hdr payload =
    (row_of (record_fields hdr @ [dec_digits p, dec_digits m] @ telemetry_fields to_chars x), telemetry_stem x, columns)"
proof -
  obtain x n where x: "telemetry_shaped x" "telemetry_type x = data_type_for_endpoint p" "int n \<le> po_size_max o1"
    and payload: "let dl = data_size (telemetry_type x); body = max n (kTestHeaderSize + dl) in
      payload = topic_prefix o1 @ test_header_bytes p (of_nat m) (length (topic_prefix o1) + body) (telemetry_type x) dl @
        telemetry_bytes x @ map (\<lambda>i. ucast (of_nat m + of_nat i :: u64)) [kTestHeaderSize + dl..<body]"
    using assms(1) unfolding is_message_def by (elim exE conjE)
  let ?dl = "data_size (telemetry_type x)"
  have dl: "?dl \<le> 80" by (cases x) (simp_all add: data_size_def const_defs)
  have len: "length payload = length (topic_prefix o1) + max n (kTestHeaderSize + ?dl)"
    using payload telemetry_encoded(1) [OF x(1)] by (simp add: Let_def kTestHeaderSize_def test_header_bytes_def)
  then have small: "length payload < 2 ^ 32"
    using assms(2) x(3) dl by (auto simp: topic_is_clean_def kTestHeaderSize_def)
  have m: "unat (of_nat m :: u64) = m" using assms(4) by (simp add: unat_of_nat take_bit_nat_eq_self)
  have "\<exists>columns. csv_row to_chars hdr payload =
      (row_of (record_fields hdr @ [dec_digits p, dec_digits (unat (of_nat m :: u64))] @ telemetry_fields to_chars x), telemetry_stem x, columns)"
  proof (rule telemetry_payload_row [OF x(1) assms(3) refl _ small])
    show "payload = topic_prefix o1 @ test_header_bytes p (of_nat m) (length payload) (telemetry_type x) ?dl @ telemetry_bytes x @
        map (\<lambda>i. ucast (of_nat m + of_nat i :: u64)) [kTestHeaderSize + ?dl..<max n (kTestHeaderSize + ?dl)]"
      unfolding len using payload by (simp only: Let_def)
  qed (use assms(2) in \<open>auto simp: topic_is_clean_def\<close>)
  then show ?thesis using x(2) unfolding m by blast
qed

text \<open>C39: With a positive count, on a host where every bind and send works and no shutdown is requested, the publisher ends and
  exits 0; it has bound one socket to each endpoint, and what it sent are exactly \<open>count\<close> rounds, each one message per
  endpoint in order, message \<open>m\<close> of endpoint \<open>p\<close> carrying the prefix, the header with \<open>p\<close> and \<open>m\<close>, a reading of the
  endpoint's kind and the filler, of a size in the range asked for. When the topic does not hide the magic number, each of
  these payloads, under whatever record header it is captured, becomes the row of the CSV export with \<open>p\<close>, \<open>m\<close> and that reading,
  in the file of its kind.
\<close>

theorem testpub_publishes_every_message:
  assumes start: "pub_start prog args = Go o1" and works: "working sys o1" and count: "0 < po_count o1"
    and clean: "topic_is_clean o1" and few: "length (po_endpoints o1) < 2 ^ 32"
  shows "\<exists>w' t socks rounds. testpub_main (observed_pub sys) prog args (w, []) = Some (0, w', t) \<and>
    length socks = length (po_endpoints o1) \<and>
    (\<forall>p<length socks. ZBound (socks ! p) (po_endpoints o1 ! p) True \<in> set t) \<and>
    length rounds = nat (po_count o1) \<and> (\<forall>m<length rounds. round_messages o1 (length socks) 0 m (rounds ! m)) \<and>
    sends t = concat (map (round_frames o1 socks) rounds) \<and>
    (\<forall>m<length rounds. \<forall>p<length socks. \<exists>x columns. telemetry_type x = data_type_for_endpoint p \<and>
       csv_row to_chars hdr (rounds ! m ! p) =
         (row_of (record_fields hdr @ [dec_digits p, dec_digits m] @ telemetry_fields to_chars x), telemetry_stem x, columns))"
proof -
  obtain w' t socks rounds where run: "testpub_main (observed_pub sys) prog args (w, []) = Some (0, w', t)"
      "length socks = length (po_endpoints o1)" "\<forall>p<length socks. ZBound (socks ! p) (po_endpoints o1 ! p) True \<in> set t"
      "length rounds = nat (po_count o1)" "\<forall>m<length rounds. round_messages o1 (length socks) 0 m (rounds ! m)"
      "sends t = concat (map (round_frames o1 socks) rounds)"
    using testpub_run [OF start works count, of w] by (elim exE conjE)
  have rows: "\<exists>x columns. telemetry_type x = data_type_for_endpoint p \<and> csv_row to_chars hdr (rounds ! m ! p) =
      (row_of (record_fields hdr @ [dec_digits p, dec_digits m] @ telemetry_fields to_chars x), telemetry_stem x, columns)"
    if mp: "m < length rounds" "p < length socks" for m p
  proof (rule message_row [OF _ clean])
    show "is_message o1 p m (rounds ! m ! p)" using run(5) mp by (simp add: round_messages_def)
    show "p < 2 ^ 32" using mp(2) run(2) few by simp
    have "m < nat (po_count o1)" "po_count o1 < 2 ^ 63" using mp(1) run(4) pub_start_sane [OF start] by (simp_all add: sane_options_def)
    then show "int m < 2 ^ 63" by linarith
  qed
  show ?thesis
    by (rule exI [of _ w'], rule exI [of _ t], rule exI [of _ socks], rule exI [of _ rounds])
      (intro conjI allI impI; (fact run | rule run(3,5) [rule_format] rows; assumption))
qed

definition sample_double :: "unit DoubleOps" where
  "sample_double =
     \<lparr>fp_lit = (\<lambda>_ _. ()), fp_float = (\<lambda>_ _. ()), fp_of_u64 = (\<lambda>_. ()), fp_add = (\<lambda>_ _. ()), fp_sub = (\<lambda>_ _. ()),
      fp_mul = (\<lambda>_ _. ()), fp_div = (\<lambda>_ _. ()), fp_neg = (\<lambda>_. ()), fp_sin = (\<lambda>_. ()), fp_exp = (\<lambda>_. ()),
      fp_fabs = (\<lambda>_. ()), fp_less = (\<lambda>_ _. False), fp_llround = (\<lambda>_. 0), fp_to_float = (\<lambda>_. 0)\<rparr>"

definition sample_pub :: "(nat, unit) PubSys" where
  "sample_pub =
     \<lparr>tp_zmq = sample_zmq True, tp_double = sample_double, tp_realtime = Pair 5, tp_monotonic = Pair 7,
      tp_sleep_ms = (\<lambda>_ n. n), tp_sleep_ns = (\<lambda>_ n. n), tp_shutdown_requested = (\<lambda>_. False), tp_stderr = (\<lambda>_ n. n),
      tp_seed = (\<lambda>_ n. n), tp_draw = (\<lambda>lo _ n. (lo, n))\<rparr>"

theorem testpub_publishes_every_message_witness:
  "\<exists>o1 w' t socks rounds.
     testpub_main (observed_pub sample_pub) ''testpub'' [''-e'', ''ipc:///a'', ''-e'', ''ipc:///b'', ''-n'', ''2'', ''-m''] (1, []) =
       Some (0, w', t) \<and>
     length socks = 2 \<and> ZBound (socks ! 1) ''ipc:///b'' True \<in> set t \<and> length rounds = 2 \<and>
     round_messages o1 2 0 1 (rounds ! 1) \<and> sends t = concat (map (round_frames o1 socks) rounds) \<and>
     (\<exists>x columns. csv_row (\<lambda>v. dec_digits (unat v)) default_RecordHeader (rounds ! 1 ! 0) =
        (row_of (record_fields default_RecordHeader @ [dec_digits 0, dec_digits 1] @ telemetry_fields (\<lambda>v. dec_digits (unat v)) x),
         telemetry_stem x, columns))"
proof -
  let ?args = "[''-e'', ''ipc:///a'', ''-e'', ''ipc:///b'', ''-n'', ''2'', ''-m'']"
  let ?o = "default_PubOptions\<lparr>po_endpoints := [''ipc:///a'', ''ipc:///b''], po_count := 2, po_multipart := True, po_size_max := 64\<rparr>"
  have "parse_long ''2'' ''--count'' = Go 2"
    by (simp add: parse_long_def strtol_def Let_def is_space_def is_digit_def digit_value_def digits_value_def less_eq_char_def)
  then have start: "pub_start ''testpub'' ?args = Go ?o"
    by (simp add: pub_start_def default_PubOptions_def Let_def)
  have works: "working sample_pub ?o"
    by (simp add: working_def sample_pub_def sample_zmq_def default_PubOptions_def)
  have count: "0 < po_count ?o" by simp
  have clean: "topic_is_clean ?o" by (simp add: topic_is_clean_def topic_prefix_def)
  have few: "length (po_endpoints ?o) < 2 ^ 32" by simp
  obtain w' t socks rounds where run: "testpub_main (observed_pub sample_pub) ''testpub'' ?args (1, []) = Some (0, w', t)"
      "length socks = length (po_endpoints ?o)" "\<forall>p<length socks. ZBound (socks ! p) (po_endpoints ?o ! p) True \<in> set t"
      "length rounds = nat (po_count ?o)" "\<forall>m<length rounds. round_messages ?o (length socks) 0 m (rounds ! m)"
      "sends t = concat (map (round_frames ?o socks) rounds)"
      "\<forall>m<length rounds. \<forall>p<length socks. \<exists>x columns. telemetry_type x = data_type_for_endpoint p \<and>
         csv_row (\<lambda>v. dec_digits (unat v)) default_RecordHeader (rounds ! m ! p) =
           (row_of (record_fields default_RecordHeader @ [dec_digits p, dec_digits m] @ telemetry_fields (\<lambda>v. dec_digits (unat v)) x),
            telemetry_stem x, columns)"
    using testpub_publishes_every_message [OF start works count clean few, of 1 "\<lambda>v. dec_digits (unat v)" default_RecordHeader]
    by (elim exE conjE)
  have two: "length socks = 2" "length rounds = 2" using run(2,4) by simp_all
  have "ZBound (socks ! 1) ''ipc:///b'' True \<in> set t" "round_messages ?o 2 0 1 (rounds ! 1)"
    using run(3) [rule_format, of 1] run(5) [rule_format, of 1] two by simp_all
  moreover obtain x columns where "csv_row (\<lambda>v. dec_digits (unat v)) default_RecordHeader (rounds ! 1 ! 0) =
      (row_of (record_fields default_RecordHeader @ [dec_digits 0, dec_digits 1] @ telemetry_fields (\<lambda>v. dec_digits (unat v)) x),
       telemetry_stem x, columns)"
    using run(7) [rule_format, of 1 0] two by auto
  ultimately show ?thesis using run(1,6) two by (intro exI conjI)
qed

end
