(* ===== verification/Spec2Isabelle.thy ===== *)
theory Spec2Isabelle
  imports Sequence_Tracker Relay_Path Json_Roundtrip Websocket_Properties Http_Properties Control_Safety
    Shutdown_Receiver Ctl_Properties Csv_Program Testpub_Properties
begin

text \<open>
  The program is a relay for inter-process messages. A bridge subscribes to ZeroMQ publishers on one machine, cuts every
  multipart message into fragments and sends them as UDP multicast datagrams; a receiver joins the group, checks and
  reassembles the datagrams, writes completed messages into a binary capture file, publishes statistics as JSON and obeys
  textual commands. Tools read the capture files and show the statistics.

  Theories and the code they model (paths below src/):

    \<^item> Relay_Prelude: types (byte, u16, u32, u64, sorted association maps), splitting and trimming of strings, printing and
      reading of decimal numbers, lists of bytes; the collections of simplification rules.
    \<^item> Byteorder: include/ipcrelay/common/byteorder.hpp, little-endian loads and stores.
    \<^item> Wire_Protocol: src/common/wire_protocol.cpp, the 56-byte fragment header, its encoder and the parser with its error codes.
    \<^item> Step_Systems: the interface between a component that keeps an invariant and the programs that run it step by step
      (two locales for total and for failing steps, and folds over sequences of events).
    \<^item> Sequence_Tracker: tools/receiver/lib/sequence_tracker.cpp, gap, restart and reordering detection per source.
    \<^item> Reassembler: tools/receiver/lib/reassembler.cpp, the table of incomplete messages with eviction and expiry. The hash map is a
      sorted association map; where the code scans it, the result does not depend on the order, or the order is a parameter.
    \<^item> Config: src/common/config.cpp, the INI reader, command line overrides, number, switch and address readers.
    \<^item> Bridge_Config: src/bridge/bridge_config.cpp with the parts of log.cpp and net_util.cpp it calls.
    \<^item> Platform: error numbers, results of receiving and polling, src/common/zmq_util.cpp (multipart receive and send) and
      UdpMulticastReceiver::receive of src/common/udp_multicast.cpp over the raw system calls.
    \<^item> Bridge: src/bridge/bridge.cpp, draining a source, cutting a message into datagrams, sending, the poll loop's body.
    \<^item> Capture: tools/receiver/lib/capture_format.cpp, capture_writer.cpp and capture_reader.cpp.
    \<^item> Doubles, Json_Writer, Receiver_Stats: tools/receiver/lib/json_writer.cpp and tools/receiver/receiver_stats.cpp; doubles are exact rationals
      with the rounding of the conversion and of %.3f written out.
    \<^item> Utf8, Json_Value, Json_Properties, Json_Roundtrip: tools/ctl/backend/json_value.cpp, the parser that the control tool
      applies to the statistics and to the browser's requests, and that it reads back what the JSON writer writes.
    \<^item> Websocket, Websocket_Properties: tools/ctl/backend/websocket.cpp, the handshake's digest and the frames.
    \<^item> Http, Http_Properties: tools/ctl/backend/http.cpp, request heads and responses.
    \<^item> Control_Server: tools/ctl/backend/control_server.cpp, every method of the class. Control_Input shows that the stream of a
      client may be cut anywhere; Control_Steps is the interface between a round of the event loop and relations that its
      operations respect; Control_Safety states bounds on memory, the commands that can be sent and who can send them.
    \<^item> Searching: the first occurrence of a list in a list. Telemetry: tools/testpub/telemetry.cpp, the structures of the test
      publisher, and the payload of its main.cpp. Csv_Export, Csv_Properties: tools/capture_to_csv/csv_export.cpp, captures as CSV files;
      Csv_Program: main.cpp around it.
    \<^item> Multicast: opening, configuring and closing sockets and UdpMulticastSender::send of src/common/udp_multicast.cpp. Zmq: the interface of
      ZeroMQ that the programs share. Both come with an observer that records the calls, and a locale of what a descriptor or a
      socket handle is, in which the clients account for what is left open.
    \<^item> Command_Line: the command lines, configuration files and overrides of src/bridge/main.cpp and tools/receiver/main.cpp.
    \<^item> Bridge_Program: set-up, main loop, statistics report and destructor of src/bridge/bridge.cpp, the description of a configuration,
      the log line of src/common/log.cpp, and the program. Receiver_Program: the destructor and the program of the receiver.
    \<^item> Shutdown, Shutdown_Receiver: src/common/signal_handler.cpp, and that a signal ends the main loops of the bridge and the
      receiver. The locale of a loop that a request stops is interpreted on both loops.
    \<^item> Ctl_Program, Ctl_Properties: tools/ctl/main.cpp, the command lines of serve, send and monitor, and what the two sides see.
    \<^item> Readings: the generators of tools/testpub/telemetry.cpp over a parameter for double arithmetic. Testpub_Program,
      Testpub_Properties: tools/testpub/main.cpp.
    \<^item> Receiver_Config: tools/receiver/receiver_config.cpp.
    \<^item> Receiver: tools/receiver/receiver.cpp, every method of the class, its main loop and its shutdown.
    \<^item> Receiver_Invariant: the accounting invariant of the receiver, its containment of bad input and of failing disks.
    \<^item> Relay_Path: the composition of bridge, network and receiver down to the bytes of the capture file.

  State and effects. Each class is a record with the fields of the class; an operation takes the record and returns it changed.
  What the code does outside of itself (sockets, ZeroMQ, clocks, stdio, the interface table, the order of a hash map) is an
  environment record of functions over a world type, and all theorems hold for every environment unless one is named: net_env is a
  network that queues and delivers, disk_env and file_env are a disk of bounded capacity. Errors are sums, options or the code's
  boolean with the error text. Machine integers keep their width.

  Loops. Loops over data are structural or have a measure. Loops that depend on the outside (receiving the parts of a message,
  retrying an interrupted receive, the main loop of the receiver) are partial functions into option, and their theorems either
  show that they return or are stated for every run of bounded length. The main loops of bridge and receiver are shown to end after a
  signal, as long as a receive ends when it is repeated; the publisher and the monitor with a count are shown to end. The JSON
  parser carries fuel, twice the length of the text plus two, which is shown to be enough for every text.

  Lemma groups. Round trips: bytes of every width, wire header and datagram, configuration text, capture headers, records and
  files, JSON documents. Invariants: sequence tracker, reassembler table, bridge counters, receiver accounting. Functional
  behaviour: parser errors, transmission, expiry, sequence gaps, truncated files, the statistics document. Composition: a message
  queued at the bridge is one record of the capture file, in any order of its datagrams. Programs: a command line either starts a
  program with a valid configuration or ends it with an exit code and an explanation; what is left open when a program
  ends; a command sent by the tool is obeyed by the receiver; a run of the publisher comes back out of the CSV export.

  Not modelled: the reading of the clocks, inet_ntop and the local time of a log line (system and library calls, parameters where
  their results are used), signals other than those the program catches, log output other than the lines of the bridge
  program, the browser page and the Python tools.
\<close>

section \<open>The system\<close>

text \<open>C1: end to end. When the bridge services a source, whatever multipart messages are queued on it, and the datagrams it
  puts on the wire reach a receiver that records and has room, the capture file grows by exactly one record for each
  message of the batch that fits on the wire, in order, with consecutive sequence numbers, the source's id, the time of reception,
  and the concatenated parts as payload; and the capture reader reads the old and the new records back without an error.\<close>

theorem relay_end_to_end:
  assumes "bridge_ok b" "i < length (source_stats b)" "inbox net i = concat (map frames_of ms)"
    "\<forall>m\<in>set ms. m \<noteq> [] \<and> length (concat m) \<le> unat (reassembly_max_message_bytes cfg)"
    "ready cfg rv" "\<forall>q. smap_get (entries (rv_reassembler rv)) (Key (source_id_of b i) q) = None"
    "ok_file_header h" "list_all record_ok recs"
    "new = relayed_records (b_cfg b) (source_id_of b i) (next_sequence (source_stats b ! i)) (net_time net)
       (take (nat (max_messages_per_poll (b_cfg b))) ms)"
    "length (file_bytes h (recs @ new)) \<le> cap"
  shows "\<exists>b' net' rv' ds. service_source (net_env n) i b net = Some (b', net') \<and> outbox net' = outbox net @ ds \<and>
     run_opt (receiver_step (file_env cap now)) (rv, file_bytes h recs) (map Datagram ds) = Some (rv', file_bytes h (recs @ new)) \<and>
     read_capture (file_bytes h (recs @ new)) = (Some (recs @ new), [])"
proof -
  let ?batch = "take (nat (max_messages_per_poll (b_cfg b))) ms" and ?src = "source_id_of b i"
  let ?seq = "next_sequence (source_stats b ! i)" and ?ts = "net_time net"
  have limit: "unat (reassembly_max_message_bytes cfg) < 2 ^ 32" using unat_less_2p [of "reassembly_max_message_bytes cfg"] by simp
  have small: "\<forall>m\<in>set ms. m \<noteq> [] \<and> length (concat m) < 2 ^ 32" using assms(4) limit by fastforce
  then have "\<forall>m\<in>set ms. m \<noteq> [] \<and> length (concat m) < 2 ^ 63" by fastforce
  from service_loop_net [OF assms(1-3) this, of n "nat (max_messages_per_poll (b_cfg b))"]
  obtain b' net' where bridge: "service_source (net_env n) i b net = Some (b', net')"
    "outbox net' = outbox net @ wire_of_all (b_cfg b) ?src ?seq ?ts ?batch"
    unfolding service_source_def by auto
  have "bridge_config_ok (b_cfg b)" using assms(1) by (simp add: bridge_ok_def)
  moreover have "\<forall>m\<in>set ?batch. length (concat m) \<le> max_message_length (reassembler_config cfg)"
    using assms(4) by (auto simp: reassembler_config_def dest: in_set_takeD)
  moreover have "length (file_bytes h recs) + length (records_bytes new) \<le> cap"
    using assms(10) by (simp add: file_bytes_def records_bytes_def)
  ultimately obtain rv' where receiver: "run_opt (receiver_step (file_env cap now)) (rv, file_bytes h recs)
        (map Datagram (wire_of_all (b_cfg b) ?src ?seq ?ts ?batch)) = Some (rv', file_bytes h recs @ records_bytes new)"
    using deliver_batch [OF _ assms(5,6), of "b_cfg b" ?batch "file_bytes h recs" ?seq ?ts cap now, folded assms(9)] by blast
  have content: "file_bytes h recs @ records_bytes new = file_bytes h (recs @ new)"
    by (simp add: file_bytes_def records_bytes_def)
  have "list_all record_ok new"
    unfolding assms(9) using small by (intro relayed_records_ok) (auto dest: in_set_takeD)
  then have all_ok: "list_all record_ok (recs @ new)" using assms(8) by simp
  let ?n = "length (file_bytes h (recs @ new))"
  have "complete_records (?n - 32) (recs @ new) = recs @ new" by (rule complete_records_all) (simp add: file_bytes_def)
  with read_capture_take [OF assms(7) all_ok, of ?n] have "read_capture (file_bytes h (recs @ new)) = (Some (recs @ new), [])"
    by (intro prod_eqI) (simp_all add: file_bytes_def)
  with bridge receiver content show ?thesis
    by (intro exI [of _ b'] exI [of _ net'] exI [of _ rv'] exI [of _ "wire_of_all (b_cfg b) ?src ?seq ?ts ?batch"]) simp
qed

text \<open>C4: order does not matter on the network: whatever the order in which the datagrams of one message reach the receiver,
  the message is recorded exactly once, with the original bytes, and the reassembler is left without an entry for it.\<close>

theorem message_recorded_in_any_order:
  assumes "bridge_config_ok bc" "\<not> oversize bc (concat m)" "ready cfg rv"
    "smap_get (entries (rv_reassembler rv)) (Key src seq) = None"
    "length (concat m) \<le> unat (reassembly_max_message_bytes cfg)" "length w + 32 + length (concat m) \<le> cap"
    "distinct perm" "set perm = {..<pieces_of bc (concat m)}"
  shows "\<exists>rv'. run_opt (receiver_step (file_env cap now)) (rv, w)
       (map (\<lambda>i. Datagram (message_datagrams bc src seq ts (flags_for m) (concat m) ! i)) perm) =
         Some (rv', w @ record_bytes (relayed_record bc src seq ts m)) \<and>
     smap_get (entries (rv_reassembler rv')) (Key src seq) = None \<and>
     rs_messages (rv_stats rv') = rs_messages (rv_stats rv) + 1 \<and> w_records (rv_writer rv') = w_records (rv_writer rv) + 1"
  using deliver_message [OF assms(1,2) flags_for_bit [of m] assms(3,4) _ assms(6-8), of now ts] assms(5)
  by (auto simp: message_record_completed reassembler_config_def)

section \<open>A concrete relay\<close>

definition sample_receiver :: Receiver where
  "sample_receiver = (new_Receiver default_ReceiverConfig)
     \<lparr>rv_writer := new_CaptureWriter\<lparr>w_is_open := True\<rparr>, recording := True\<rparr>"

lemma sample_receiver_ready: "ready default_ReceiverConfig sample_receiver"
proof -
  have "receiver_inv default_ReceiverConfig (new_Receiver default_ReceiverConfig)"
    by (rule receiver_inv_new) (simp add: default_ReceiverConfig_def)
  then have "receiver_inv default_ReceiverConfig sample_receiver"
    unfolding sample_receiver_def
    by (rule inv_writer(1))
      (simp add: records_ok_def new_CaptureWriter_def src_sum_def new_Receiver_def zero_ReceiverStats_def)
  then show ?thesis
    by (simp add: ready_def alive_def sample_receiver_def new_Receiver_def new_Reassembler_def new_CaptureWriter_def
        reassembler_config_def default_ReceiverConfig_def)
qed

lemma sample_receiver_idle: "smap_get (entries (rv_reassembler sample_receiver)) k = None"
  by (simp add: sample_receiver_def new_Receiver_def new_Reassembler_def smap_get_def)

theorem relay_end_to_end_witness:
  "\<exists>b' net' rv' ds new. service_source (net_env 1) 0 (new_Bridge sample_bridge_config) (sample_net [[[1, 2, 3], [4]], [[5]]]) = Some (b', net') \<and>
     outbox net' = ds \<and>
     run_opt (receiver_step (file_env 1000 5)) (sample_receiver, file_bytes default_FileHeader []) (map Datagram ds) =
       Some (rv', file_bytes default_FileHeader new) \<and>
     map snd new = [[1, 2, 3, 4], [5]]"
proof -
  let ?b = "new_Bridge sample_bridge_config" and ?ms = "[[[1, 2, 3], [4]], [[5]]] :: byte list list list"
  define new where "new = relayed_records (b_cfg ?b) (source_id_of ?b 0) (next_sequence (source_stats ?b ! 0)) (net_time (sample_net ?ms))
       (take (nat (max_messages_per_poll (b_cfg ?b))) ?ms)"
  have snds: "map snd new = [[1, 2, 3, 4], [5]]"
  proof -
    have "nat (max_messages_per_poll sample_bridge_config) = 2" by (simp add: sample_bridge_config_def)
    then show ?thesis by (simp add: new_def sample_new_Bridge sample_fits relayed_record_def)
  qed
  have "length (records_bytes new) = sum_list (map (\<lambda>p. 32 + length p) (map snd new))"
    by (simp add: records_bytes_def length_concat comp_def length_record_bytes)
  then have size: "length (file_bytes default_FileHeader ([] @ new)) \<le> 1000" by (simp add: snds file_bytes_def)
  have "0 < length (source_stats ?b)" by (simp add: sample_new_Bridge)
  moreover have "inbox (sample_net ?ms) 0 = concat (map frames_of ?ms)" by (simp add: sample_net_def)
  moreover have "\<forall>m\<in>set ?ms. m \<noteq> [] \<and> length (concat m) \<le> unat (reassembly_max_message_bytes default_ReceiverConfig)"
    by (simp add: default_ReceiverConfig_def)
  moreover have "ok_file_header default_FileHeader"
    by (simp add: ok_file_header_def default_FileHeader_def kFileHeaderSize_def)
  ultimately obtain b' net' rv' ds where
    "service_source (net_env 1) 0 ?b (sample_net ?ms) = Some (b', net')" "outbox net' = outbox (sample_net ?ms) @ ds"
    "run_opt (receiver_step (file_env 1000 5)) (sample_receiver, file_bytes default_FileHeader []) (map Datagram ds) =
       Some (rv', file_bytes default_FileHeader ([] @ new))"
    using relay_end_to_end [OF sample_bridge_ok _ _ _ sample_receiver_ready _ _ _ new_def size, of 1 5] sample_receiver_idle by auto
  then show ?thesis using snds
    by (intro exI [of _ b'] exI [of _ net'] exI [of _ rv'] exI [of _ ds] exI [of _ new]) (simp add: sample_net_def)
qed

theorem message_recorded_in_any_order_witness:
  "\<exists>rv'. run_opt (receiver_step (file_env 1000 5)) (sample_receiver, [])
     (map (\<lambda>i. Datagram (message_datagrams sample_bridge_config 7 0 9 (flags_for [[1, 2, 3]]) (concat [[1, 2, 3]]) ! i)) [1, 0]) =
       Some (rv', record_bytes (relayed_record sample_bridge_config 7 0 9 [[1, 2, 3]]))"
proof -
  have n: "pieces_of sample_bridge_config (concat [[1, 2, 3]]) = 2" by (simp add: pieces_of_def sample_payload)
  have "\<not> oversize sample_bridge_config (concat [[1, 2, 3]])" by (simp add: sample_fits)
  moreover have "length (concat [[1, 2, 3 :: byte]]) \<le> unat (reassembly_max_message_bytes default_ReceiverConfig)"
    by (simp add: default_ReceiverConfig_def)
  moreover have "set [1, 0] = {..<pieces_of sample_bridge_config (concat [[1, 2, 3]])}" unfolding n by auto
  ultimately show ?thesis
    using message_recorded_in_any_order [OF sample_bridge_config_ok _ sample_receiver_ready sample_receiver_idle,
        of "[[1, 2, 3]]" "[]" 1000 "[1, 0]" 5 7 0 9] by auto
qed

end
